(* ===== verification/Giapi_Prelude.thy ===== *)
theory Giapi_Prelude
  imports Main "HOL-Library.Word" "HOL-Library.Signed_Division"
begin

section \<open>Shared types, collections and generic lemmas\<close>

text \<open>
  What every theory of the development uses: the machine types of the C++ code, the
  IEEE 754 comparison that C++ \<open>==\<close> performs on \<open>double\<close> and \<open>float\<close>, C strings,
  the theorem collections, and a few facts on lists that several components need.
\<close>

unbundle bit_operations_syntax

named_theorems prog_simps "unfolding rules of the program combinators"
named_theorems item_simps "how the operations on one status item change its fields"
named_theorems inv_intros "preservation of a component's invariant by its operations"

subsection \<open>Machine types\<close>

text \<open>
  An \<open>int\<close>, a \<open>float\<close> and a \<open>double\<close> are kept as the bit patterns they have in memory:
  the code only stores them, writes them to messages and compares them with \<open>==\<close>.
\<close>

type_synonym i32 = "32 word"
type_synonym i64 = "64 word"
type_synonym f32 = "32 word"
type_synonym f64 = "64 word"
type_synonym u8 = "8 word"
type_synonym u16 = "16 word"

text \<open>
  C++ compares floating point values, not their bits: a NaN is different from everything,
  itself included, and the two zeros are equal.
\<close>

definition f64_nan :: "f64 \<Rightarrow> bool" where
  "f64_nan x \<longleftrightarrow> x AND 0x7FF0000000000000 = 0x7FF0000000000000 \<and> x AND 0x000FFFFFFFFFFFFF \<noteq> 0"

definition f64_zero :: "f64 \<Rightarrow> bool" where
  "f64_zero x \<longleftrightarrow> x AND 0x7FFFFFFFFFFFFFFF = 0"

definition f64_eq :: "f64 \<Rightarrow> f64 \<Rightarrow> bool" where
  "f64_eq x y \<longleftrightarrow> \<not> f64_nan x \<and> \<not> f64_nan y \<and> (x = y \<or> f64_zero x \<and> f64_zero y)"

definition f32_nan :: "f32 \<Rightarrow> bool" where
  "f32_nan x \<longleftrightarrow> x AND 0x7F800000 = 0x7F800000 \<and> x AND 0x007FFFFF \<noteq> 0"

definition f32_zero :: "f32 \<Rightarrow> bool" where
  "f32_zero x \<longleftrightarrow> x AND 0x7FFFFFFF = 0"

definition f32_eq :: "f32 \<Rightarrow> f32 \<Rightarrow> bool" where
  "f32_eq x y \<longleftrightarrow> \<not> f32_nan x \<and> \<not> f32_nan y \<and> (x = y \<or> f32_zero x \<and> f32_zero y)"

lemma f64_eq_refl_iff [simp]: "f64_eq x x \<longleftrightarrow> \<not> f64_nan x"
  by (auto simp: f64_eq_def)

lemma f32_eq_refl_iff [simp]: "f32_eq x x \<longleftrightarrow> \<not> f32_nan x"
  by (auto simp: f32_eq_def)

lemma f64_eq_sym: "f64_eq x y \<longleftrightarrow> f64_eq y x"
  by (auto simp: f64_eq_def)

lemma f32_eq_sym: "f32_eq x y \<longleftrightarrow> f32_eq y x"
  by (auto simp: f32_eq_def)

lemma f64_zeros: "f64_eq 0 0x8000000000000000" "\<not> f64_nan 0"
  by (simp_all add: f64_eq_def f64_nan_def f64_zero_def)

subsection \<open>C strings\<close>

text \<open>What a reader of a NUL-terminated buffer sees of a string of bytes.\<close>

definition c_string :: "string \<Rightarrow> string" where
  "c_string s = takeWhile (\<lambda>c. c \<noteq> CHR 0x00) s"

lemma c_string_id: "CHR 0x00 \<notin> set s \<Longrightarrow> c_string s = s"
  by (auto simp: c_string_def takeWhile_eq_all_conv)

lemma c_string_idem [simp]: "c_string (c_string s) = c_string s"
  by (simp add: c_string_def)

lemma c_string_no_nul [simp]: "CHR 0x00 \<notin> set (c_string s)"
  by (auto simp: c_string_def dest: set_takeWhileD)

subsection \<open>Time of day\<close>

text \<open>
  \<open>struct timeval\<close>; \<open>gettimeofday\<close> delivers one or fails. The conversion to milliseconds
  is the one the status items and the observatory time share, with C's division.
\<close>

record timeval =
  tv_sec :: int
  tv_usec :: int

definition tv_millis :: "timeval \<Rightarrow> int" where
  "tv_millis tv = tv_sec tv * 1000 + tv_usec tv sdiv 1000"

text \<open>A time as the kernel delivers it: microseconds below one second.\<close>

definition tv_normal :: "timeval \<Rightarrow> bool" where
  "tv_normal tv \<longleftrightarrow> 0 \<le> tv_sec tv \<and> 0 \<le> tv_usec tv \<and> tv_usec tv < 1000000"

lemma sdiv_nonneg: "0 \<le> a \<Longrightarrow> 0 < b \<Longrightarrow> a sdiv b = a div (b::int)"
  by (auto simp: signed_divide_int_def sgn_if)

lemma tv_millis_floor:
  assumes "tv_normal tv"
  shows "tv_millis tv = (tv_sec tv * 1000000 + tv_usec tv) div 1000"
proof -
  have "(tv_sec tv * 1000000 + tv_usec tv) div 1000
      = (tv_usec tv + 1000 * (tv_sec tv * 1000)) div 1000"
    by (simp add: algebra_simps)
  also have "\<dots> = tv_sec tv * 1000 + tv_usec tv div 1000"
    by (subst div_mult_self2) simp_all
  finally show ?thesis
    using assms by (simp add: tv_millis_def tv_normal_def sdiv_nonneg)
qed

subsection \<open>Lists\<close>

lemma list_update_map: "i < length xs \<Longrightarrow> map f (xs[i := y]) = (map f xs)[i := f y]"
  by (simp add: map_update)

lemma nth_append_fresh [simp]: "(xs @ [x]) ! length xs = x"
  by simp

end
