(* ===== verification/Giapi_Types.thy ===== *)
theory Giapi_Types
  imports Giapi_Prelude
begin

section \<open>The public enumerations and structures of giapi.h\<close>

text \<open>
  One definition per enumeration or structure of \<open>giapi/giapi.h\<close>. The constructors keep the
  names of the enumerators; where C++ namespaces separate equal names (\<open>health::WARNING\<close>,
  \<open>log::WARNING\<close>) or a name is an Isabelle keyword, a letter in front tells them apart.
\<close>

subsection \<open>Return codes\<close>

text \<open>
  \<open>status::Status\<close>. The functions of the library return an \<open>int\<close>, so the two codes are
  numbers: a caller compares the result with \<open>status::OK\<close>, and some code returns others.
\<close>

definition status_OK :: int where
  "status_OK = 0"

definition status_ERROR :: int where
  "status_ERROR = -1"

lemma status_codes_distinct [simp]: "status_OK \<noteq> status_ERROR" "status_ERROR \<noteq> status_OK"
  by (simp_all add: status_OK_def status_ERROR_def)

subsection \<open>Alarms, types and health\<close>

datatype alarm_severity = ALARM_OK | ALARM_WARNING | ALARM_FAILURE

datatype alarm_cause =
    ALARM_CAUSE_OK
  | ALARM_CAUSE_HIHI
  | ALARM_CAUSE_HI
  | ALARM_CAUSE_LOLO
  | ALARM_CAUSE_LO
  | ALARM_CAUSE_OTHER

datatype item_type =
    T_BOOLEAN
  | T_INT
  | T_FLOAT
  | T_DOUBLE
  | T_STRING
  | T_BYTE
  | T_SHORT

datatype health = H_GOOD | H_WARNING | H_BAD

text \<open>The number C++ converts a \<open>health::Health\<close> to where an \<open>int\<close> is expected.\<close>

fun health_int :: "health \<Rightarrow> i32" where
  "health_int H_GOOD = 0"
| "health_int H_WARNING = 1"
| "health_int H_BAD = 2"

lemma health_int_inj [simp]: "health_int h = health_int k \<longleftrightarrow> h = k"
  by (cases h; cases k) simp_all

subsection \<open>Commands\<close>

type_synonym action_id = i32

datatype sequence_command =
    TEST | REBOOT | INIT | DATUM | PARK | VERIFY | END_VERIFY | GUIDE | END_GUIDE
  | APPLY | OBSERVE | END_OBSERVE | PAUSE | CONTINUE | STOP | STOP_CYCLE | ABORT
  | ENGINEERING

datatype activity = PRESET | START | PRESET_START | CANCEL

datatype activity_set =
    SET_PRESET
  | SET_START
  | SET_PRESET_START
  | SET_CANCEL
  | SET_PRESET_CANCEL
  | SET_START_CANCEL
  | SET_PRESET_START_CANCEL

subsection \<open>Log levels and observation events\<close>

text \<open>
  \<open>Level_begin\<close> is the same number as \<open>INFO\<close>; \<open>Level_end\<close> is a value a caller can pass.
\<close>

datatype log_level = L_INFO | L_WARNING | L_SEVERE | L_end

datatype observation_event =
    OBS_PREP
  | OBS_START_ACQ
  | OBS_END_ACQ
  | OBS_START_READOUT
  | OBS_END_READOUT
  | OBS_START_DSET_WRITE
  | OBS_END_DSET_WRITE

datatype offset_type = ACQ | SLOWGUIDING

fun offset_type_int :: "offset_type \<Rightarrow> i32" where
  "offset_type_int ACQ = 0"
| "offset_type_int SLOWGUIDING = 1"

subsection \<open>The TCS context\<close>

text \<open>
  \<open>struct TcsContext\<close> with its two inner structures. The arrays \<open>aoprms[15]\<close>, \<open>m2xy[3][2]\<close>
  and \<open>ao2t[6]\<close> are lists of these lengths.
\<close>

record tcs_tel =
  tel_fl :: f64
  tel_rma :: f64
  tel_an :: f64
  tel_aw :: f64
  tel_pnpae :: f64
  tel_ca :: f64
  tel_ce :: f64
  tel_pox :: f64
  tel_poy :: f64

record tcs_po =
  po_mx :: f64
  po_my :: f64
  po_ax :: f64
  po_ay :: f64
  po_bx :: f64
  po_by :: f64
  po_cx :: f64
  po_cy :: f64

record tcs_context =
  ctx_time :: f64
  ctx_x :: f64
  ctx_y :: f64
  ctx_z :: f64
  ctx_tel :: tcs_tel
  ctx_aoprms :: "f64 list"
  ctx_m2xy :: "f64 list list"
  ctx_po :: tcs_po
  ctx_ao2t :: "f64 list"

subsection \<open>Class instances\<close>

text \<open>
  The enumerations over which properties range are finite and their values can be listed,
  so that a statement about every activity or every command evaluates.
\<close>

instantiation activity :: enum
begin
definition "enum_activity = [PRESET, START, PRESET_START, CANCEL]"
definition "enum_all_activity P \<longleftrightarrow> list_all P [PRESET, START, PRESET_START, CANCEL]"
definition "enum_ex_activity P \<longleftrightarrow> list_ex P [PRESET, START, PRESET_START, CANCEL]"
lemma UNIV_activity: "UNIV = {PRESET, START, PRESET_START, CANCEL}"
  by (auto intro: activity.exhaust)
instance
  by standard (auto simp: enum_activity_def enum_all_activity_def enum_ex_activity_def
    UNIV_activity intro: activity.exhaust)
end

text \<open>The severities are ordered by the numbers of their enumerators.\<close>

fun severity_int :: "alarm_severity \<Rightarrow> int" where
  "severity_int ALARM_OK = 0"
| "severity_int ALARM_WARNING = 1"
| "severity_int ALARM_FAILURE = 2"

lemma severity_int_inj [simp]: "severity_int a = severity_int b \<longleftrightarrow> a = b"
  by (cases a; cases b) simp_all

instantiation alarm_severity :: linorder
begin
definition "a \<le> b \<longleftrightarrow> severity_int a \<le> severity_int b"
definition "a < b \<longleftrightarrow> severity_int a < severity_int b"
instance
  by standard (auto simp: less_eq_alarm_severity_def less_alarm_severity_def)
end

end
