(* ===== verification/Giapi_Except.thy ===== *)
theory Giapi_Except
  imports Giapi_Types
begin

section \<open>Exceptions\<close>

text \<open>
  The exception classes of \<open>giapi/giapiexcept.h\<close> and \<open>src/giapiexcept.cpp\<close>, together with
  the exceptions of other libraries that the code catches or lets through.
\<close>

subsection \<open>The class hierarchy\<close>

datatype exn_class =
    GiapiException
  | CommunicationException
  | GmpException
  | PostException
  | InvalidOperation
  | TimeoutException

text \<open>The direct base class, as each class declares it.\<close>

fun exn_base :: "exn_class \<Rightarrow> exn_class option" where
  "exn_base GiapiException = None"
| "exn_base CommunicationException = Some GiapiException"
| "exn_base GmpException = Some CommunicationException"
| "exn_base PostException = Some CommunicationException"
| "exn_base InvalidOperation = Some GiapiException"
| "exn_base TimeoutException = Some GiapiException"

text \<open>
  A handler for a class catches the class and everything derived from it: the chain of base
  classes. No chain is longer than three, the fuel given here.
\<close>

fun exn_chain :: "nat \<Rightarrow> exn_class \<Rightarrow> exn_class list" where
  "exn_chain 0 c = [c]"
| "exn_chain (Suc n) c = c # (case exn_base c of None \<Rightarrow> [] | Some b \<Rightarrow> exn_chain n b)"

definition exn_is_a :: "exn_class \<Rightarrow> exn_class \<Rightarrow> bool" where
  "exn_is_a c d \<longleftrightarrow> d \<in> set (exn_chain 2 c)"

lemma exn_is_a_simps [simp]:
  "exn_is_a c c"
  "exn_is_a c GiapiException"
  "exn_is_a GmpException CommunicationException"
  "exn_is_a PostException CommunicationException"
  "\<not> exn_is_a TimeoutException CommunicationException"
  "\<not> exn_is_a InvalidOperation CommunicationException"
  "\<not> exn_is_a GiapiException CommunicationException"
  "\<not> exn_is_a CommunicationException PostException"
  "\<not> exn_is_a TimeoutException PostException"
  "\<not> exn_is_a GmpException PostException"
  "\<not> exn_is_a CommunicationException TimeoutException"
  "\<not> exn_is_a PostException TimeoutException"
  by (cases c; simp add: exn_is_a_def numeral_2_eq_2)+

lemma exn_is_a_trans: "exn_is_a a b \<Longrightarrow> exn_is_a b c \<Longrightarrow> exn_is_a a c"
  by (cases a; cases b; cases c) (simp_all add: exn_is_a_def numeral_2_eq_2)

subsection \<open>Exception objects\<close>

record giapi_exception =
  ex_class :: exn_class
  ex_message :: string

text \<open>The constructors: without a message the string member is empty.\<close>

definition new_exn :: "exn_class \<Rightarrow> giapi_exception" where
  "new_exn c = \<lparr>ex_class = c, ex_message = []\<rparr>"

definition new_exn_msg :: "exn_class \<Rightarrow> string \<Rightarrow> giapi_exception" where
  "new_exn_msg c m = \<lparr>ex_class = c, ex_message = m\<rparr>"

definition getMessage_exn :: "giapi_exception \<Rightarrow> string" where
  "getMessage_exn e = ex_message e"

text \<open>\<open>what\<close> hands out a C string, so a reader stops at the first NUL.\<close>

definition what_exn :: "giapi_exception \<Rightarrow> string" where
  "what_exn e = c_string (ex_message e)"

definition setMessage_exn :: "string \<Rightarrow> giapi_exception \<Rightarrow> giapi_exception" where
  "setMessage_exn m e = e\<lparr>ex_message := m\<rparr>"

text \<open>
  \<open>buildMessage\<close> formats with the APR library, a parameter of the model, and keeps the
  buffer up to its first NUL.
\<close>

definition buildMessage_exn ::
  "(string \<Rightarrow> 'args \<Rightarrow> string) \<Rightarrow> string \<Rightarrow> 'args \<Rightarrow> giapi_exception \<Rightarrow> giapi_exception" where
  "buildMessage_exn pvsprintf fmt args e = e\<lparr>ex_message := c_string (pvsprintf fmt args)\<rparr>"

definition setMessage_fmt_exn ::
  "(string \<Rightarrow> 'args \<Rightarrow> string) \<Rightarrow> string \<Rightarrow> 'args \<Rightarrow> giapi_exception \<Rightarrow> giapi_exception" where
  "setMessage_fmt_exn pvsprintf fmt args e = buildMessage_exn pvsprintf fmt args e"

subsection \<open>Everything that can be thrown\<close>

text \<open>
  Besides the GIAPI exceptions: \<open>cms::CMSException\<close> of the messaging library, and
  \<open>boost::bad_any_cast\<close>, \<open>std::invalid_argument\<close>, \<open>std::out_of_range\<close>, the pointer to a
  \<open>std::logic_error\<close> that \<open>throw new\<close> throws, and \<open>std::bad_alloc\<close>, which \<open>new\<close> throws for
  an array of negative length.
\<close>

datatype exn =
    Giapi giapi_exception
  | CMSExn string
  | BadAnyCast
  | InvalidArgument
  | OutOfRange
  | BadAlloc
  | LogicErrorPtr string

definition throws_class :: "exn_class \<Rightarrow> exn \<Rightarrow> bool" where
  "throws_class c e \<longleftrightarrow> (case e of Giapi g \<Rightarrow> exn_is_a (ex_class g) c | _ \<Rightarrow> False)"

fun is_cms :: "exn \<Rightarrow> bool" where
  "is_cms (CMSExn m) = True"
| "is_cms e = False"

fun exn_text :: "exn \<Rightarrow> string" where
  "exn_text (CMSExn m) = m"
| "exn_text (Giapi g) = ex_message g"
| "exn_text (LogicErrorPtr m) = m"
| "exn_text e = []"

abbreviation gexn :: "exn_class \<Rightarrow> string \<Rightarrow> exn" where
  "gexn c m \<equiv> Giapi (new_exn_msg c m)"

lemma throws_class_simps [simp]:
  "throws_class c (Giapi g) \<longleftrightarrow> exn_is_a (ex_class g) c"
  "\<not> throws_class c (CMSExn m)"
  "\<not> throws_class c BadAnyCast"
  "\<not> throws_class c InvalidArgument"
  "\<not> throws_class c OutOfRange"
  "\<not> throws_class c BadAlloc"
  "\<not> throws_class c (LogicErrorPtr m)"
  by (simp_all add: throws_class_def)

lemma ex_class_new_exn_msg [simp]: "ex_class (new_exn_msg c m) = c" "ex_message (new_exn_msg c m) = m"
  by (simp_all add: new_exn_msg_def)

lemma is_cms_iff: "is_cms e \<longleftrightarrow> (\<exists>m. e = CMSExn m)"
  by (cases e) simp_all

end
