(* ===== verification/Giapi_Prog.thy ===== *)
theory Giapi_Prog
  imports Giapi_Except
begin

section \<open>Programs: state, exceptions, termination of the process\<close>

text \<open>
  A piece of C++ code over a state \<open>'s\<close> is a function from the state to an outcome and the
  new state. It returns a value, throws, ends the process (an exception leaves a function
  whose exception specification does not allow it) or has undefined behaviour (a null
  pointer is used, an object is deleted twice, an array is overrun).
\<close>

datatype 'a res = Val 'a | Exn exn | Terminated | Undef

type_synonym ('s, 'a) prog = "'s \<Rightarrow> 'a res \<times> 's"

definition ret :: "'a \<Rightarrow> ('s, 'a) prog" where
  "ret x = (\<lambda>s. (Val x, s))"

definition throw :: "exn \<Rightarrow> ('s, 'a) prog" where
  "throw e = (\<lambda>s. (Exn e, s))"

definition undef :: "('s, 'a) prog" where
  "undef = (\<lambda>s. (Undef, s))"

definition bindp :: "('s, 'a) prog \<Rightarrow> ('a \<Rightarrow> ('s, 'b) prog) \<Rightarrow> ('s, 'b) prog" where
  "bindp m f = (\<lambda>s. case m s of
      (Val x, s') \<Rightarrow> f x s'
    | (Exn e, s') \<Rightarrow> (Exn e, s')
    | (Terminated, s') \<Rightarrow> (Terminated, s')
    | (Undef, s') \<Rightarrow> (Undef, s'))"

definition thenp :: "('s, 'a) prog \<Rightarrow> ('s, 'b) prog \<Rightarrow> ('s, 'b) prog" where
  "thenp m k = bindp m (\<lambda>_. k)"

definition reads :: "('s \<Rightarrow> 'a) \<Rightarrow> ('s, 'a) prog" where
  "reads f = (\<lambda>s. (Val (f s), s))"

definition modifies :: "('s \<Rightarrow> 's) \<Rightarrow> ('s, unit) prog" where
  "modifies f = (\<lambda>s. (Val (), f s))"

text \<open>\<open>try m catch (C &e) h\<close>: the handler runs for the exceptions of its class.\<close>

definition catchp :: "('s, 'a) prog \<Rightarrow> (exn \<Rightarrow> bool) \<Rightarrow> (exn \<Rightarrow> ('s, 'a) prog) \<Rightarrow> ('s, 'a) prog" where
  "catchp m C h = (\<lambda>s. case m s of
      (Exn e, s') \<Rightarrow> (if C e then h e s' else (Exn e, s'))
    | r \<Rightarrow> r)"

text \<open>
  An exception specification \<open>throw (...)\<close>: any other exception calls
  \<open>std::unexpected\<close>, which ends the process.
\<close>

definition throw_spec :: "(exn \<Rightarrow> bool) \<Rightarrow> ('s, 'a) prog \<Rightarrow> ('s, 'a) prog" where
  "throw_spec C m = (\<lambda>s. case m s of
      (Exn e, s') \<Rightarrow> (if C e then (Exn e, s') else (Terminated, s'))
    | r \<Rightarrow> r)"

text \<open>Code over a part of the state, used on the whole.\<close>

definition on_part :: "('s \<Rightarrow> 'p) \<Rightarrow> ('p \<Rightarrow> 's \<Rightarrow> 's) \<Rightarrow> ('p, 'a) prog \<Rightarrow> ('s, 'a) prog" where
  "on_part get put m = (\<lambda>s. case m (get s) of (r, p) \<Rightarrow> (r, put p s))"

subsection \<open>Evaluation rules\<close>

lemma ret_run [simp, prog_simps]: "ret x s = (Val x, s)"
  by (simp add: ret_def)

lemma throw_run [simp, prog_simps]: "throw e s = (Exn e, s)"
  by (simp add: throw_def)

lemma undef_run [simp, prog_simps]: "undef s = (Undef, s)"
  by (simp add: undef_def)

lemma reads_run [simp, prog_simps]: "reads f s = (Val (f s), s)"
  by (simp add: reads_def)

lemma modifies_run [simp, prog_simps]: "modifies f s = (Val (), f s)"
  by (simp add: modifies_def)

lemma bindp_run [prog_simps]:
  "m s = (Val x, s') \<Longrightarrow> bindp m f s = f x s'"
  "m s = (Exn e, s') \<Longrightarrow> bindp m f s = (Exn e, s')"
  "m s = (Terminated, s') \<Longrightarrow> bindp m f s = (Terminated, s')"
  "m s = (Undef, s') \<Longrightarrow> bindp m f s = (Undef, s')"
  by (simp_all add: bindp_def)

lemma thenp_run [prog_simps]:
  "m s = (Val x, s') \<Longrightarrow> thenp m k s = k s'"
  "m s = (Exn e, s') \<Longrightarrow> thenp m k s = (Exn e, s')"
  "m s = (Terminated, s') \<Longrightarrow> thenp m k s = (Terminated, s')"
  "m s = (Undef, s') \<Longrightarrow> thenp m k s = (Undef, s')"
  by (simp_all add: thenp_def bindp_def)

lemma catchp_run [prog_simps]:
  "m s = (Val x, s') \<Longrightarrow> catchp m C h s = (Val x, s')"
  "m s = (Exn e, s') \<Longrightarrow> catchp m C h s = (if C e then h e s' else (Exn e, s'))"
  "m s = (Terminated, s') \<Longrightarrow> catchp m C h s = (Terminated, s')"
  "m s = (Undef, s') \<Longrightarrow> catchp m C h s = (Undef, s')"
  by (simp_all add: catchp_def)

lemma throw_spec_run [prog_simps]:
  "m s = (Val x, s') \<Longrightarrow> throw_spec C m s = (Val x, s')"
  "m s = (Exn e, s') \<Longrightarrow> throw_spec C m s = (if C e then (Exn e, s') else (Terminated, s'))"
  "m s = (Terminated, s') \<Longrightarrow> throw_spec C m s = (Terminated, s')"
  "m s = (Undef, s') \<Longrightarrow> throw_spec C m s = (Undef, s')"
  by (simp_all add: throw_spec_def)

lemma bindp_reads [simp, prog_simps]: "bindp (reads f) k s = k (f s) s"
  by (simp add: bindp_def)

lemma thenp_modifies [simp, prog_simps]: "thenp (modifies f) k s = k (f s)"
  by (simp add: thenp_def bindp_def)

lemma bindp_throw [simp]: "bindp (throw e) f = throw e"
  by (rule ext) (simp add: bindp_def)

lemma bindp_ret [simp]: "bindp (ret x) f = f x"
  by (rule ext) (simp add: bindp_def)

lemma bindp_Pair [simp]: "bindp (Pair (Val x)) f = f x"
  by (rule ext) (simp add: bindp_def)

lemma thenp_Pair [simp]: "thenp (Pair (Val x)) k = k"
  by (simp add: thenp_def)

lemma bindp_ret_right [simp]: "bindp m ret = m"
  by (rule ext) (auto simp: bindp_def split: prod.splits res.splits)

lemma bindp_assoc: "bindp (bindp m f) g = bindp m (\<lambda>x. bindp (f x) g)"
  by (rule ext) (auto simp: bindp_def split: prod.splits res.splits)

lemma catchp_ret [simp]: "catchp (ret x) C h = ret x"
  by (rule ext) (simp add: catchp_def)

lemma throw_spec_catches: "fst (throw_spec C m s) = Exn e \<Longrightarrow> C e"
  by (auto simp: throw_spec_def split: prod.splits res.splits if_splits)

subsection \<open>Weakest preconditions\<close>

text \<open>
  \<open>sat Q E r\<close>: the outcome \<open>r\<close> is a value with \<open>Q\<close> or an exception with \<open>E\<close>; the code
  neither ended the process nor ran into undefined behaviour. The equations of \<open>wp\<close> push
  the predicate through the combinators, so that \<open>simp add: wp\<close> computes what a body must
  satisfy, statement by statement.
\<close>

fun sat :: "('a \<Rightarrow> 's \<Rightarrow> bool) \<Rightarrow> (exn \<Rightarrow> 's \<Rightarrow> bool) \<Rightarrow> 'a res \<times> 's \<Rightarrow> bool" where
  "sat Q E (Val x, s) = Q x s"
| "sat Q E (Exn e, s) = E e s"
| "sat Q E (Terminated, s) = False"
| "sat Q E (Undef, s) = False"

named_theorems wp "weakest preconditions of the program combinators"

lemma res_cases:
  obtains x s where "r = (Val x, s)" | e s where "r = (Exn e, s)"
    | s where "r = (Terminated, s)" | s where "r = (Undef, s)"
  by (cases r; cases "fst r") auto

lemma sat_ret [wp]: "sat Q E (ret x s) \<longleftrightarrow> Q x s"
  by simp

lemma sat_throw [wp]: "sat Q E (throw e s) \<longleftrightarrow> E e s"
  by simp

lemma sat_undef [wp]: "\<not> sat Q E (undef s)"
  by simp

lemma sat_reads [wp]: "sat Q E (reads f s) \<longleftrightarrow> Q (f s) s"
  by simp

lemma sat_modifies [wp]: "sat Q E (modifies f s) \<longleftrightarrow> Q () (f s)"
  by simp

lemma sat_bindp [wp]: "sat Q E (bindp m f s) \<longleftrightarrow> sat (\<lambda>x s'. sat Q E (f x s')) E (m s)"
  by (cases "m s" rule: res_cases) (simp_all add: bindp_def)

lemma sat_thenp [wp]: "sat Q E (thenp m k s) \<longleftrightarrow> sat (\<lambda>_ s'. sat Q E (k s')) E (m s)"
  by (simp add: thenp_def sat_bindp)

lemma sat_catchp [wp]:
  "sat Q E (catchp m C h s) \<longleftrightarrow> sat Q (\<lambda>e s'. if C e then sat Q E (h e s') else E e s') (m s)"
  by (cases "m s" rule: res_cases) (simp_all add: catchp_def)

lemma sat_throw_spec [wp]:
  "sat Q E (throw_spec C m s) \<longleftrightarrow> sat Q (\<lambda>e s'. C e \<and> E e s') (m s)"
  by (cases "m s" rule: res_cases) (simp_all add: throw_spec_def)

lemma sat_on_part [wp]:
  "sat Q E (on_part get put m s) \<longleftrightarrow> sat (\<lambda>x p. Q x (put p s)) (\<lambda>e p. E e (put p s)) (m (get s))"
  by (cases "m (get s)" rule: res_cases) (simp_all add: on_part_def)

lemma sat_if [wp]: "sat Q E ((if c then m else k) s) \<longleftrightarrow> (if c then sat Q E (m s) else sat Q E (k s))"
  by simp

lemma sat_mono:
  assumes "sat Q E r" and "\<And>x s. Q x s \<Longrightarrow> Q' x s" and "\<And>e s. E e s \<Longrightarrow> E' e s"
  shows "sat Q' E' r"
  using assms by (cases r rule: res_cases) simp_all

lemma sat_conj: "sat Q E r \<Longrightarrow> sat Q' E' r \<Longrightarrow> sat (\<lambda>x s. Q x s \<and> Q' x s) (\<lambda>e s. E e s \<and> E' e s) r"
  by (cases r rule: res_cases) simp_all

lemma satD:
  assumes "sat Q E r"
  shows "(\<exists>x s. r = (Val x, s) \<and> Q x s) \<or> (\<exists>e s. r = (Exn e, s) \<and> E e s)"
  using assms by (cases r rule: res_cases) simp_all

subsection \<open>Histories of calls\<close>

text \<open>
  An application calls the library again and again; it survives an exception it catches.
  \<open>run_calls\<close> performs a list of calls and collects their outcomes, the thrown ones too.
\<close>

fun run_calls :: "('c \<Rightarrow> ('s, 'r) prog) \<Rightarrow> 'c list \<Rightarrow> ('s, 'r res list) prog" where
  "run_calls step [] = ret []"
| "run_calls step (c # cs) = (\<lambda>s. case step c s of
      (Val x, s') \<Rightarrow> bindp (run_calls step cs) (\<lambda>rs. ret (Val x # rs)) s'
    | (Exn e, s') \<Rightarrow> bindp (run_calls step cs) (\<lambda>rs. ret (Exn e # rs)) s'
    | (Terminated, s') \<Rightarrow> (Terminated, s')
    | (Undef, s') \<Rightarrow> (Undef, s'))"

text \<open>The outcomes an application can go on after: a value, or an exception it may expect.\<close>

fun expected :: "(exn \<Rightarrow> bool) \<Rightarrow> 'r res \<Rightarrow> bool" where
  "expected C (Val x) = True"
| "expected C (Exn e) = C e"
| "expected C Terminated = False"
| "expected C Undef = False"

text \<open>
  The interface of a component whose calls are safe: each keeps the invariant, moves the
  state along a preorder and throws only allowed exceptions. Then every history does.
\<close>

locale safe_machine =
  fixes step :: "'c \<Rightarrow> ('s, 'r) prog"
    and inv :: "'s \<Rightarrow> bool"
    and later :: "'s \<Rightarrow> 's \<Rightarrow> bool"
    and allowed :: "exn \<Rightarrow> bool"
  assumes step_safe: "inv s \<Longrightarrow> sat (\<lambda>_ s'. inv s' \<and> later s s')
      (\<lambda>e s'. allowed e \<and> inv s' \<and> later s s') (step c s)"
    and later_refl: "later s s"
    and later_trans: "later s t \<Longrightarrow> later t u \<Longrightarrow> later s u"
begin

lemma run_safe:
  assumes "inv s"
  shows "sat (\<lambda>rs s'. inv s' \<and> later s s' \<and> length rs = length cs \<and> list_all (expected allowed) rs)
    (\<lambda>_ _. False) (run_calls step cs s)"
  using assms
proof (induction cs arbitrary: s)
  case Nil
  then show ?case by (simp add: later_refl)
next
  case (Cons c cs)
  from step_safe [OF Cons.prems, of c] show ?case
  proof (cases "step c s" rule: res_cases)
    case (1 x t)
    with step_safe [OF Cons.prems, of c] have t: "inv t" "later s t" by simp_all
    show ?thesis
      using Cons.IH [OF t(1)] t(2) 1
      by (auto simp: sat_bindp elim!: sat_mono intro: later_trans)
  next
    case (2 e t)
    with step_safe [OF Cons.prems, of c] have t: "inv t" "later s t" "allowed e" by simp_all
    show ?thesis
      using Cons.IH [OF t(1)] t(2,3) 2
      by (auto simp: sat_bindp elim!: sat_mono intro: later_trans)
  qed simp_all
qed

lemma run_value:
  assumes "inv s"
  shows "\<exists>rs s'. run_calls step cs s = (Val rs, s') \<and> inv s' \<and> later s s' \<and> length rs = length cs"
  using satD [OF run_safe [OF assms, of cs]] by auto

end

end
