(* ===== verification/Status_Item.thy ===== *)
theory Status_Item
  imports Giapi_Prog
begin

section \<open>Status items\<close>

text \<open>
  \<open>KvPair\<close>, \<open>StatusItem\<close>, \<open>AlarmStatusItem\<close> and \<open>HealthStatusItem\<close> of \<open>src/status\<close>. A class is
  a record that extends the record of its base class; a method is a program over the
  record. \<open>item\<close> is what a \<open>pStatusItem\<close> points to, its constructor the dynamic type.
  \<open>gettimeofday\<close> is a parameter of the operations that read the clock.
\<close>

subsection \<open>Key-value pairs\<close>

text \<open>The contents of a \<open>boost::any\<close>: nothing, or a value with its C++ type.\<close>

datatype any =
    AnyEmpty
  | AnyBool bool
  | AnyInt i32
  | AnyDouble f64
  | AnyFloat f32
  | AnyUChar u8
  | AnyUShort u16
  | AnyString string

record kv_pair =
  kv_name :: string
  kv_value :: any

definition new_kv_pair :: "string \<Rightarrow> kv_pair" where
  "new_kv_pair name = \<lparr>kv_name = name, kv_value = AnyEmpty\<rparr>"

definition KvPair_setValueAsInt :: "i32 \<Rightarrow> ('a kv_pair_scheme, int) prog" where
  "KvPair_setValueAsInt v =
     thenp (modifies (\<lambda>p. p\<lparr>kv_value := AnyInt v\<rparr>)) (ret status_OK)"

definition KvPair_setValueAsString :: "string \<Rightarrow> ('a kv_pair_scheme, int) prog" where
  "KvPair_setValueAsString v =
     thenp (modifies (\<lambda>p. p\<lparr>kv_value := AnyString v\<rparr>)) (ret status_OK)"

definition KvPair_setValueAsDouble :: "f64 \<Rightarrow> ('a kv_pair_scheme, int) prog" where
  "KvPair_setValueAsDouble v =
     thenp (modifies (\<lambda>p. p\<lparr>kv_value := AnyDouble v\<rparr>)) (ret status_OK)"

definition KvPair_setValueAsFloat :: "f32 \<Rightarrow> ('a kv_pair_scheme, int) prog" where
  "KvPair_setValueAsFloat v =
     thenp (modifies (\<lambda>p. p\<lparr>kv_value := AnyFloat v\<rparr>)) (ret status_OK)"

text \<open>The getters are \<open>boost::any_cast\<close>s: the wrong type throws.\<close>

definition getValueAsInt :: "('a kv_pair_scheme, i32) prog" where
  "getValueAsInt = bindp (reads kv_value)
     (\<lambda>x. case x of AnyInt v \<Rightarrow> ret v | _ \<Rightarrow> throw BadAnyCast)"

definition getValueAsString :: "('a kv_pair_scheme, string) prog" where
  "getValueAsString = bindp (reads kv_value)
     (\<lambda>x. case x of AnyString v \<Rightarrow> ret v | _ \<Rightarrow> throw BadAnyCast)"

definition getValueAsDouble :: "('a kv_pair_scheme, f64) prog" where
  "getValueAsDouble = bindp (reads kv_value)
     (\<lambda>x. case x of AnyDouble v \<Rightarrow> ret v | _ \<Rightarrow> throw BadAnyCast)"

definition getValueAsFloat :: "('a kv_pair_scheme, f32) prog" where
  "getValueAsFloat = bindp (reads kv_value)
     (\<lambda>x. case x of AnyFloat v \<Rightarrow> ret v | _ \<Rightarrow> throw BadAnyCast)"

definition getName :: "'a kv_pair_scheme \<Rightarrow> string" where
  "getName p = kv_name p"

text \<open>
  The stream output used in log messages; how a stream prints numbers is a parameter. Only
  the four settable types and the empty value print something between the brackets.
\<close>

definition kv_show ::
  "(i32 \<Rightarrow> string) \<Rightarrow> (f64 \<Rightarrow> string) \<Rightarrow> (f32 \<Rightarrow> string) \<Rightarrow> 'a kv_pair_scheme \<Rightarrow> string" where
  "kv_show show_i show_d show_f p = ''[name = '' @ getName p @ '', value = '' @
     (case kv_value p of
        AnyInt v \<Rightarrow> show_i v
      | AnyString v \<Rightarrow> v
      | AnyDouble v \<Rightarrow> show_d v
      | AnyFloat v \<Rightarrow> show_f v
      | AnyEmpty \<Rightarrow> ''void''
      | _ \<Rightarrow> []) @ '']''"

subsection \<open>Status items\<close>

text \<open>The timestamp is \<open>None\<close> until the clock has been read once.\<close>

record status_item = kv_pair +
  changed :: bool
  stamp :: "int option"
  stype :: item_type

definition mark :: "timeval option \<Rightarrow> ('a status_item_scheme, unit) prog" where
  "mark now = modifies (\<lambda>it. case now of
      Some tv \<Rightarrow> it\<lparr>changed := True, stamp := Some (tv_millis tv)\<rparr>
    | None \<Rightarrow> it\<lparr>changed := True\<rparr>)"

fun initial_value :: "item_type \<Rightarrow> any" where
  "initial_value T_BOOLEAN = AnyBool False"
| "initial_value T_DOUBLE = AnyDouble 0"
| "initial_value T_FLOAT = AnyFloat 0"
| "initial_value T_INT = AnyInt 0"
| "initial_value T_BYTE = AnyUChar 0"
| "initial_value T_SHORT = AnyUShort 0"
| "initial_value T_STRING = AnyString '' ''"

definition new_status_item :: "timeval option \<Rightarrow> string \<Rightarrow> item_type \<Rightarrow> status_item" where
  "new_status_item now name ty =
     (let it = \<lparr>kv_name = name, kv_value = AnyEmpty, changed = False, stamp = None, stype = ty\<rparr>;
          it = snd (mark now it)
      in it\<lparr>stype := ty, kv_value := initial_value ty\<rparr>)"

definition setValueAsInt :: "timeval option \<Rightarrow> i32 \<Rightarrow> ('a status_item_scheme, int) prog" where
  "setValueAsInt now v = bindp (reads stype) (\<lambda>ty.
     if ty \<noteq> T_INT then ret status_ERROR else
     bindp (reads (\<lambda>it. kv_value it = AnyEmpty)) (\<lambda>emp.
     bindp (if emp then ret False else bindp getValueAsInt (\<lambda>old. ret (v = old))) (\<lambda>same.
     if same then ret status_OK
     else thenp (mark now) (KvPair_setValueAsInt v))))"

definition setValueAsString :: "timeval option \<Rightarrow> string \<Rightarrow> ('a status_item_scheme, int) prog" where
  "setValueAsString now v = bindp (reads stype) (\<lambda>ty.
     if ty \<noteq> T_STRING then ret status_ERROR else
     bindp (reads (\<lambda>it. kv_value it = AnyEmpty)) (\<lambda>emp.
     bindp (if emp then ret False else bindp getValueAsString (\<lambda>old. ret (v = old))) (\<lambda>same.
     if same then ret status_OK
     else thenp (mark now) (KvPair_setValueAsString v))))"

definition setValueAsDouble :: "timeval option \<Rightarrow> f64 \<Rightarrow> ('a status_item_scheme, int) prog" where
  "setValueAsDouble now v = bindp (reads stype) (\<lambda>ty.
     if ty \<noteq> T_DOUBLE then ret status_ERROR else
     bindp (reads (\<lambda>it. kv_value it = AnyEmpty)) (\<lambda>emp.
     bindp (if emp then ret False else bindp getValueAsDouble (\<lambda>old. ret (f64_eq v old))) (\<lambda>same.
     if same then ret status_OK
     else thenp (mark now) (KvPair_setValueAsDouble v))))"

definition setValueAsFloat :: "timeval option \<Rightarrow> f32 \<Rightarrow> ('a status_item_scheme, int) prog" where
  "setValueAsFloat now v = bindp (reads stype) (\<lambda>ty.
     if ty \<noteq> T_FLOAT then ret status_ERROR else
     bindp (reads (\<lambda>it. kv_value it = AnyEmpty)) (\<lambda>emp.
     bindp (if emp then ret False else bindp getValueAsFloat (\<lambda>old. ret (f32_eq v old))) (\<lambda>same.
     if same then ret status_OK
     else thenp (mark now) (KvPair_setValueAsFloat v))))"

definition isChanged :: "'a status_item_scheme \<Rightarrow> bool" where
  "isChanged it = changed it"

definition clearChanged :: "'a status_item_scheme \<Rightarrow> 'a status_item_scheme" where
  "clearChanged it = it\<lparr>changed := False\<rparr>"

definition getStatusType :: "'a status_item_scheme \<Rightarrow> item_type" where
  "getStatusType it = stype it"

definition getTimestamp :: "'a status_item_scheme \<Rightarrow> int option" where
  "getTimestamp it = stamp it"

subsection \<open>Alarm items\<close>

record alarm_item = status_item +
  al_message :: string
  al_severity :: alarm_severity
  al_cause :: alarm_cause
  al_initialized :: bool

definition new_alarm_item :: "timeval option \<Rightarrow> string \<Rightarrow> item_type \<Rightarrow> alarm_item" where
  "new_alarm_item now name ty =
     (let b = new_status_item now name ty in
      \<lparr>kv_name = kv_name b, kv_value = kv_value b,
       changed = changed b, stamp = stamp b, stype = stype b,
       al_message = [], al_severity = ALARM_OK, al_cause = ALARM_CAUSE_OK,
       al_initialized = False\<rparr>)"

definition setAlarmState ::
  "timeval option \<Rightarrow> alarm_severity \<Rightarrow> alarm_cause \<Rightarrow> string \<Rightarrow> (alarm_item, int) prog" where
  "setAlarmState now severity cause message =
     (if message = [] \<and> cause = ALARM_CAUSE_OTHER then ret status_ERROR else
      bindp (reads (\<lambda>a. al_initialized a \<and>
          severity = al_severity a \<and> cause = al_cause a \<and> message = al_message a)) (\<lambda>same.
      if same then ret status_OK else
      thenp (modifies (\<lambda>a. if al_initialized a then a else a\<lparr>al_initialized := True\<rparr>))
      (thenp (modifies (\<lambda>a. a\<lparr>al_severity := severity\<rparr>))
      (thenp (modifies (\<lambda>a. if al_severity a = ALARM_OK
           then a\<lparr>al_cause := ALARM_CAUSE_OK, al_message := []\<rparr>
           else a\<lparr>al_cause := cause, al_message := message\<rparr>))
      (thenp (mark now) (ret status_OK))))))"

definition clearAlarmState :: "timeval option \<Rightarrow> (alarm_item, unit) prog" where
  "clearAlarmState now =
     bindp (setAlarmState now ALARM_OK ALARM_CAUSE_OK []) (\<lambda>r.
     if r = status_ERROR
     then throw (gexn InvalidOperation
       ''AlarmStatusItem::clearAlarmState - Couldn't clear alarm item'')
     else ret ())"

definition getAlarmMessage :: "alarm_item \<Rightarrow> string" where
  "getAlarmMessage a = al_message a"

definition getSeverity :: "alarm_item \<Rightarrow> alarm_severity" where
  "getSeverity a = al_severity a"

definition getCause :: "alarm_item \<Rightarrow> alarm_cause" where
  "getCause a = al_cause a"

subsection \<open>Health items\<close>

text \<open>A health item adds no data: it is an integer item whose value is set from a health.\<close>

type_synonym health_item = status_item

definition new_health_item :: "timeval option \<Rightarrow> string \<Rightarrow> health_item" where
  "new_health_item now name = new_status_item now name T_INT"

definition setHealth :: "timeval option \<Rightarrow> health \<Rightarrow> (health_item, int) prog" where
  "setHealth now h = setValueAsInt now (health_int h)"

subsection \<open>The type invariant\<close>

text \<open>The type of a stored value; an item is well formed when it is the item's declared type.\<close>

fun any_type :: "any \<Rightarrow> item_type option" where
  "any_type AnyEmpty = None"
| "any_type (AnyBool b) = Some T_BOOLEAN"
| "any_type (AnyInt v) = Some T_INT"
| "any_type (AnyDouble v) = Some T_DOUBLE"
| "any_type (AnyFloat v) = Some T_FLOAT"
| "any_type (AnyUChar v) = Some T_BYTE"
| "any_type (AnyUShort v) = Some T_SHORT"
| "any_type (AnyString v) = Some T_STRING"

definition wf_item :: "'a status_item_scheme \<Rightarrow> bool" where
  "wf_item it \<longleftrightarrow> any_type (kv_value it) = Some (stype it)"

lemma any_type_initial [simp]: "any_type (initial_value ty) = Some ty"
  by (cases ty) simp_all

lemma any_typeD:
  "any_type x = Some T_INT \<Longrightarrow> \<exists>v. x = AnyInt v"
  "any_type x = Some T_STRING \<Longrightarrow> \<exists>s. x = AnyString s"
  "any_type x = Some T_DOUBLE \<Longrightarrow> \<exists>d. x = AnyDouble d"
  "any_type x = Some T_FLOAT \<Longrightarrow> \<exists>f. x = AnyFloat f"
  by (cases x; simp)+

text \<open>The timestamp after reading the clock once.\<close>

definition new_stamp :: "timeval option \<Rightarrow> int option \<Rightarrow> int option" where
  "new_stamp now old = (case now of None \<Rightarrow> old | Some tv \<Rightarrow> Some (tv_millis tv))"

lemma new_stamp_simps [simp]:
  "new_stamp None old = old"
  "new_stamp (Some tv) old = Some (tv_millis tv)"
  by (simp_all add: new_stamp_def)

lemma mark_run [item_simps]:
  "mark now it = (Val (), it\<lparr>changed := True,
     stamp := new_stamp now (stamp it)\<rparr>)"
  by (cases now) (simp_all add: mark_def)

lemma new_status_item_fields [simp]:
  "kv_name (new_status_item now name ty) = name"
  "kv_value (new_status_item now name ty) = initial_value ty"
  "changed (new_status_item now name ty)"
  "stype (new_status_item now name ty) = ty"
  "stamp (new_status_item now name ty) = map_option tv_millis now"
  by (cases now; simp add: new_status_item_def Let_def mark_run)+

lemma new_alarm_item_fields [simp]:
  "kv_name (new_alarm_item now name ty) = name"
  "kv_value (new_alarm_item now name ty) = initial_value ty"
  "changed (new_alarm_item now name ty)"
  "stype (new_alarm_item now name ty) = ty"
  "al_message (new_alarm_item now name ty) = []"
  "al_severity (new_alarm_item now name ty) = ALARM_OK"
  "al_cause (new_alarm_item now name ty) = ALARM_CAUSE_OK"
  "\<not> al_initialized (new_alarm_item now name ty)"
  by (simp_all add: new_alarm_item_def Let_def)

lemma wf_new [inv_intros]:
  "wf_item (new_status_item now name ty)"
  "wf_item (new_alarm_item now name ty)"
  "wf_item (new_health_item now name)"
  by (simp_all add: wf_item_def new_health_item_def)

subsection \<open>One setter for the four types\<close>

text \<open>
  A caller chooses the type with the function it calls; \<open>item_value\<close> names the choice, so
  that a fact about the four setters is stated once.
\<close>

datatype item_value = VInt i32 | VString string | VDouble f64 | VFloat f32

fun value_type :: "item_value \<Rightarrow> item_type" where
  "value_type (VInt v) = T_INT"
| "value_type (VString v) = T_STRING"
| "value_type (VDouble v) = T_DOUBLE"
| "value_type (VFloat v) = T_FLOAT"

fun value_any :: "item_value \<Rightarrow> any" where
  "value_any (VInt v) = AnyInt v"
| "value_any (VString v) = AnyString v"
| "value_any (VDouble v) = AnyDouble v"
| "value_any (VFloat v) = AnyFloat v"

text \<open>When a new value counts as equal to the stored one.\<close>

fun value_same :: "item_value \<Rightarrow> any \<Rightarrow> bool" where
  "value_same (VInt v) (AnyInt w) = (v = w)"
| "value_same (VString v) (AnyString w) = (v = w)"
| "value_same (VDouble v) (AnyDouble w) = f64_eq v w"
| "value_same (VFloat v) (AnyFloat w) = f32_eq v w"
| "value_same _ _ = False"

fun set_value :: "timeval option \<Rightarrow> item_value \<Rightarrow> ('a status_item_scheme, int) prog" where
  "set_value now (VInt v) = setValueAsInt now v"
| "set_value now (VString v) = setValueAsString now v"
| "set_value now (VDouble v) = setValueAsDouble now v"
| "set_value now (VFloat v) = setValueAsFloat now v"

text \<open>What a setter stores when it does store.\<close>

definition stored :: "timeval option \<Rightarrow> item_value \<Rightarrow> 'a status_item_scheme \<Rightarrow> 'a status_item_scheme" where
  "stored now w it = it\<lparr>kv_value := value_any w, changed := True,
     stamp := new_stamp now (stamp it)\<rparr>"

lemma any_type_value [simp]: "any_type (value_any w) = Some (value_type w)"
  by (cases w) simp_all

lemma set_value_run:
  assumes "wf_item it"
  shows "set_value now w it =
     (if value_type w \<noteq> stype it then (Val status_ERROR, it)
      else if value_same w (kv_value it) then (Val status_OK, it)
      else (Val status_OK, stored now w it))"
proof (cases w)
  case (VInt v)
  with assms show ?thesis
    by (auto simp: wf_item_def setValueAsInt_def getValueAsInt_def KvPair_setValueAsInt_def stored_def
        bindp_def thenp_def mark_run dest!: any_typeD)
next
  case (VString v)
  with assms show ?thesis
    by (auto simp: wf_item_def setValueAsString_def getValueAsString_def KvPair_setValueAsString_def
        stored_def bindp_def thenp_def mark_run dest!: any_typeD)
next
  case (VDouble v)
  with assms show ?thesis
    by (auto simp: wf_item_def setValueAsDouble_def getValueAsDouble_def KvPair_setValueAsDouble_def
        stored_def bindp_def thenp_def mark_run dest!: any_typeD)
next
  case (VFloat v)
  with assms show ?thesis
    by (auto simp: wf_item_def setValueAsFloat_def getValueAsFloat_def KvPair_setValueAsFloat_def
        stored_def bindp_def thenp_def mark_run dest!: any_typeD)
qed

lemma wf_stored [inv_intros]: "wf_item it \<Longrightarrow> value_type w = stype it \<Longrightarrow> wf_item (stored now w it)"
  by (simp add: wf_item_def stored_def)

lemma stored_fields [simp]:
  "kv_name (stored now w it) = kv_name it"
  "kv_value (stored now w it) = value_any w"
  "changed (stored now w it)"
  "stype (stored now w it) = stype it"
  by (simp_all add: stored_def)

lemma set_value_wf:
  assumes "wf_item it"
  shows "sat (\<lambda>r it'. wf_item it' \<and> kv_name it' = kv_name it \<and> stype it' = stype it)
    (\<lambda>_ _. False) (set_value now w it)"
  using assms by (auto simp: set_value_run inv_intros)

subsection \<open>Alarms\<close>

text \<open>
  What an alarm says: nothing more than its severity when that is \<open>ALARM_OK\<close>. The invariant
  of an alarm item is that its fields are such a triple.
\<close>

fun alarm_norm :: "alarm_severity \<Rightarrow> alarm_cause \<Rightarrow> string \<Rightarrow> alarm_severity \<times> alarm_cause \<times> string" where
  "alarm_norm ALARM_OK c m = (ALARM_OK, ALARM_CAUSE_OK, [])"
| "alarm_norm s c m = (s, c, m)"

definition alarm_triple :: "alarm_item \<Rightarrow> alarm_severity \<times> alarm_cause \<times> string" where
  "alarm_triple a = (al_severity a, al_cause a, al_message a)"

definition wf_alarm :: "alarm_item \<Rightarrow> bool" where
  "wf_alarm a \<longleftrightarrow> wf_item a \<and> (al_severity a = ALARM_OK \<longrightarrow> al_cause a = ALARM_CAUSE_OK \<and> al_message a = [])
     \<and> (al_cause a = ALARM_CAUSE_OTHER \<longrightarrow> al_message a \<noteq> [])"

lemma wf_alarm_wf_item: "wf_alarm a \<Longrightarrow> wf_item a"
  by (simp add: wf_alarm_def)

lemma wf_alarm_new [inv_intros]: "wf_alarm (new_alarm_item now name ty)"
  by (simp add: wf_alarm_def wf_new)

lemma setAlarmState_error:
  "setAlarmState now s ALARM_CAUSE_OTHER [] a = (Val status_ERROR, a)"
  by (simp add: setAlarmState_def)

lemma setAlarmState_run:
  assumes "c = ALARM_CAUSE_OTHER \<longrightarrow> m \<noteq> []"
  shows "setAlarmState now s c m a =
     (if al_initialized a \<and> alarm_triple a = (s, c, m) then (Val status_OK, a)
      else (Val status_OK, a\<lparr>changed := True,
        stamp := new_stamp now (stamp a),
        al_initialized := True, al_severity := s,
        al_cause := fst (snd (alarm_norm s c m)), al_message := snd (snd (alarm_norm s c m))\<rparr>))"
proof -
  define same where "same = (al_initialized a \<and> s = al_severity a \<and> c = al_cause a \<and> m = al_message a)"
  have same_iff: "al_initialized a \<and> alarm_triple a = (s, c, m) \<longleftrightarrow> same"
    by (auto simp: same_def alarm_triple_def)
  have guard: "\<not> (m = [] \<and> c = ALARM_CAUSE_OTHER)"
    using assms by blast
  have init: "(if al_initialized a then a else a\<lparr>al_initialized := True\<rparr>) = a\<lparr>al_initialized := True\<rparr>"
    by (cases a) simp
  show ?thesis
    unfolding same_iff
    by (simp only: setAlarmState_def guard if_False bindp_reads same_def [symmetric])
      (cases s; simp add: init thenp_def bindp_def mark_run)
qed

lemma setAlarmState_wf:
  assumes "wf_alarm a"
  shows "sat (\<lambda>r a'. wf_alarm a' \<and> kv_name a' = kv_name a \<and> stype a' = stype a)
    (\<lambda>_ _. False) (setAlarmState now s c m a)"
proof (cases "c = ALARM_CAUSE_OTHER \<and> m = []")
  case True
  with assms show ?thesis by (simp add: setAlarmState_error)
next
  case False
  then show ?thesis
    using assms by (cases s) (auto simp: setAlarmState_run wf_alarm_def wf_item_def)
qed

lemma clearAlarmState_run:
  "clearAlarmState now a =
     (if al_initialized a \<and> alarm_triple a = (ALARM_OK, ALARM_CAUSE_OK, []) then (Val (), a)
      else (Val (), a\<lparr>changed := True,
        stamp := new_stamp now (stamp a),
        al_initialized := True, al_severity := ALARM_OK, al_cause := ALARM_CAUSE_OK, al_message := []\<rparr>))"
  by (simp add: clearAlarmState_def bindp_def setAlarmState_run)

subsection \<open>Objects of any dynamic type\<close>

datatype item = BasicItem status_item | AlarmItem alarm_item | HealthItem health_item

text \<open>The part every item has.\<close>

fun item_base :: "item \<Rightarrow> status_item" where
  "item_base (BasicItem it) = it"
| "item_base (AlarmItem a) = status_item.truncate a"
| "item_base (HealthItem it) = it"

definition item_name :: "item \<Rightarrow> string" where
  "item_name i = kv_name (item_base i)"

definition item_dirty :: "item \<Rightarrow> bool" where
  "item_dirty i = isChanged (item_base i)"

text \<open>The virtual setters and the flag, on the object a pointer leads to.\<close>

fun item_set :: "timeval option \<Rightarrow> item_value \<Rightarrow> (item, int) prog" where
  "item_set now w (BasicItem it) = (case set_value now w it of (r, it') \<Rightarrow> (r, BasicItem it'))"
| "item_set now w (AlarmItem a) = (case set_value now w a of (r, a') \<Rightarrow> (r, AlarmItem a'))"
| "item_set now w (HealthItem it) = (case set_value now w it of (r, it') \<Rightarrow> (r, HealthItem it'))"

fun item_clean :: "item \<Rightarrow> item" where
  "item_clean (BasicItem it) = BasicItem (clearChanged it)"
| "item_clean (AlarmItem a) = AlarmItem (clearChanged a)"
| "item_clean (HealthItem it) = HealthItem (clearChanged it)"

text \<open>
  The invariant of an object of any type. A health item holds an integer, but not always one
  of the three health values: the public setter for integers reaches it too.
\<close>

fun wf_obj :: "item \<Rightarrow> bool" where
  "wf_obj (BasicItem it) = wf_item it"
| "wf_obj (AlarmItem a) = wf_alarm a"
| "wf_obj (HealthItem it) = (wf_item it \<and> stype it = T_INT)"

lemma truncate_fields [simp]:
  "kv_name (status_item.truncate a) = kv_name a"
  "kv_value (status_item.truncate a) = kv_value a"
  "changed (status_item.truncate a) = changed a"
  "stamp (status_item.truncate a) = stamp a"
  "stype (status_item.truncate a) = stype a"
  by (simp_all add: status_item.truncate_def)

lemma item_clean_facts [simp]:
  "item_name (item_clean i) = item_name i"
  "\<not> item_dirty (item_clean i)"
  "wf_obj (item_clean i) = wf_obj i"
  "kv_value (item_base (item_clean i)) = kv_value (item_base i)"
  "stype (item_base (item_clean i)) = stype (item_base i)"
  by (cases i; simp add: item_name_def item_dirty_def isChanged_def clearChanged_def
      wf_item_def wf_alarm_def)+

lemma wf_obj_base: "wf_obj i \<Longrightarrow> wf_item (item_base i)"
  by (cases i) (simp_all add: wf_item_def wf_alarm_def)

lemma wf_alarm_stored: "wf_alarm a \<Longrightarrow> value_type w = stype a \<Longrightarrow> wf_alarm (stored now w a)"
  by (auto simp: wf_alarm_def wf_stored) (auto simp: stored_def)

lemma item_set_sat:
  assumes "wf_obj i"
  shows "sat (\<lambda>r i'. wf_obj i' \<and> item_name i' = item_name i \<and>
      (r = status_OK \<longleftrightarrow> value_type w = stype (item_base i)) \<and>
      (r \<noteq> status_OK \<longrightarrow> r = status_ERROR \<and> i' = i)) (\<lambda>_ _. False) (item_set now w i)"
  using assms
  by (cases i) (auto simp: set_value_run wf_alarm_wf_item wf_stored wf_alarm_stored item_name_def)

end
