(* ===== verification/Status_Database.thy ===== *)
theory Status_Database
  imports Status_Item
begin

section \<open>The status database\<close>

text \<open>
  \<open>StatusDatabase\<close> of \<open>src/status\<close> and the part of \<open>StatusUtil\<close> that forwards to it. Items are
  heap objects: the map and the vector both hold pointers to them, so a value set through
  the map is what a post of the vector sends. A pointer is an index into the list of objects
  ever created; the map may hold null pointers, because the code looks names up with
  \<open>operator[]\<close>, which inserts one for an unknown name.
\<close>

record database =
  objs :: "item list"
  smap :: "string \<rightharpoonup> nat option"
  slist :: "nat list"

definition new_database :: database where
  "new_database = \<lparr>objs = [], smap = Map.empty, slist = []\<rparr>"

text \<open>A method call through a pointer.\<close>

definition at_obj :: "nat \<Rightarrow> (item, 'a) prog \<Rightarrow> (database, 'a) prog" where
  "at_obj a m = (\<lambda>db. if a < length (objs db)
     then (case m (objs db ! a) of (r, i) \<Rightarrow> (r, db\<lparr>objs := (objs db)[a := i]\<rparr>))
     else (Undef, db))"

definition getStatusItem :: "string \<Rightarrow> (database, nat option) prog" where
  "getStatusItem name =
     (if name = [] then ret None else
      bindp (reads (\<lambda>db. smap db name)) (\<lambda>entry. case entry of
        Some p \<Rightarrow> ret p
      | None \<Rightarrow> thenp (modifies (\<lambda>db. db\<lparr>smap := (smap db)(name \<mapsto> None)\<rparr>)) (ret None)))"

text \<open>Allocating an object, entering it in the map and appending it to the vector.\<close>

definition add_item :: "string \<Rightarrow> item \<Rightarrow> (database, int) prog" where
  "add_item name i = bindp (reads (\<lambda>db. length (objs db))) (\<lambda>a.
     thenp (modifies (\<lambda>db. db\<lparr>objs := objs db @ [i]\<rparr>))
    (thenp (modifies (\<lambda>db. db\<lparr>smap := (smap db)(name \<mapsto> Some a)\<rparr>))
    (thenp (modifies (\<lambda>db. db\<lparr>slist := slist db @ [a]\<rparr>)) (ret status_OK))))"

definition createStatusItem ::
  "timeval option \<Rightarrow> string \<Rightarrow> item_type \<Rightarrow> (database, int) prog" where
  "createStatusItem now name ty = bindp (getStatusItem name) (\<lambda>p.
     if p \<noteq> None then ret status_ERROR
     else add_item name (BasicItem (new_status_item now name ty)))"

definition createAlarmStatusItem ::
  "timeval option \<Rightarrow> string \<Rightarrow> item_type \<Rightarrow> (database, int) prog" where
  "createAlarmStatusItem now name ty = bindp (getStatusItem name) (\<lambda>p.
     if p \<noteq> None then ret status_ERROR
     else add_item name (AlarmItem (new_alarm_item now name ty)))"

definition createHealthStatusItem :: "timeval option \<Rightarrow> string \<Rightarrow> (database, int) prog" where
  "createHealthStatusItem now name = bindp (getStatusItem name) (\<lambda>p.
     if p \<noteq> None then ret status_ERROR
     else add_item name (HealthItem (new_health_item now name)))"

text \<open>\<open>dynamic_cast\<close> to the class that has the method; a null result is an error.\<close>

fun item_setHealth :: "timeval option \<Rightarrow> health \<Rightarrow> (item, int) prog" where
  "item_setHealth now h (HealthItem it) = (case setHealth now h it of (r, it') \<Rightarrow> (r, HealthItem it'))"
| "item_setHealth now h i = (Val status_ERROR, i)"

fun item_setAlarm ::
  "timeval option \<Rightarrow> alarm_severity \<Rightarrow> alarm_cause \<Rightarrow> string \<Rightarrow> (item, int) prog" where
  "item_setAlarm now s c m (AlarmItem a) = (case setAlarmState now s c m a of (r, a') \<Rightarrow> (r, AlarmItem a'))"
| "item_setAlarm now s c m i = (Val status_ERROR, i)"

fun item_clearAlarm :: "timeval option \<Rightarrow> (item, int) prog" where
  "item_clearAlarm now (AlarmItem a) =
     (case thenp (clearAlarmState now) (ret status_OK) a of (r, a') \<Rightarrow> (r, AlarmItem a'))"
| "item_clearAlarm now i = (Val status_ERROR, i)"

definition setStatusHealth :: "timeval option \<Rightarrow> string \<Rightarrow> health \<Rightarrow> (database, int) prog" where
  "setStatusHealth now name h = bindp (getStatusItem name) (\<lambda>p. case p of
     None \<Rightarrow> ret status_ERROR | Some a \<Rightarrow> at_obj a (item_setHealth now h))"

definition setStatusValueAsInt :: "timeval option \<Rightarrow> string \<Rightarrow> i32 \<Rightarrow> (database, int) prog" where
  "setStatusValueAsInt now name v = bindp (getStatusItem name) (\<lambda>p. case p of
     None \<Rightarrow> ret status_ERROR | Some a \<Rightarrow> at_obj a (item_set now (VInt v)))"

definition setStatusValueAsString :: "timeval option \<Rightarrow> string \<Rightarrow> string \<Rightarrow> (database, int) prog" where
  "setStatusValueAsString now name v = bindp (getStatusItem name) (\<lambda>p. case p of
     None \<Rightarrow> ret status_ERROR | Some a \<Rightarrow> at_obj a (item_set now (VString v)))"

definition setStatusValueAsDouble :: "timeval option \<Rightarrow> string \<Rightarrow> f64 \<Rightarrow> (database, int) prog" where
  "setStatusValueAsDouble now name v = bindp (getStatusItem name) (\<lambda>p. case p of
     None \<Rightarrow> ret status_ERROR | Some a \<Rightarrow> at_obj a (item_set now (VDouble v)))"

definition setStatusValueAsFloat :: "timeval option \<Rightarrow> string \<Rightarrow> f32 \<Rightarrow> (database, int) prog" where
  "setStatusValueAsFloat now name v = bindp (getStatusItem name) (\<lambda>p. case p of
     None \<Rightarrow> ret status_ERROR | Some a \<Rightarrow> at_obj a (item_set now (VFloat v)))"

definition setStatusAlarm ::
  "timeval option \<Rightarrow> string \<Rightarrow> alarm_severity \<Rightarrow> alarm_cause \<Rightarrow> string \<Rightarrow> (database, int) prog" where
  "setStatusAlarm now name s c m = bindp (getStatusItem name) (\<lambda>p. case p of
     None \<Rightarrow> ret status_ERROR | Some a \<Rightarrow> at_obj a (item_setAlarm now s c m))"

definition clearStatusAlarm :: "timeval option \<Rightarrow> string \<Rightarrow> (database, int) prog" where
  "clearStatusAlarm now name = bindp (getStatusItem name) (\<lambda>p. case p of
     None \<Rightarrow> ret status_ERROR | Some a \<Rightarrow> at_obj a (item_clearAlarm now))"

definition getStatusItems :: "(database, nat list) prog" where
  "getStatusItems = reads slist"

subsection \<open>The calls of StatusUtil\<close>

text \<open>
  The public functions of \<open>StatusUtil\<close> that work on the database, one constructor each, and
  what each forwards to. The two \<open>postStatus\<close> functions are in the theory of the senders.
\<close>

datatype status_call =
    CreateStatusItem string item_type
  | CreateAlarmStatusItem string item_type
  | CreateHealthStatusItem string
  | SetValueAsInt string i32
  | SetValueAsString string string
  | SetValueAsDouble string f64
  | SetValueAsFloat string f32
  | SetAlarm string alarm_severity alarm_cause string
  | ClearAlarm string
  | SetHealth string health

fun status_util :: "timeval option \<Rightarrow> status_call \<Rightarrow> (database, int) prog" where
  "status_util now (CreateStatusItem n ty) = createStatusItem now n ty"
| "status_util now (CreateAlarmStatusItem n ty) = createAlarmStatusItem now n ty"
| "status_util now (CreateHealthStatusItem n) = createHealthStatusItem now n"
| "status_util now (SetValueAsInt n v) = setStatusValueAsInt now n v"
| "status_util now (SetValueAsString n v) = setStatusValueAsString now n v"
| "status_util now (SetValueAsDouble n v) = setStatusValueAsDouble now n v"
| "status_util now (SetValueAsFloat n v) = setStatusValueAsFloat now n v"
| "status_util now (SetAlarm n s c m) = setStatusAlarm now n s c m"
| "status_util now (ClearAlarm n) = clearStatusAlarm now n"
| "status_util now (SetHealth n h) = setStatusHealth now n h"

subsection \<open>Two shapes of calls\<close>

text \<open>
  Every call creates an object under a name or updates the object of a name. The lemmas
  below are about the two shapes.
\<close>

fun call_name :: "status_call \<Rightarrow> string" where
  "call_name (CreateStatusItem n ty) = n"
| "call_name (CreateAlarmStatusItem n ty) = n"
| "call_name (CreateHealthStatusItem n) = n"
| "call_name (SetValueAsInt n v) = n"
| "call_name (SetValueAsString n v) = n"
| "call_name (SetValueAsDouble n v) = n"
| "call_name (SetValueAsFloat n v) = n"
| "call_name (SetAlarm n s c m) = n"
| "call_name (ClearAlarm n) = n"
| "call_name (SetHealth n h) = n"

fun created :: "timeval option \<Rightarrow> status_call \<Rightarrow> item option" where
  "created now (CreateStatusItem n ty) = Some (BasicItem (new_status_item now n ty))"
| "created now (CreateAlarmStatusItem n ty) = Some (AlarmItem (new_alarm_item now n ty))"
| "created now (CreateHealthStatusItem n) = Some (HealthItem (new_health_item now n))"
| "created now _ = None"

fun updater :: "timeval option \<Rightarrow> status_call \<Rightarrow> (item, int) prog" where
  "updater now (SetValueAsInt n v) = item_set now (VInt v)"
| "updater now (SetValueAsString n v) = item_set now (VString v)"
| "updater now (SetValueAsDouble n v) = item_set now (VDouble v)"
| "updater now (SetValueAsFloat n v) = item_set now (VFloat v)"
| "updater now (SetAlarm n s c m) = item_setAlarm now s c m"
| "updater now (ClearAlarm n) = item_clearAlarm now"
| "updater now (SetHealth n h) = item_setHealth now h"
| "updater now _ = ret status_ERROR"

definition create_named :: "string \<Rightarrow> item \<Rightarrow> (database, int) prog" where
  "create_named n i = bindp (getStatusItem n) (\<lambda>p.
     if p \<noteq> None then ret status_ERROR else add_item n i)"

definition update_named :: "string \<Rightarrow> (item, int) prog \<Rightarrow> (database, int) prog" where
  "update_named n u = bindp (getStatusItem n) (\<lambda>p. case p of
     None \<Rightarrow> ret status_ERROR | Some a \<Rightarrow> at_obj a u)"

lemmas status_call_defs =
  createStatusItem_def createAlarmStatusItem_def createHealthStatusItem_def
  setStatusValueAsInt_def setStatusValueAsString_def setStatusValueAsDouble_def
  setStatusValueAsFloat_def setStatusAlarm_def clearStatusAlarm_def setStatusHealth_def

lemma status_util_shape:
  "status_util now c = (case created now c of
     Some i \<Rightarrow> create_named (call_name c) i
   | None \<Rightarrow> update_named (call_name c) (updater now c))"
  by (cases c) (simp_all add: status_call_defs create_named_def update_named_def)

lemma created_new:
  "created now c = Some i \<Longrightarrow> wf_obj i \<and> item_name i = call_name c"
  by (cases c) (auto simp: inv_intros item_name_def new_health_item_def)

lemma item_setHealth_wf:
  "wf_obj i \<Longrightarrow> sat (\<lambda>r i'. wf_obj i' \<and> item_name i' = item_name i) (\<lambda>_ _. False) (item_setHealth now h i)"
proof (cases i)
  case (HealthItem it)
  assume "wf_obj i"
  with HealthItem have wf: "wf_item it" "stype it = T_INT" by simp_all
  have "setHealth now h it = (if value_same (VInt (health_int h)) (kv_value it) then (Val status_OK, it)
      else (Val status_OK, stored now (VInt (health_int h)) it))"
    using set_value_run [OF wf(1), of now "VInt (health_int h)"] wf(2) by (simp add: setHealth_def)
  with HealthItem wf show ?thesis
    by (simp add: wf_stored item_name_def)
qed simp_all

lemma item_setAlarm_wf:
  "wf_obj i \<Longrightarrow> sat (\<lambda>r i'. wf_obj i' \<and> item_name i' = item_name i) (\<lambda>_ _. False) (item_setAlarm now s c m i)"
proof (cases i)
  case (AlarmItem a)
  assume "wf_obj i"
  with AlarmItem have "wf_alarm a" by simp
  from satD [OF setAlarmState_wf [OF this, of now s c m]] AlarmItem show ?thesis
    by (auto simp: item_name_def)
qed simp_all

lemma item_clearAlarm_wf:
  "wf_obj i \<Longrightarrow> sat (\<lambda>r i'. wf_obj i' \<and> item_name i' = item_name i) (\<lambda>_ _. False) (item_clearAlarm now i)"
  by (cases i) (auto simp: thenp_def bindp_def clearAlarmState_run item_name_def wf_alarm_def wf_item_def)

lemma updater_wf:
  "wf_obj i \<Longrightarrow> sat (\<lambda>r i'. wf_obj i' \<and> item_name i' = item_name i) (\<lambda>_ _. False) (updater now c i)"
  by (cases c) (simp_all add: item_setHealth_wf item_setAlarm_wf item_clearAlarm_wf
      sat_mono [OF item_set_sat])

subsection \<open>The invariant\<close>

text \<open>
  The vector lists every object once, in the order of creation; every object is well formed;
  a name in the map leads to an object of this name; an object with a name is found under
  it. The last part is what the empty name escapes: \<open>getStatusItem\<close> never finds it.
\<close>

definition db_inv :: "database \<Rightarrow> bool" where
  "db_inv db \<longleftrightarrow> slist db = [0..<length (objs db)] \<and>
     (\<forall>i \<in> set (objs db). wf_obj i) \<and>
     (\<forall>n a. smap db n = Some (Some a) \<longrightarrow> a < length (objs db) \<and> item_name (objs db ! a) = n) \<and>
     (\<forall>a < length (objs db). item_name (objs db ! a) \<noteq> [] \<longrightarrow>
        smap db (item_name (objs db ! a)) = Some (Some a))"

lemma db_inv_new [inv_intros]: "db_inv new_database"
  by (simp add: db_inv_def new_database_def)

text \<open>What a name denotes: the abstraction of the database to a map of items.\<close>

definition db_view :: "database \<Rightarrow> string \<Rightarrow> item option" where
  "db_view db n = (if n = [] then None else
     (case smap db n of Some (Some a) \<Rightarrow> Some (objs db ! a) | _ \<Rightarrow> None))"

definition same_db :: "database \<Rightarrow> database \<Rightarrow> bool" where
  "same_db db db' \<longleftrightarrow> objs db' = objs db \<and> slist db' = slist db \<and>
     (\<forall>n a. smap db' n = Some (Some a) \<longleftrightarrow> smap db n = Some (Some a))"

lemma same_db_inv: "same_db db db' \<Longrightarrow> db_inv db \<Longrightarrow> db_inv db'"
  by (simp add: same_db_def db_inv_def)

lemma same_db_view:
  assumes "same_db db db'"
  shows "db_view db' = db_view db"
proof
  fix n
  from assms show "db_view db' n = db_view db n"
    by (auto simp: same_db_def db_view_def split: option.splits)
      (metis option.distinct(1) option.inject)+
qed

lemma getStatusItem_run:
  "\<exists>db'. getStatusItem n db = (Val (if n = [] then None else Option.bind (smap db n) id), db')
     \<and> same_db db db'"
  by (cases "smap db n") (auto simp: getStatusItem_def same_db_def)

lemma add_item_run:
  "add_item n i db = (Val status_OK,
     db\<lparr>objs := objs db @ [i], smap := (smap db)(n \<mapsto> Some (length (objs db))),
        slist := slist db @ [length (objs db)]\<rparr>)"
  by (simp add: add_item_def)

subsection \<open>Objects keep their identity\<close>

text \<open>
  An object never changes its name, its class or its type, and no object is ever removed:
  this is how a later state of the database relates to an earlier one.
\<close>

fun same_kind :: "item \<Rightarrow> item \<Rightarrow> bool" where
  "same_kind (BasicItem a) (BasicItem b) \<longleftrightarrow> kv_name a = kv_name b \<and> stype a = stype b"
| "same_kind (AlarmItem a) (AlarmItem b) \<longleftrightarrow> kv_name a = kv_name b \<and> stype a = stype b"
| "same_kind (HealthItem a) (HealthItem b) \<longleftrightarrow> kv_name a = kv_name b \<and> stype a = stype b"
| "same_kind _ _ \<longleftrightarrow> False"

lemma same_kind_refl [simp]: "same_kind i i"
  by (cases i) simp_all

lemma same_kind_trans: "same_kind i j \<Longrightarrow> same_kind j k \<Longrightarrow> same_kind i k"
  by (cases i; cases j; cases k) simp_all

lemma same_kind_name: "same_kind i j \<Longrightarrow> item_name j = item_name i"
  by (cases i; cases j) (simp_all add: item_name_def)

definition db_later :: "database \<Rightarrow> database \<Rightarrow> bool" where
  "db_later db db' \<longleftrightarrow> length (objs db) \<le> length (objs db') \<and>
     (\<forall>a < length (objs db). same_kind (objs db ! a) (objs db' ! a))"

lemma db_later_refl: "db_later db db"
  by (simp add: db_later_def)

lemma db_later_trans: "db_later a b \<Longrightarrow> db_later b c \<Longrightarrow> db_later a c"
  by (auto simp: db_later_def intro: same_kind_trans)

lemma item_set_kind:
  "wf_obj i \<Longrightarrow> sat (\<lambda>r i'. same_kind i i') (\<lambda>_ _. False) (item_set now w i)"
  by (cases i) (auto simp: set_value_run wf_alarm_wf_item)

lemma item_setHealth_kind:
  assumes "wf_obj i"
  shows "sat (\<lambda>r i'. same_kind i i') (\<lambda>_ _. False) (item_setHealth now h i)"
proof (cases i)
  case (HealthItem it)
  with assms item_set_kind [of i now "VInt (health_int h)"] show ?thesis
    by (simp add: setHealth_def)
qed simp_all

lemma item_setAlarm_kind:
  assumes "wf_obj i"
  shows "sat (\<lambda>r i'. same_kind i i') (\<lambda>_ _. False) (item_setAlarm now s c m i)"
proof (cases i)
  case (AlarmItem a)
  with assms have "wf_alarm a" by simp
  from satD [OF setAlarmState_wf [OF this, of now s c m]] AlarmItem show ?thesis
    by auto
qed simp_all

lemma item_clearAlarm_kind:
  "wf_obj i \<Longrightarrow> sat (\<lambda>r i'. same_kind i i') (\<lambda>_ _. False) (item_clearAlarm now i)"
  by (cases i) (auto simp: thenp_def bindp_def clearAlarmState_run)

lemma updater_kind:
  "wf_obj i \<Longrightarrow> sat (\<lambda>r i'. same_kind i i') (\<lambda>_ _. False) (updater now c i)"
  by (cases c) (simp_all add: item_set_kind item_setHealth_kind item_setAlarm_kind item_clearAlarm_kind)

lemma updater_value:
  assumes "wf_obj i"
  obtains r i' where "updater now c i = (Val r, i')" "wf_obj i'" "same_kind i i'"
  using satD [OF sat_conj [OF updater_wf updater_kind], OF assms assms, of now c] that by auto

subsection \<open>What each shape of call does\<close>

lemma db_inv_ptr:
  "db_inv db \<Longrightarrow> smap db n = Some (Some a) \<Longrightarrow>
     a < length (objs db) \<and> item_name (objs db ! a) = n \<and> wf_obj (objs db ! a)"
  by (auto simp: db_inv_def)

lemma db_inv_add:
  assumes "db_inv db" "wf_obj i" "item_name i = n" "\<And>a. n \<noteq> [] \<Longrightarrow> smap db n \<noteq> Some (Some a)"
  shows "db_inv (db\<lparr>objs := objs db @ [i], smap := (smap db)(n \<mapsto> Some (length (objs db))),
    slist := slist db @ [length (objs db)]\<rparr>)"
  using assms by (fastforce simp: db_inv_def nth_append less_Suc_eq)

lemma db_inv_update:
  assumes "db_inv db" "a < length (objs db)" "wf_obj i" "item_name i = item_name (objs db ! a)"
  shows "db_inv (db\<lparr>objs := (objs db)[a := i]\<rparr>)"
  using assms by (auto simp: db_inv_def nth_list_update dest: set_update_subset_insert [THEN subsetD])

lemma create_named_cases:
  assumes "db_inv db" and "item_name i = n"
  obtains (exists) db' where "db_view db n \<noteq> None" "same_db db db'"
      "create_named n i db = (Val status_ERROR, db')"
    | (fresh) db' where "db_view db n = None" "same_db db db'"
      "create_named n i db = (Val status_OK, db'\<lparr>objs := objs db' @ [i],
         smap := (smap db')(n \<mapsto> Some (length (objs db'))), slist := slist db' @ [length (objs db')]\<rparr>)"
proof -
  obtain db' where g: "getStatusItem n db = (Val (if n = [] then None else Option.bind (smap db n) id), db')"
    and s: "same_db db db'"
    using getStatusItem_run by blast
  show thesis
  proof (cases "db_view db n")
    case None
    with g have "getStatusItem n db = (Val None, db')"
      by (auto simp: db_view_def split: if_splits option.splits)
    with None s show thesis
      by (intro fresh [of db']) (simp_all add: create_named_def bindp_def add_item_run)
  next
    case (Some j)
    then obtain a where "n \<noteq> []" "smap db n = Some (Some a)"
      by (auto simp: db_view_def split: if_splits option.splits)
    with g have "getStatusItem n db = (Val (Some a), db')"
      by simp
    with Some s show thesis
      by (intro exists [of db']) (simp_all add: create_named_def bindp_def)
  qed
qed

lemma update_named_cases:
  assumes "db_inv db"
  obtains (missing) db' where "db_view db n = None" "same_db db db'"
      "update_named n u db = (Val status_ERROR, db')"
    | (found) db' a where "n \<noteq> []" "smap db n = Some (Some a)" "same_db db db'"
      "update_named n u db = (case u (objs db ! a) of (r, i) \<Rightarrow> (r, db'\<lparr>objs := (objs db')[a := i]\<rparr>))"
proof -
  obtain db' where g: "getStatusItem n db = (Val (if n = [] then None else Option.bind (smap db n) id), db')"
    and s: "same_db db db'"
    using getStatusItem_run by blast
  show thesis
  proof (cases "db_view db n")
    case None
    with g have "getStatusItem n db = (Val None, db')"
      by (auto simp: db_view_def split: if_splits option.splits)
    with None s show thesis
      by (intro missing [of db']) (simp_all add: update_named_def bindp_def)
  next
    case (Some j)
    then obtain a where a: "n \<noteq> []" "smap db n = Some (Some a)"
      by (auto simp: db_view_def split: if_splits option.splits)
    with g have "getStatusItem n db = (Val (Some a), db')"
      by simp
    with a s db_inv_ptr [OF assms a(2)] show thesis
      by (intro found [of a db']) (simp_all add: update_named_def bindp_def at_obj_def same_db_def)
  qed
qed

subsection \<open>The specification: a map from names to items\<close>

text \<open>
  What a client may rely on. A name that denotes nothing can be created and not updated, one
  that denotes an item can be updated and not created. The empty name is the exception: it
  never denotes anything, so creating it always succeeds and has no visible effect.
\<close>

definition spec_call ::
  "timeval option \<Rightarrow> status_call \<Rightarrow> (string \<Rightarrow> item option) \<Rightarrow> int \<times> (string \<Rightarrow> item option)" where
  "spec_call now c v = (case (created now c, v (call_name c)) of
     (Some i, Some j) \<Rightarrow> (status_ERROR, v)
   | (Some i, None) \<Rightarrow> (status_OK, if call_name c = [] then v else v(call_name c \<mapsto> i))
   | (None, None) \<Rightarrow> (status_ERROR, v)
   | (None, Some j) \<Rightarrow> (case updater now c j of
        (Val r, j') \<Rightarrow> (r, v(call_name c \<mapsto> j'))
      | _ \<Rightarrow> (status_ERROR, v)))"

text \<open>The calls of a history and their specification, with the clock each call reads.\<close>

fun spec_run ::
  "(timeval option \<times> status_call) list \<Rightarrow> (string \<Rightarrow> item option) \<Rightarrow> int list \<times> (string \<Rightarrow> item option)" where
  "spec_run [] v = ([], v)"
| "spec_run ((now, c) # cs) v = (case spec_call now c v of (r, v') \<Rightarrow>
     (case spec_run cs v' of (rs, v'') \<Rightarrow> (r # rs, v'')))"

definition status_step :: "timeval option \<times> status_call \<Rightarrow> (database, int) prog" where
  "status_step p = status_util (fst p) (snd p)"

lemma db_view_add:
  assumes "db_inv db"
  shows "db_view (db\<lparr>objs := objs db @ [i], smap := (smap db)(n \<mapsto> Some (length (objs db))), slist := l\<rparr>)
    = (if n = [] then db_view db else (db_view db)(n \<mapsto> i))"
  using assms by (auto simp: db_view_def nth_append fun_eq_iff db_inv_def split: option.splits)

lemma db_view_update:
  assumes "db_inv db" "n \<noteq> []" "smap db n = Some (Some a)"
  shows "db_view (db\<lparr>objs := (objs db)[a := i]\<rparr>) = (db_view db)(n \<mapsto> i)"
proof
  fix m
  have a: "a < length (objs db)" "item_name (objs db ! a) = n"
    using db_inv_ptr [OF assms(1,3)] by simp_all
  show "db_view (db\<lparr>objs := (objs db)[a := i]\<rparr>) m = ((db_view db)(n \<mapsto> i)) m"
  proof (cases "m = n")
    case True
    with a assms show ?thesis by (simp add: db_view_def)
  next
    case False
    have "b \<noteq> a" if "smap db m = Some (Some b)" for b
      using False a(2) db_inv_ptr [OF assms(1) that] by auto
    with False show ?thesis
      by (auto simp: db_view_def split: option.splits)
  qed
qed

lemma status_step_refines:
  assumes inv: "db_inv db"
  shows "sat (\<lambda>r db'. (r, db_view db') = spec_call (fst p) (snd p) (db_view db) \<and> db_inv db' \<and> db_later db db')
    (\<lambda>_ _. False) (status_step p db)"
proof -
  obtain now c where p: "p = (now, c)" by force
  let ?n = "call_name c"
  show ?thesis
  proof (cases "created now c")
    case (Some i)
    note new = created_new [OF Some]
    then have name: "item_name i = ?n" by simp
    from inv name show ?thesis
    proof (cases rule: create_named_cases)
      case (exists db')
      then show ?thesis
        using Some inv same_db_inv [OF exists(2) inv] same_db_view [OF exists(2)] p
        by (auto simp: status_step_def status_util_shape spec_call_def same_db_def db_later_def)
    next
      case (fresh db')
      have inv': "db_inv db'" using same_db_inv [OF fresh(2) inv] .
      have v: "db_view db' = db_view db" using same_db_view [OF fresh(2)] .
      have "\<And>a. ?n \<noteq> [] \<Longrightarrow> smap db' ?n \<noteq> Some (Some a)"
        using fresh(1) unfolding v [symmetric] by (auto simp: db_view_def)
      with fresh Some v new db_inv_add [OF inv' _ name] p
        db_view_add [OF inv', where i = i and n = ?n and l = "slist db' @ [length (objs db')]"]
      show ?thesis
        by (auto simp: status_step_def status_util_shape spec_call_def
            same_db_def db_later_def nth_append)
    qed
  next
    case None
    from inv show ?thesis
    proof (cases rule: update_named_cases [where n = ?n and u = "updater now c"])
      case (missing db')
      then show ?thesis
        using None inv same_db_inv [OF missing(2) inv] same_db_view [OF missing(2)] p
        by (auto simp: status_step_def status_util_shape spec_call_def same_db_def db_later_def)
    next
      case (found db' a)
      have inv': "db_inv db'" using same_db_inv [OF found(3) inv] .
      have v: "db_view db' = db_view db" using same_db_view [OF found(3)] .
      have a': "smap db' ?n = Some (Some a)" "objs db' = objs db"
        using found(2,3) by (auto simp: same_db_def)
      have wf: "wf_obj (objs db ! a)" and al: "a < length (objs db)"
        using db_inv_ptr [OF inv found(2)] by simp_all
      from wf obtain r i' where u: "updater now c (objs db ! a) = (Val r, i')" "wf_obj i'"
        "same_kind (objs db ! a) i'"
        by (rule updater_value)
      have "db_inv (db'\<lparr>objs := (objs db')[a := i']\<rparr>)"
        using db_inv_update [OF inv', of a i'] al u a'(2) same_kind_name by simp
      moreover have "db_view (db'\<lparr>objs := (objs db')[a := i']\<rparr>) = (db_view db)(?n \<mapsto> i')"
        using db_view_update [OF inv' found(1) a'(1)] v by simp
      moreover have "db_view db ?n = Some (objs db ! a)"
        using found(1,2) by (simp add: db_view_def)
      moreover have "db_later db (db'\<lparr>objs := (objs db')[a := i']\<rparr>)"
        using u(3) a'(2) al by (auto simp: db_later_def nth_list_update)
      ultimately show ?thesis
        using None found(4) u p
        by (simp add: status_step_def status_util_shape spec_call_def)
    qed
  qed
qed

text \<open>The database provides a safe machine: no call throws, none uses a bad pointer.\<close>

interpretation db_machine: safe_machine status_step db_inv db_later "\<lambda>_. False"
proof
  fix s p
  assume "db_inv s"
  from status_step_refines [OF this, of p]
  show "sat (\<lambda>_ s'. db_inv s' \<and> db_later s s') (\<lambda>e s'. False \<and> db_inv s' \<and> db_later s s') (status_step p s)"
    by (rule sat_mono) auto
qed (auto simp: db_later_refl intro: db_later_trans)

lemma run_status_refines:
  "db_inv db \<Longrightarrow> \<exists>rs db'. run_calls status_step ps db = (Val (map Val rs), db') \<and>
     spec_run ps (db_view db) = (rs, db_view db')"
proof (induction ps arbitrary: db)
  case Nil
  then show ?case by simp
next
  case (Cons p ps)
  obtain now c where p: "p = (now, c)" by force
  from satD [OF status_step_refines [OF Cons.prems, of p]]
  obtain r db1 where one: "status_step p db = (Val r, db1)" "db_inv db1"
    "(r, db_view db1) = spec_call now c (db_view db)"
    using p by auto
  from Cons.IH [OF one(2)] obtain rs db2 where
    "run_calls status_step ps db1 = (Val (map Val rs), db2)" "spec_run ps (db_view db1) = (rs, db_view db2)"
    by blast
  with one p show ?case
    by (intro exI [of _ "r # rs"] exI [of _ db2]) (simp add: bindp_def flip: one(3))
qed

text \<open>Clearing the flags of some objects keeps everything the invariant is about.\<close>

lemma same_kind_clean [simp]: "same_kind i (item_clean i)"
  by (cases i) (simp_all add: clearChanged_def)

lemma db_inv_clean:
  assumes "db_inv db" and "length is = length (objs db)"
    and "\<And>a. a < length is \<Longrightarrow> is ! a = objs db ! a \<or> is ! a = item_clean (objs db ! a)"
  shows "db_inv (db\<lparr>objs := is\<rparr>) \<and> db_later db (db\<lparr>objs := is\<rparr>)"
proof -
  have same: "item_name (is ! a) = item_name (objs db ! a)" "wf_obj (is ! a) = wf_obj (objs db ! a)"
    "same_kind (objs db ! a) (is ! a)" if "a < length is" for a
    using assms(3) [OF that] by auto
  then show ?thesis
    using assms(1,2) by (simp add: db_inv_def db_later_def) (metis in_set_conv_nth)
qed

end
