(* ===== verification/Jms_World.thy ===== *)
theory Jms_World
  imports Giapi_Prog "HOL-Library.Sublist"
begin

section \<open>The messaging library as the code sees it\<close>

text \<open>
  The code talks to the broker through the CMS interface, a library that is not part of the
  program. Each call is an entry of a log; whether a call throws, and what a call that reads
  delivers, is decided by a record of functions of the history, a parameter about which
  nothing is assumed. What the program itself is responsible for is checked on the way: a
  call on an object that was deleted, or a second deletion, is undefined behaviour.

  An object is named by its pointer, the position of the call that created it in the log,
  which keeps the newest call first.
\<close>

type_synonym ptr = nat

text \<open>
  What a session or a connection creates (or a message, its clone), and what the code keeps the
  result in.
\<close>

datatype jms_obj =
    Factory string
  | Connection
  | Session
  | Topic string
  | Queue string
  | TempQueue
  | ReplyTo ptr
  | Producer "ptr option"
  | Consumer ptr "string option"
  | PlainMessage
  | TextMessage
  | MapMessage
  | BytesMessage

datatype holder = RawPtr | SharedPtr

text \<open>What is put into a message: properties, map entries, the text, or a stream of fields.\<close>

datatype put =
    IntProperty string i32
  | StringProperty string string
  | BoolProperty string bool
  | MapString string string
  | SetText string
  | WByte i32
  | WBool bool
  | WInt i32
  | WLong "int option"
  | WFloat f32
  | WDouble f64
  | WUTF string

datatype jms_call =
    CreateFactory string holder
  | Create ptr jms_obj holder
  | StartConnection ptr
  | StopConnection ptr
  | SetExceptionListener ptr
  | SetListener ptr
  | SetNonPersistent ptr
  | SetTimeToLive ptr int
  | Put ptr put
  | SetReplyTo ptr ptr
  | Send ptr "ptr option" ptr
  | Receive ptr "int option"
  | GetText ptr
  | GetMapNames ptr
  | ReadInt ptr
  | ReadByte ptr
  | ReadShort ptr
  | ReadFloat ptr
  | ReadBytesDouble ptr
  | ReadBlock ptr int
  | ResetMsg ptr
  | ReadUTF ptr
  | GetStringProperty ptr string
  | GetIntProperty ptr string
  | GetReplyTo ptr
  | GetString ptr string
  | CloseObj ptr
  | DestroyQueue ptr
  | Delete ptr

text \<open>
  The dynamic class of a received message. \<open>ReplyTo m\<close> above is the destination such a message
  names for its answer.
\<close>

datatype msg_class = IsText | IsMap | IsBytes | IsOther

text \<open>
  The environment. Every function is given the calls made so far, the newest first, the one
  to be answered included. \<open>in_block\<close> is what the buffer of a \<open>readBytes\<close> holds afterwards, by
  position; a \<open>short\<close> and a \<open>float\<close> are delivered by \<open>in_int\<close>, the first in its lower half.
\<close>

record environment =
  fails :: "jms_call list \<Rightarrow> string option"
  arrives :: "jms_call list \<Rightarrow> msg_class option"
  in_text :: "jms_call list \<Rightarrow> string"
  in_names :: "jms_call list \<Rightarrow> string list"
  in_int :: "jms_call list \<Rightarrow> i32"
  in_double :: "jms_call list \<Rightarrow> f64"
  in_block :: "jms_call list \<Rightarrow> nat \<Rightarrow> u8"
  has_reply_to :: "jms_call list \<Rightarrow> bool"
  file_property :: "string \<Rightarrow> string"

type_synonym jms_log = "(jms_call \<times> bool) list"

text \<open>
  The state: the log with the outcome of each call, the connection of the connection
  manager, and the local variable that holds the message under construction, null at first.
\<close>

record jms =
  env :: environment
  log :: jms_log
  conn :: "ptr option"
  msg :: "ptr option"

text \<open>The world at the start of the program, and an environment in which nothing happens.\<close>

definition start :: "environment \<Rightarrow> jms" where
  "start en = \<lparr>env = en, log = [], conn = None, msg = None\<rparr>"

definition quiet_env :: environment where
  "quiet_env = \<lparr>fails = (\<lambda>h. None), arrives = (\<lambda>h. None), in_text = (\<lambda>h. []), in_names = (\<lambda>h. []),
     in_int = (\<lambda>h. 0), in_double = (\<lambda>h. 0), in_block = (\<lambda>h i. 0), has_reply_to = (\<lambda>h. False), file_property = (\<lambda>k. [])\<rparr>"

fun pointers :: "jms_call \<Rightarrow> ptr list" where
  "pointers (CreateFactory u h) = []"
| "pointers (Create s (Producer (Some d)) h) = [s, d]"
| "pointers (Create s (Consumer d sel) h) = [s, d]"
| "pointers (Create s ob h) = [s]"
| "pointers (StartConnection p) = [p]"
| "pointers (StopConnection p) = [p]"
| "pointers (SetExceptionListener p) = [p]"
| "pointers (SetListener p) = [p]"
| "pointers (SetNonPersistent p) = [p]"
| "pointers (SetTimeToLive p t) = [p]"
| "pointers (Put p x) = [p]"
| "pointers (SetReplyTo m d) = [m, d]"
| "pointers (Send p None m) = [p, m]"
| "pointers (Send p (Some d) m) = [p, d, m]"
| "pointers (Receive p t) = [p]"
| "pointers (GetText p) = [p]"
| "pointers (GetMapNames p) = [p]"
| "pointers (ReadInt p) = [p]"
| "pointers (ReadByte p) = [p]"
| "pointers (ReadShort p) = [p]"
| "pointers (ReadFloat p) = [p]"
| "pointers (ReadBytesDouble p) = [p]"
| "pointers (ReadBlock p n) = [p]"
| "pointers (ResetMsg p) = [p]"
| "pointers (ReadUTF p) = [p]"
| "pointers (GetStringProperty p k) = [p]"
| "pointers (GetIntProperty p k) = [p]"
| "pointers (GetReplyTo p) = [p]"
| "pointers (GetString p k) = [p]"
| "pointers (CloseObj p) = [p]"
| "pointers (DestroyQueue p) = [p]"
| "pointers (Delete p) = [p]"

definition deleted :: "ptr \<Rightarrow> jms_log \<Rightarrow> bool" where
  "deleted p l \<longleftrightarrow> (Delete p, True) \<in> set l"

definition alive :: "jms_log \<Rightarrow> ptr \<Rightarrow> bool" where
  "alive l p \<longleftrightarrow> p < length l \<and> \<not> deleted p l"

subsection \<open>Calls\<close>

definition jcall :: "jms_call \<Rightarrow> ('a jms_scheme, unit) prog" where
  "jcall c = (\<lambda>w. if \<not> list_all (alive (log w)) (pointers c) then (Undef, w) else
     (case fails (env w) (c # map fst (log w)) of
        Some t \<Rightarrow> (Exn (CMSExn t), w\<lparr>log := (c, False) # log w\<rparr>)
      | None \<Rightarrow> (Val (), w\<lparr>log := (c, True) # log w\<rparr>)))"

text \<open>A call that creates an object returns its pointer.\<close>

definition jnew :: "ptr \<Rightarrow> jms_obj \<Rightarrow> holder \<Rightarrow> ('a jms_scheme, ptr) prog" where
  "jnew s ob h = bindp (reads (\<lambda>w. length (log w))) (\<lambda>p. thenp (jcall (Create s ob h)) (ret p))"

definition jput :: "ptr \<Rightarrow> put \<Rightarrow> ('a jms_scheme, unit) prog" where
  "jput m x = jcall (Put m x)"

fun jputs :: "ptr \<Rightarrow> put list \<Rightarrow> ('a jms_scheme, unit) prog" where
  "jputs m [] = ret ()"
| "jputs m (x # xs) = thenp (jput m x) (jputs m xs)"

text \<open>\<open>delete p\<close> does not throw, but must not be done twice.\<close>

definition jdelete :: "ptr \<Rightarrow> ('a jms_scheme, unit) prog" where
  "jdelete p = (\<lambda>w. if alive (log w) p then (Val (), w\<lparr>log := (Delete p, True) # log w\<rparr>) else (Undef, w))"

text \<open>\<open>receive\<close>: a null pointer when the time is over, or a message with its class.\<close>

definition jreceive :: "ptr \<Rightarrow> int option \<Rightarrow> ('a jms_scheme, (ptr \<times> msg_class) option) prog" where
  "jreceive c t = bindp (reads (\<lambda>w. length (log w))) (\<lambda>p.
     thenp (jcall (Receive c t))
    (reads (\<lambda>w. map_option (Pair p) (arrives (env w) (map fst (log w))))))"

text \<open>The choice all requests make: wait for ever unless the timeout is positive.\<close>

definition jreceive_timeout :: "ptr \<Rightarrow> int \<Rightarrow> ('a jms_scheme, (ptr \<times> msg_class) option) prog" where
  "jreceive_timeout c t = (if t > 0 then jreceive c (Some t) else jreceive c None)"

definition jread :: "(environment \<Rightarrow> jms_call list \<Rightarrow> 'r) \<Rightarrow> jms_call \<Rightarrow> ('a jms_scheme, 'r) prog" where
  "jread f c = thenp (jcall c) (reads (\<lambda>w. f (env w) (map fst (log w))))"

subsection \<open>The local message variable\<close>

definition set_msg :: "ptr option \<Rightarrow> ('a jms_scheme, unit) prog" where
  "set_msg p = modifies (\<lambda>w. w\<lparr>msg := p\<rparr>)"

text \<open>\<open>if (msg != NULL) delete msg;\<close>\<close>

definition delete_msg :: "('a jms_scheme, unit) prog" where
  "delete_msg = bindp (reads msg) (\<lambda>m. case m of None \<Rightarrow> ret () | Some p \<Rightarrow> jdelete p)"

subsection \<open>Reading the log\<close>

text \<open>The object a pointer leads to.\<close>

fun obj_at :: "ptr \<Rightarrow> jms_log \<Rightarrow> jms_obj option" where
  "obj_at p [] = None"
| "obj_at p (e # l) = (if p = length l
     then (case e of (Create s ob h, True) \<Rightarrow> Some ob | (CreateFactory u h, True) \<Rightarrow> Some (Factory u) | (GetReplyTo m, True) \<Rightarrow> Some (ReplyTo m) | _ \<Rightarrow> None)
     else obj_at p l)"

text \<open>What was put into a message, in the order it was put.\<close>

fun contents :: "ptr \<Rightarrow> jms_log \<Rightarrow> put list" where
  "contents m [] = []"
| "contents m ((Put m' x, True) # l) = (if m = m' then contents m l @ [x] else contents m l)"
| "contents m (_ # l) = contents m l"

fun dest_name :: "ptr option \<Rightarrow> jms_log \<Rightarrow> jms_obj option" where
  "dest_name None l = None"
| "dest_name (Some d) l = obj_at d l"

text \<open>Where a message goes: the destination of the send, or else that of the producer.\<close>

definition route :: "ptr \<Rightarrow> ptr option \<Rightarrow> jms_log \<Rightarrow> jms_obj option" where
  "route p d l = (case d of Some q \<Rightarrow> obj_at q l | None \<Rightarrow>
     (case obj_at p l of Some (Producer q) \<Rightarrow> dest_name q l | _ \<Rightarrow> None))"

text \<open>The messages sent, the latest first: the destination, the kind of message, its contents.\<close>

fun sent :: "jms_log \<Rightarrow> (jms_obj option \<times> jms_obj option \<times> put list) list" where
  "sent [] = []"
| "sent ((Send p d m, True) # l) = (route p d l, obj_at m l, contents m l) # sent l"
| "sent (_ # l) = sent l"

text \<open>
  The objects created behind a raw pointer and not deleted yet, the latest first.
\<close>

fun raw_at :: "jms_log \<Rightarrow> ptr list" where
  "raw_at [] = []"
| "raw_at ((Create s ob RawPtr, True) # l) = length l # raw_at l"
| "raw_at ((CreateFactory u RawPtr, True) # l) = length l # raw_at l"
| "raw_at ((Delete p, True) # l) = filter (\<lambda>q. q \<noteq> p) (raw_at l)"
| "raw_at (_ # l) = raw_at l"

subsection \<open>Reading the calls\<close>

text \<open>
  What an answer depends on, for hypotheses about the environment: the contents of the message that
  was sent last, and whether a pointer leads to a received message. A message that the library hands
  to a listener is an object it made for the session of the listener.
\<close>

fun last_sent :: "jms_call list \<Rightarrow> ptr option" where
  "last_sent [] = None"
| "last_sent (Send p d m # h) = Some m"
| "last_sent (_ # h) = last_sent h"

fun puts_to :: "ptr \<Rightarrow> jms_call list \<Rightarrow> put list" where
  "puts_to m [] = []"
| "puts_to m (Put m' x # h) = (if m = m' then puts_to m h @ [x] else puts_to m h)"
| "puts_to m (_ # h) = puts_to m h"

definition request_puts :: "jms_call list \<Rightarrow> put list" where
  "request_puts h = (case last_sent h of None \<Rightarrow> [] | Some m \<Rightarrow> puts_to m h)"

definition received :: "jms_call list \<Rightarrow> ptr \<Rightarrow> bool" where
  "received h p \<longleftrightarrow> p < length h \<and> (case rev h ! p of Receive c t \<Rightarrow> True | Create s BytesMessage SharedPtr \<Rightarrow> True | _ \<Rightarrow> False)"

subsection \<open>Well-formed logs\<close>

text \<open>Every call is on objects created before it.\<close>

fun log_wf :: "jms_log \<Rightarrow> bool" where
  "log_wf [] = True"
| "log_wf ((c, b) # l) \<longleftrightarrow> (\<forall>p \<in> set (pointers c). p < length l) \<and> log_wf l"

lemma deleted_simps [simp]:
  "\<not> deleted p []"
  "deleted p ((c, b) # l) \<longleftrightarrow> c = Delete p \<and> b \<or> deleted p l"
  by (auto simp: deleted_def)

lemma log_wf_deleted: "log_wf l \<Longrightarrow> deleted p l \<Longrightarrow> p < length l"
  by (induction l rule: log_wf.induct) auto

lemma contents_late: "log_wf l \<Longrightarrow> length l \<le> m \<Longrightarrow> contents m l = []"
  by (induction m l rule: contents.induct) auto

lemma puts_to_late: "log_wf l \<Longrightarrow> length l \<le> m \<Longrightarrow> puts_to m (map fst l) = []"
proof (induction l)
  case (Cons e l)
  obtain c b where e: "e = (c, b)" by force
  with Cons show ?case by (cases c) auto
qed simp

lemma received_cons: "received h p \<Longrightarrow> received (c # h) p"
  by (auto simp: received_def nth_append)

lemma received_now: "received (Receive c t # h) (length h)"
  by (simp add: received_def nth_append)

lemma received_append: "received h p \<Longrightarrow> received (k @ h) p"
  by (induction k) (auto intro: received_cons)

lemma obj_at_late: "length l \<le> p \<Longrightarrow> obj_at p l = None"
  by (induction p l rule: obj_at.induct) auto

lemma raw_at_less: "p \<in> set (raw_at l) \<Longrightarrow> p < length l"
  by (induction l rule: raw_at.induct) (auto simp: less_Suc_eq)

lemma alive_cons [simp]:
  "alive ((c, b) # l) p \<longleftrightarrow> p \<le> length l \<and> \<not> (c = Delete p \<and> b) \<and> \<not> deleted p l"
  by (auto simp: alive_def less_Suc_eq_le)

lemma alive_fresh: "log_wf l \<Longrightarrow> \<not> deleted (length l) l"
  using log_wf_deleted by blast

lemma raw_at_filter_late [simp]: "length l \<le> p \<Longrightarrow> filter (\<lambda>q. q \<noteq> p) (raw_at l) = raw_at l"
  using raw_at_less by (fastforce simp: filter_id_conv)

subsection \<open>Weakest preconditions of calls\<close>

text \<open>
  The rule for a call: the objects it uses must be alive, and both outcomes must satisfy what
  comes after. It does not look into the environment, so what is proved with it holds for
  every pattern of failures.
\<close>

lemma sat_jcall:
  assumes "list_all (alive (log w)) (pointers c)"
    and "\<And>t. E (CMSExn t) (w\<lparr>log := (c, False) # log w\<rparr>)"
    and "Q () (w\<lparr>log := (c, True) # log w\<rparr>)"
  shows "sat Q E (jcall c w)"
  using assms by (simp add: jcall_def split: option.split)

lemma sat_jnew:
  assumes "list_all (alive (log w)) (pointers (Create s ob h))"
    and "\<And>t. E (CMSExn t) (w\<lparr>log := (Create s ob h, False) # log w\<rparr>)"
    and "Q (length (log w)) (w\<lparr>log := (Create s ob h, True) # log w\<rparr>)"
  shows "sat Q E (jnew s ob h w)"
  using assms by (simp add: jnew_def wp sat_jcall)

lemma sat_jput:
  assumes "alive (log w) m"
    and "\<And>t. E (CMSExn t) (w\<lparr>log := (Put m x, False) # log w\<rparr>)"
    and "Q () (w\<lparr>log := (Put m x, True) # log w\<rparr>)"
  shows "sat Q E (jput m x w)"
  using assms by (simp add: jput_def sat_jcall)

lemma sat_jdelete [wp]:
  "sat Q E (jdelete p w) \<longleftrightarrow> alive (log w) p \<and> Q () (w\<lparr>log := (Delete p, True) # log w\<rparr>)"
  by (simp add: jdelete_def)

lemma sat_set_msg [wp]: "sat Q E (set_msg p w) \<longleftrightarrow> Q () (w\<lparr>msg := p\<rparr>)"
  by (simp add: set_msg_def)

lemma sat_delete_msg [wp]:
  "sat Q E (delete_msg w) \<longleftrightarrow> (case msg w of None \<Rightarrow> Q () w | Some p \<Rightarrow>
     alive (log w) p \<and> Q () (w\<lparr>log := (Delete p, True) # log w\<rparr>))"
  by (simp add: delete_msg_def wp sat_jdelete split: option.split)

text \<open>A sequence of puts: what the log has gained when it stops, early or at the end.\<close>

definition puts_log :: "ptr \<Rightarrow> put list \<Rightarrow> jms_log" where
  "puts_log m xs = map (\<lambda>x. (Put m x, True)) (rev xs)"

lemma puts_log_simps [simp]:
  "puts_log m [] = []"
  "puts_log m (x # xs) = puts_log m xs @ [(Put m x, True)]"
  by (simp_all add: puts_log_def)

lemma length_puts_log [simp]: "length (puts_log m xs) = length xs"
  by (simp add: puts_log_def)

lemma sat_jputs:
  assumes "alive (log w) m"
    and "\<And>t ys y zs. xs = ys @ y # zs \<Longrightarrow>
      E (CMSExn t) (w\<lparr>log := (Put m y, False) # puts_log m ys @ log w\<rparr>)"
    and "Q () (w\<lparr>log := puts_log m xs @ log w\<rparr>)"
  shows "sat Q E (jputs m xs w)"
  using assms
proof (induction xs arbitrary: w)
  case Nil
  then show ?case by simp
next
  case (Cons x xs)
  let ?w = "w\<lparr>log := (Put m x, True) # log w\<rparr>"
  have "sat Q E (jputs m xs ?w)"
  proof (rule Cons.IH)
    show "alive (log ?w) m" using Cons.prems(1) by (simp add: alive_def)
  next
    fix t ys y zs
    assume "xs = ys @ y # zs"
    then show "E (CMSExn t) (?w\<lparr>log := (Put m y, False) # puts_log m ys @ log ?w\<rparr>)"
      using Cons.prems(2) [of "x # ys" y zs t] by simp
  next
    show "Q () (?w\<lparr>log := puts_log m xs @ log ?w\<rparr>)"
      using Cons.prems(3) by simp
  qed
  moreover have "E (CMSExn t) (w\<lparr>log := (Put m x, False) # log w\<rparr>)" for t
    using Cons.prems(2) [of "[]" x xs t] by simp
  ultimately show ?case
    using Cons.prems(1) by (simp add: wp sat_jput)
qed

lemma jputs_append: "jputs m (xs @ ys) = thenp (jputs m xs) (jputs m ys)"
  by (induction xs) (simp_all add: thenp_def bindp_assoc)

lemma puts_log_facts [simp]:
  "length (puts_log m xs @ l) = length xs + length l"
  "deleted p (puts_log m xs @ l) = deleted p l"
  "raw_at (puts_log m xs @ l) = raw_at l"
  "sent (puts_log m xs @ l) = sent l"
  "contents m (puts_log m xs @ l) = contents m l @ xs"
  by (induction xs arbitrary: l) simp_all

lemma puts_to_puts [simp]: "puts_to m (map fst (puts_log m xs) @ h) = puts_to m h @ xs"
  by (induction xs arbitrary: h) simp_all

lemma obj_at_puts [simp]: "p < length l \<Longrightarrow> obj_at p (puts_log m xs @ l) = obj_at p l"
  by (induction xs arbitrary: l) simp_all

lemma log_wf_puts [simp]: "m < length l \<Longrightarrow> log_wf (puts_log m xs @ l) = log_wf l"
  by (induction xs arbitrary: l) simp_all

end
