(* ===== verification/Gmp_Protocol.thy ===== *)
theory Gmp_Protocol
  imports Jms_World
begin

section \<open>The names and dictionaries of the GMP protocol\<close>

text \<open>
  \<open>GMPKeys\<close>, \<open>HandlerResponse\<close> and \<open>JmsUtil\<close>: the names of topics, queues, properties and
  values that the client and the Gemini Master Process agree on, and the translations between
  them and the enumerations of the library.
\<close>

subsection \<open>Keys\<close>

datatype (plugins only: code) gmp_key =
    GMP_PREFIX
  | GMP_SEPARATOR
  | GMP_SEQUENCE_COMMAND_PREFIX
  | GMP_COMPLETION_INFO
  | GMP_ACTIONID_PROP
  | GMP_ACTIVITY_PROP
  | GMP_ACTIVITY_PRESET
  | GMP_ACTIVITY_START
  | GMP_ACTIVITY_PRESET_START
  | GMP_ACTIVITY_CANCEL
  | GMP_HANDLER_RESPONSE_ACCEPTED
  | GMP_HANDLER_RESPONSE_STARTED
  | GMP_HANDLER_RESPONSE_COMPLETED
  | GMP_HANDLER_RESPONSE_ERROR
  | GMP_HANDLER_RESPONSE_KEY
  | GMP_HANDLER_RESPONSE_ERROR_KEY
  | GMP_SEQUENCE_COMMAND_TEST
  | GMP_SEQUENCE_COMMAND_REBOOT
  | GMP_SEQUENCE_COMMAND_INIT
  | GMP_SEQUENCE_COMMAND_DATUM
  | GMP_SEQUENCE_COMMAND_PARK
  | GMP_SEQUENCE_COMMAND_VERIFY
  | GMP_SEQUENCE_COMMAND_END_VERIFY
  | GMP_SEQUENCE_COMMAND_GUIDE
  | GMP_SEQUENCE_COMMAND_END_GUIDE
  | GMP_SEQUENCE_COMMAND_APPLY
  | GMP_SEQUENCE_COMMAND_OBSERVE
  | GMP_SEQUENCE_COMMAND_END_OBSERVE
  | GMP_SEQUENCE_COMMAND_PAUSE
  | GMP_SEQUENCE_COMMAND_CONTINUE
  | GMP_SEQUENCE_COMMAND_STOP
  | GMP_SEQUENCE_COMMAND_STOP_CYCLE
  | GMP_SEQUENCE_COMMAND_ABORT
  | GMP_SEQUENCE_COMMAND_ENGINEERING
  | GMP_UTIL_REQUEST_DESTINATION
  | GMP_UTIL_REQUEST_TYPE
  | GMP_UTIL_PROPERTY
  | GMP_SERVICES_LOG_DESTINATION
  | GMP_SERVICES_LOG_LEVEL
  | GMP_STATUS_DESTINATION_PREFIX
  | GMP_EPICS_TOPIC_PREFIX
  | GMP_GEMINI_EPICS_REQUEST_DESTINATION
  | GMP_GEMINI_EPICS_CHANNEL_PROPERTY
  | GMP_PCS_UPDATE_DESTINATION
  | GMP_TCS_CONTEXT_DESTINATION
  | GMP_TCS_OFFSET_DESTINATION
  | GMP_GEMINI_EPICS_GET_DESTINATION
  | GMP_DATA_OBSEVENT_DESTINATION
  | GMP_DATA_OBSEVENT_NAME
  | GMP_DATA_OBSEVENT_FILENAME
  | GMP_DATA_FILEEVENT_DESTINATION
  | GMP_DATA_FILEEVENT_TYPE
  | GMP_DATA_FILEEVENT_FILENAME
  | GMP_DATA_FILEEVENT_DATALABEL
  | GMP_DATA_FILEEVENT_HINT

definition gmp_prefix :: string where
  "gmp_prefix = ''GMP''"

definition gmp_separator :: string where
  "gmp_separator = ''.''"

definition gmp_sc_prefix :: string where
  "gmp_sc_prefix = gmp_prefix @ gmp_separator @ ''SC'' @ gmp_separator"

definition GMP_UTIL_REQUEST_PROPERTY :: i32 where
  "GMP_UTIL_REQUEST_PROPERTY = 0"

primrec key :: "gmp_key \<Rightarrow> string" where
  "key GMP_PREFIX = ''GMP''"
| "key GMP_SEPARATOR = ''.''"
| "key GMP_SEQUENCE_COMMAND_PREFIX = gmp_prefix @ gmp_separator @ ''SC'' @ gmp_separator"
| "key GMP_COMPLETION_INFO = gmp_prefix @ gmp_separator @ ''COMPLETION_INFO''"
| "key GMP_ACTIONID_PROP = ''GMP_ACTIONID''"
| "key GMP_ACTIVITY_PROP = ''GMP_ACTIVITY_PROP''"
| "key GMP_ACTIVITY_PRESET = ''PRESET''"
| "key GMP_ACTIVITY_START = ''START''"
| "key GMP_ACTIVITY_PRESET_START = ''PRESET/START''"
| "key GMP_ACTIVITY_CANCEL = ''CANCEL''"
| "key GMP_HANDLER_RESPONSE_ACCEPTED = ''ACCEPTED''"
| "key GMP_HANDLER_RESPONSE_STARTED = ''STARTED''"
| "key GMP_HANDLER_RESPONSE_COMPLETED = ''COMPLETED''"
| "key GMP_HANDLER_RESPONSE_ERROR = ''ERROR''"
| "key GMP_HANDLER_RESPONSE_KEY = ''GMP_HANDLER_RESPONSE''"
| "key GMP_HANDLER_RESPONSE_ERROR_KEY = ''GMP_HANDLER_RESPONSE_ERROR''"
| "key GMP_SEQUENCE_COMMAND_TEST = gmp_sc_prefix @ ''TEST''"
| "key GMP_SEQUENCE_COMMAND_REBOOT = gmp_sc_prefix @ ''REBOOT''"
| "key GMP_SEQUENCE_COMMAND_INIT = gmp_sc_prefix @ ''INIT''"
| "key GMP_SEQUENCE_COMMAND_DATUM = gmp_sc_prefix @ ''DATUM''"
| "key GMP_SEQUENCE_COMMAND_PARK = gmp_sc_prefix @ ''PARK''"
| "key GMP_SEQUENCE_COMMAND_VERIFY = gmp_sc_prefix @ ''VERIFY''"
| "key GMP_SEQUENCE_COMMAND_END_VERIFY = gmp_sc_prefix @ ''END_VERIFY''"
| "key GMP_SEQUENCE_COMMAND_GUIDE = gmp_sc_prefix @ ''GUIDE''"
| "key GMP_SEQUENCE_COMMAND_END_GUIDE = gmp_sc_prefix @ ''END_GUIDE''"
| "key GMP_SEQUENCE_COMMAND_APPLY = gmp_sc_prefix @ ''APPLY''"
| "key GMP_SEQUENCE_COMMAND_OBSERVE = gmp_sc_prefix @ ''OBSERVE''"
| "key GMP_SEQUENCE_COMMAND_END_OBSERVE = gmp_sc_prefix @ ''END_OBSERVE''"
| "key GMP_SEQUENCE_COMMAND_PAUSE = gmp_sc_prefix @ ''PAUSE''"
| "key GMP_SEQUENCE_COMMAND_CONTINUE = gmp_sc_prefix @ ''CONTINUE''"
| "key GMP_SEQUENCE_COMMAND_STOP = gmp_sc_prefix @ ''STOP''"
| "key GMP_SEQUENCE_COMMAND_STOP_CYCLE = gmp_sc_prefix @ ''STOP_CYCLE''"
| "key GMP_SEQUENCE_COMMAND_ABORT = gmp_sc_prefix @ ''ABORT''"
| "key GMP_SEQUENCE_COMMAND_ENGINEERING = gmp_sc_prefix @ ''ENGINEERING''"
| "key GMP_UTIL_REQUEST_DESTINATION = gmp_prefix @ gmp_separator @ ''UTIL_REQUEST_DESTINATION''"
| "key GMP_UTIL_REQUEST_TYPE = ''REQUEST_TYPE''"
| "key GMP_UTIL_PROPERTY = ''PROPERTY''"
| "key GMP_SERVICES_LOG_DESTINATION = gmp_prefix @ gmp_separator @ ''LOGGING_DESTINATION''"
| "key GMP_SERVICES_LOG_LEVEL = ''LEVEL''"
| "key GMP_STATUS_DESTINATION_PREFIX = gmp_prefix @ gmp_separator @ ''STATUS'' @ gmp_separator"
| "key GMP_EPICS_TOPIC_PREFIX = gmp_prefix @ gmp_separator @ ''EPICS'' @ gmp_separator"
| "key GMP_GEMINI_EPICS_REQUEST_DESTINATION = gmp_prefix @ gmp_separator @ ''EPICS_REQUEST_DESTINATION''"
| "key GMP_GEMINI_EPICS_CHANNEL_PROPERTY = ''EPICS_CHANNEL''"
| "key GMP_PCS_UPDATE_DESTINATION = gmp_prefix @ gmp_separator @ ''PCS_UPDATE_DESTINATION''"
| "key GMP_TCS_CONTEXT_DESTINATION = gmp_prefix @ gmp_separator @ ''TCS_CONTEXT_DESTINATION''"
| "key GMP_TCS_OFFSET_DESTINATION = gmp_prefix @ gmp_separator @ ''TCS_OFFSET_DESTINATION''"
| "key GMP_GEMINI_EPICS_GET_DESTINATION = gmp_prefix @ gmp_separator @ ''EPICS_GET_DESTINATION''"
| "key GMP_DATA_OBSEVENT_DESTINATION = gmp_prefix @ gmp_separator @ ''OBSEVENT_DESTINATION''"
| "key GMP_DATA_OBSEVENT_NAME = ''OBSEVENT_NAME''"
| "key GMP_DATA_OBSEVENT_FILENAME = ''OBSEVENT_FILENAME''"
| "key GMP_DATA_FILEEVENT_DESTINATION = gmp_prefix @ gmp_separator @ ''FILEEVENT_DESTINATION''"
| "key GMP_DATA_FILEEVENT_TYPE = ''TYPE''"
| "key GMP_DATA_FILEEVENT_FILENAME = ''FILENAME''"
| "key GMP_DATA_FILEEVENT_DATALABEL = ''DATALABEL''"
| "key GMP_DATA_FILEEVENT_HINT = ''HINT''"

lemmas gmp_prefix_defs = gmp_prefix_def gmp_separator_def gmp_sc_prefix_def

subsection \<open>Handler responses\<close>

datatype response = ACCEPTED | STARTED | COMPLETED | RESP_ERROR

record handler_response =
  hr_message :: string
  hr_response :: response

definition create_response :: "response \<Rightarrow> handler_response" where
  "create_response r = \<lparr>hr_message = [], hr_response = r\<rparr>"

definition createError :: "string \<Rightarrow> handler_response" where
  "createError m = \<lparr>hr_message = m, hr_response = RESP_ERROR\<rparr>"

definition getResponse :: "handler_response \<Rightarrow> response" where
  "getResponse h = hr_response h"

definition getMessage :: "handler_response \<Rightarrow> string" where
  "getMessage h = hr_message h"

lemma response_simps [simp]:
  "getResponse (create_response r) = r"
  "getMessage (create_response r) = []"
  "getResponse (createError m) = RESP_ERROR"
  "getMessage (createError m) = m"
  by (simp_all add: getResponse_def getMessage_def create_response_def createError_def)

text \<open>Only an error response carries a message, whichever factory made it.\<close>

definition wf_response :: "handler_response \<Rightarrow> bool" where
  "wf_response h \<longleftrightarrow> (getMessage h \<noteq> [] \<longrightarrow> getResponse h = RESP_ERROR)"

lemma wf_response_factories [inv_intros]:
  "wf_response (create_response r)" "wf_response (createError m)"
  by (simp_all add: wf_response_def)

subsection \<open>The dictionaries of JmsUtil\<close>

text \<open>
  The dictionaries for commands and responses have an entry for every enumerator, so a lookup
  always finds one. The dictionary of activities is looked up with strings from the network
  and with \<open>operator[]\<close>, which enters unknown strings with the number zero.
\<close>

fun sequenceCommandMap :: "sequence_command \<Rightarrow> string" where
  "sequenceCommandMap TEST = key GMP_SEQUENCE_COMMAND_TEST"
| "sequenceCommandMap REBOOT = key GMP_SEQUENCE_COMMAND_REBOOT"
| "sequenceCommandMap INIT = key GMP_SEQUENCE_COMMAND_INIT"
| "sequenceCommandMap DATUM = key GMP_SEQUENCE_COMMAND_DATUM"
| "sequenceCommandMap PARK = key GMP_SEQUENCE_COMMAND_PARK"
| "sequenceCommandMap VERIFY = key GMP_SEQUENCE_COMMAND_VERIFY"
| "sequenceCommandMap END_VERIFY = key GMP_SEQUENCE_COMMAND_END_VERIFY"
| "sequenceCommandMap GUIDE = key GMP_SEQUENCE_COMMAND_GUIDE"
| "sequenceCommandMap END_GUIDE = key GMP_SEQUENCE_COMMAND_END_GUIDE"
| "sequenceCommandMap APPLY = key GMP_SEQUENCE_COMMAND_APPLY"
| "sequenceCommandMap OBSERVE = key GMP_SEQUENCE_COMMAND_OBSERVE"
| "sequenceCommandMap END_OBSERVE = key GMP_SEQUENCE_COMMAND_END_OBSERVE"
| "sequenceCommandMap PAUSE = key GMP_SEQUENCE_COMMAND_PAUSE"
| "sequenceCommandMap CONTINUE = key GMP_SEQUENCE_COMMAND_CONTINUE"
| "sequenceCommandMap STOP = key GMP_SEQUENCE_COMMAND_STOP"
| "sequenceCommandMap STOP_CYCLE = key GMP_SEQUENCE_COMMAND_STOP_CYCLE"
| "sequenceCommandMap ABORT = key GMP_SEQUENCE_COMMAND_ABORT"
| "sequenceCommandMap ENGINEERING = key GMP_SEQUENCE_COMMAND_ENGINEERING"

fun handlerResponseMap :: "response \<Rightarrow> string" where
  "handlerResponseMap ACCEPTED = key GMP_HANDLER_RESPONSE_ACCEPTED"
| "handlerResponseMap STARTED = key GMP_HANDLER_RESPONSE_STARTED"
| "handlerResponseMap COMPLETED = key GMP_HANDLER_RESPONSE_COMPLETED"
| "handlerResponseMap RESP_ERROR = key GMP_HANDLER_RESPONSE_ERROR"

fun activity_int :: "activity \<Rightarrow> i32" where
  "activity_int PRESET = 0"
| "activity_int START = 1"
| "activity_int PRESET_START = 2"
| "activity_int CANCEL = 3"

text \<open>The cast back from a number; no enumerator has any other number.\<close>

definition activity_cast :: "i32 \<Rightarrow> activity option" where
  "activity_cast v = (if v = 0 then Some PRESET else if v = 1 then Some START
     else if v = 2 then Some PRESET_START else if v = 3 then Some CANCEL else None)"

definition new_activityMap :: "string \<Rightarrow> i32 option" where
  "new_activityMap = [
     key GMP_ACTIVITY_PRESET \<mapsto> activity_int PRESET,
     key GMP_ACTIVITY_START \<mapsto> activity_int START,
     key GMP_ACTIVITY_PRESET_START \<mapsto> activity_int PRESET_START,
     key GMP_ACTIVITY_CANCEL \<mapsto> activity_int CANCEL]"

type_synonym activity_map = "string \<Rightarrow> i32 option"

definition getActivity :: "string \<Rightarrow> (activity_map, activity) prog" where
  "getActivity ident =
     bindp (reads (\<lambda>am. am ident)) (\<lambda>entry.
     thenp (case entry of None \<Rightarrow> modifies (\<lambda>am. am(ident \<mapsto> 0)) | Some v \<Rightarrow> ret ())
    (bindp (reads (\<lambda>am. am ident)) (\<lambda>v. case v of
        None \<Rightarrow> undef
      | Some n \<Rightarrow> (case activity_cast n of None \<Rightarrow> undef | Some a \<Rightarrow> ret a))))"

definition getTopic :: "sequence_command \<Rightarrow> string" where
  "getTopic c = sequenceCommandMap c"

definition getTopic_prefix :: "string \<Rightarrow> string" where
  "getTopic_prefix p = key GMP_SEQUENCE_COMMAND_APPLY @ key GMP_SEPARATOR @ p"

text \<open>\<open>std::toupper\<close> in the C locale.\<close>

definition upper :: "char \<Rightarrow> char" where
  "upper c = (let n = (of_char c :: nat) in if 97 \<le> n \<and> n \<le> 122 then char_of (n - 32) else c)"

definition getEpicsChannelTopic :: "string \<Rightarrow> string" where
  "getEpicsChannelTopic channel = key GMP_EPICS_TOPIC_PREFIX @ map upper channel"

definition getHandlerResponse :: "handler_response \<Rightarrow> string" where
  "getHandlerResponse h = handlerResponseMap (getResponse h)"

definition makeHandlerResponseMsg :: "ptr \<Rightarrow> handler_response \<Rightarrow> ('a jms_scheme, unit) prog" where
  "makeHandlerResponseMsg m h =
     thenp (jput m (MapString (key GMP_HANDLER_RESPONSE_KEY) (getHandlerResponse h)))
       (if getResponse h = RESP_ERROR
        then jput m (MapString (key GMP_HANDLER_RESPONSE_ERROR_KEY) (getMessage h))
        else ret ())"

subsection \<open>Facts on the names\<close>

lemmas names_simps = getTopic_def getTopic_prefix_def gmp_prefix_defs

lemma key_activity_distinct [simp]:
  "key GMP_ACTIVITY_PRESET \<noteq> key GMP_ACTIVITY_START"
  "key GMP_ACTIVITY_PRESET \<noteq> key GMP_ACTIVITY_PRESET_START"
  "key GMP_ACTIVITY_PRESET \<noteq> key GMP_ACTIVITY_CANCEL"
  "key GMP_ACTIVITY_START \<noteq> key GMP_ACTIVITY_PRESET_START"
  "key GMP_ACTIVITY_START \<noteq> key GMP_ACTIVITY_CANCEL"
  "key GMP_ACTIVITY_PRESET_START \<noteq> key GMP_ACTIVITY_CANCEL"
  by simp_all

fun activity_key :: "activity \<Rightarrow> string" where
  "activity_key PRESET = key GMP_ACTIVITY_PRESET"
| "activity_key START = key GMP_ACTIVITY_START"
| "activity_key PRESET_START = key GMP_ACTIVITY_PRESET_START"
| "activity_key CANCEL = key GMP_ACTIVITY_CANCEL"

lemma activity_key_inj [simp]: "activity_key a = activity_key b \<longleftrightarrow> a = b"
  by (cases a; cases b) simp_all

lemma activity_cast_int [simp]: "activity_cast (activity_int a) = Some a"
  by (cases a) (simp_all add: activity_cast_def)

text \<open>The invariant of the dictionary: the four entries it starts with, and zero elsewhere.\<close>

definition activity_map_ok :: "activity_map \<Rightarrow> bool" where
  "activity_map_ok am \<longleftrightarrow> (\<forall>a. am (activity_key a) = Some (activity_int a)) \<and>
     (\<forall>s v. am s = Some v \<longrightarrow> s \<notin> range activity_key \<longrightarrow> v = 0)"

lemma activity_range: "s \<in> range activity_key \<longleftrightarrow> s = key GMP_ACTIVITY_PRESET
    \<or> s = key GMP_ACTIVITY_START \<or> s = key GMP_ACTIVITY_PRESET_START \<or> s = key GMP_ACTIVITY_CANCEL"
  by (simp only: UNIV_activity image_insert image_empty activity_key.simps insert_iff empty_iff simp_thms)

lemma activity_map_ok_new [inv_intros]: "activity_map_ok new_activityMap"
  unfolding activity_map_ok_def activity_range
proof (intro conjI allI impI)
  fix a show "new_activityMap (activity_key a) = Some (activity_int a)"
    by (cases a) (simp_all add: new_activityMap_def)
qed (auto simp: new_activityMap_def split: if_splits)

text \<open>What the lookup of a string delivers.\<close>

definition activity_of :: "string \<Rightarrow> activity" where
  "activity_of s = (if s = activity_key START then START
     else if s = activity_key PRESET_START then PRESET_START
     else if s = activity_key CANCEL then CANCEL else PRESET)"

lemma activity_of_key [simp]: "activity_of (activity_key a) = a"
  by (cases a) (simp_all only: activity_of_def activity_key_inj activity.simps if_True if_False simp_thms)

lemma getActivity_run:
  assumes "activity_map_ok am"
  shows "sat (\<lambda>a am'. a = activity_of s \<and> activity_map_ok am' \<and> s \<in> dom am') (\<lambda>_ _. False) (getActivity s am)"
proof (cases "s \<in> range activity_key")
  case True
  then obtain a where s: "s = activity_key a" by blast
  with assms have "am s = Some (activity_int a)"
    by (simp add: activity_map_ok_def)
  with assms s show ?thesis
    by (simp add: getActivity_def wp dom_def)
next
  case False
  then have of: "activity_of s = PRESET" and ne: "\<And>a. activity_key a \<noteq> s"
    by (auto simp: activity_of_def simp del: activity_key.simps)
  have am: "am s = None \<or> am s = Some 0"
    using assms False by (cases "am s") (auto simp: activity_map_ok_def)
  then show ?thesis
  proof
    assume "am s = None"
    moreover have "activity_map_ok (am(s \<mapsto> 0))"
      using assms ne by (auto simp: activity_map_ok_def)
    ultimately show ?thesis
      by (simp add: getActivity_def wp of activity_cast_def)
  next
    assume "am s = Some 0"
    with assms show ?thesis
      by (simp add: getActivity_def wp of activity_cast_def dom_def)
  qed
qed

end
