(* ===== verification/Giapi_Util.thy ===== *)
theory Giapi_Util
  imports Giapi_Prog
begin

section \<open>Utilities: strings and timers\<close>

text \<open>\<open>StringUtil\<close> and \<open>TimeUtil\<close> of \<open>src/util\<close>.\<close>

subsection \<open>Strings\<close>

definition blank :: "char \<Rightarrow> bool" where
  "blank c \<longleftrightarrow> c = CHR '' '' \<or> c = CHR 0x09 \<or> c = CHR 0x0A"

text \<open>
  \<open>find_last_not_of\<close>; the position after it, or zero when every character is in the set.
\<close>

fun after_last_not :: "(char \<Rightarrow> bool) \<Rightarrow> string \<Rightarrow> nat" where
  "after_last_not P [] = 0"
| "after_last_not P (c # cs) =
     (let n = after_last_not P cs in if n = 0 \<and> P c then 0 else Suc n)"

definition isEmpty :: "string \<Rightarrow> bool" where
  "isEmpty str = (take (after_last_not blank str) str = [])"

lemma after_last_not_0: "after_last_not P s = 0 \<longleftrightarrow> (\<forall>c \<in> set s. P c)"
  by (induction s) (auto simp: Let_def)

lemma isEmpty_iff: "isEmpty s \<longleftrightarrow> (\<forall>c \<in> set s. blank c)"
  by (auto simp: isEmpty_def after_last_not_0)

subsection \<open>Timers\<close>

text \<open>
  The two times are read with \<open>gettimeofday\<close>, a parameter; they are undefined until read.
  The differences are computed with \<open>long\<close> and stored in an \<open>unsigned long long\<close>, so that a
  clock set back wraps around. The source throws \<^emph>\<open>pointers\<close> to exceptions, which the
  exception specifications do not allow.
\<close>

datatype time_unit = USEC | MSEC | SEC

record time_util =
  startTime :: "(i64 \<times> i64) option"
  endTime :: "(i64 \<times> i64) option"
  running :: bool
  finished :: bool

definition new_timer :: time_util where
  "new_timer = \<lparr>startTime = None, endTime = None, running = False, finished = False\<rparr>"

fun is_logic_error :: "exn \<Rightarrow> bool" where
  "is_logic_error InvalidArgument = True"
| "is_logic_error OutOfRange = True"
| "is_logic_error e = False"

definition startTimer :: "(i64 \<times> i64) option \<Rightarrow> (time_util, unit) prog" where
  "startTimer now = thenp (modifies (\<lambda>t. case now of None \<Rightarrow> t | Some v \<Rightarrow> t\<lparr>startTime := Some v\<rparr>))
     (thenp (modifies (\<lambda>t. t\<lparr>running := True\<rparr>)) (modifies (\<lambda>t. t\<lparr>finished := False\<rparr>)))"

definition stopTimer :: "(i64 \<times> i64) option \<Rightarrow> (time_util, unit) prog" where
  "stopTimer now = throw_spec is_logic_error (bindp (reads running) (\<lambda>r.
     if \<not> r then throw (LogicErrorPtr
       ''You must call TimeUtil::startTimer before TimeUtil::stopTimer'') else
     thenp (modifies (\<lambda>t. case now of None \<Rightarrow> t | Some v \<Rightarrow> t\<lparr>endTime := Some v\<rparr>))
       (thenp (modifies (\<lambda>t. t\<lparr>running := False\<rparr>)) (modifies (\<lambda>t. t\<lparr>finished := True\<rparr>)))))"

definition getElapsedTime :: "time_unit \<Rightarrow> (time_util, i64) prog" where
  "getElapsedTime u = throw_spec is_logic_error (bindp (reads finished) (\<lambda>d.
     if \<not> d then throw (LogicErrorPtr (''You must call TimeUtil::startTimer and ''
       @ ''TimeUtil::stopTimer before asking for the elapsed time'')) else
     bindp (reads startTime) (\<lambda>s. bindp (reads endTime) (\<lambda>e. case (s, e) of
       (Some (s_sec, s_usec), Some (e_sec, e_usec)) \<Rightarrow>
         (let seconds = e_sec - s_sec;
              useconds = seconds * 1000000 + e_usec - s_usec
          in case u of
             USEC \<Rightarrow> ret useconds
           | MSEC \<Rightarrow> ret (useconds div 1000)
           | SEC \<Rightarrow> ret seconds)
     | _ \<Rightarrow> undef))))"

definition getElapsedUSecs :: "(time_util, i64) prog" where
  "getElapsedUSecs = throw_spec is_logic_error (getElapsedTime USEC)"

definition getElapsedMSecs :: "(time_util, i64) prog" where
  "getElapsedMSecs = throw_spec is_logic_error (getElapsedTime MSEC)"

definition getElapsedSecs :: "(time_util, i64) prog" where
  "getElapsedSecs = throw_spec is_logic_error (getElapsedTime SEC)"

text \<open>A measurement: the three calls in the intended order.\<close>

definition measure_interval :: "i64 \<times> i64 \<Rightarrow> i64 \<times> i64 \<Rightarrow> time_unit \<Rightarrow> (time_util, i64) prog" where
  "measure_interval a b u = thenp (startTimer (Some a)) (thenp (stopTimer (Some b)) (getElapsedTime u))"

lemma measure_interval_run:
  "measure_interval (s1, u1) (s2, u2) u t =
     (Val (case u of USEC \<Rightarrow> (s2 - s1) * 1000000 + u2 - u1
        | MSEC \<Rightarrow> ((s2 - s1) * 1000000 + u2 - u1) div 1000
        | SEC \<Rightarrow> s2 - s1),
      \<lparr>startTime = Some (s1, u1), endTime = Some (s2, u2), running = False, finished = True\<rparr>)"
  by (cases u; cases t)
    (simp add: measure_interval_def startTimer_def stopTimer_def getElapsedTime_def
      thenp_def bindp_def throw_spec_def Let_def)+

end
