(* ===== verification/Connection_Manager.thy ===== *)
theory Connection_Manager
  imports Gmp_Protocol Giapi_Util
begin

section \<open>The connection to the broker\<close>

text \<open>
  \<open>gmp/ConnectionManager\<close>. The singleton's connection is the field \<open>conn\<close> of the world; the
  registered error handlers, sets ordered by address, are fields of \<open>manager\<close>. A handler is
  code of the application: the model records that it was invoked. The pauses between two
  attempts to reconnect are not modelled.
\<close>

definition broker_uri :: "string \<Rightarrow> string" where
  "broker_uri hostname = ''failover:(tcp://'' @ hostname @ '':61616'' @ ''?wireFormat=openwire''
     @ ''&connection.useAsyncSend=true'' @ '')''"

definition gmp_hostname :: "environment \<Rightarrow> string" where
  "gmp_hostname en = (let h = file_property en ''gmp.hostname'' in if isEmpty h then ''localhost'' else h)"

definition jfactory :: "string \<Rightarrow> ('a jms_scheme, ptr) prog" where
  "jfactory uri = bindp (reads (\<lambda>w. length (log w))) (\<lambda>p. thenp (jcall (CreateFactory uri SharedPtr)) (ret p))"

definition startup :: "('a jms_scheme, unit) prog" where
  "startup = throw_spec (throws_class GmpException) (
     bindp (reads (\<lambda>w. gmp_hostname (env w))) (\<lambda>h.
     catchp
       (bindp (jfactory (broker_uri h)) (\<lambda>f.
        bindp (jnew f Connection SharedPtr) (\<lambda>c.
        thenp (modifies (\<lambda>w. w\<lparr>conn := Some c\<rparr>))
       (thenp (jcall (StartConnection c))
        (jcall (SetExceptionListener c))))))
       is_cms (\<lambda>e. throw (gexn GmpException (''Problem connecting to GMP. '' @ exn_text e)))))"

definition Instance :: "('a jms_scheme, unit) prog" where
  "Instance = throw_spec (throws_class GmpException) (
     bindp (reads conn) (\<lambda>c. if c = None then startup else ret ()))"

definition createSession :: "('a jms_scheme, ptr) prog" where
  "createSession = throw_spec is_cms (bindp (reads conn) (\<lambda>c. case c of
     None \<Rightarrow> undef | Some p \<Rightarrow> jnew p Session SharedPtr))"

subsection \<open>Error handlers\<close>

datatype handler_run = RunFunction nat | RunObject nat

record manager = jms +
  errorHandlersFunctions :: "nat list"
  errorHandlerObjects :: "nat list"
  invoked :: "handler_run list"

definition set_insert :: "nat \<Rightarrow> nat list \<Rightarrow> nat list" where
  "set_insert x xs = (if x \<in> set xs then xs else insort x xs)"

definition registerOperation :: "nat \<Rightarrow> (manager, unit) prog" where
  "registerOperation f = modifies (\<lambda>s. s\<lparr>errorHandlersFunctions := set_insert f (errorHandlersFunctions s)\<rparr>)"

definition registerHandler :: "nat \<Rightarrow> (manager, unit) prog" where
  "registerHandler h = modifies (\<lambda>s. s\<lparr>errorHandlerObjects := set_insert h (errorHandlerObjects s)\<rparr>)"

text \<open>\<open>GiapiUtil::registerGmpErrorHandler\<close>, for functions and for objects.\<close>

definition registerGmpErrorHandler_fun :: "nat \<Rightarrow> (manager, unit) prog" where
  "registerGmpErrorHandler_fun f = throw_spec (throws_class CommunicationException) (
     catchp (thenp Instance (registerOperation f)) is_cms
       (\<lambda>e. throw (gexn CommunicationException (''Trouble using GIAPI Utility facilities '' @ exn_text e))))"

definition registerGmpErrorHandler_obj :: "nat \<Rightarrow> (manager, unit) prog" where
  "registerGmpErrorHandler_obj h = throw_spec (throws_class CommunicationException) (
     catchp (thenp Instance (registerHandler h)) is_cms
       (\<lambda>e. throw (gexn CommunicationException (''Trouble using GIAPI Utility facilities '' @ exn_text e))))"

text \<open>
  The reconnection loop may run for ever, so it has fuel: the value tells whether the loop
  has ended. Only \<open>GmpException\<close> is caught.
\<close>

fun reconnect :: "nat \<Rightarrow> (manager, bool) prog" where
  "reconnect 0 = ret False"
| "reconnect (Suc n) = bindp
     (catchp (thenp startup (ret True)) (throws_class GmpException) (\<lambda>e. ret False))
     (\<lambda>connected. if connected then ret True else reconnect n)"

fun run_functions :: "nat list \<Rightarrow> (manager, unit) prog" where
  "run_functions [] = ret ()"
| "run_functions (f # fs) = thenp (modifies (\<lambda>s. s\<lparr>invoked := invoked s @ [RunFunction f]\<rparr>)) (run_functions fs)"

fun run_objects :: "nat list \<Rightarrow> (manager, unit) prog" where
  "run_objects [] = ret ()"
| "run_objects (h # hs) = thenp (modifies (\<lambda>s. s\<lparr>invoked := invoked s @ [RunObject h]\<rparr>)) (run_objects hs)"

definition onException :: "nat \<Rightarrow> (manager, bool) prog" where
  "onException fuel =
     thenp (bindp (reads conn) (\<lambda>c. case c of None \<Rightarrow> ret () | Some p \<Rightarrow> jcall (StopConnection p)))
    (thenp (modifies (\<lambda>s. s\<lparr>conn := None\<rparr>))
    (bindp (reconnect fuel) (\<lambda>connected. if \<not> connected then ret False else
     bindp (reads errorHandlersFunctions) (\<lambda>fs.
     thenp (run_functions fs)
    (bindp (reads errorHandlerObjects) (\<lambda>hs.
     thenp (run_objects hs) (ret True)))))))"

subsection \<open>Worlds\<close>

text \<open>
  The invariant every operation keeps: the log is well formed and the connection, if there
  is one, is alive. A world is later than another when its log is longer and no object that
  existed has been deleted meanwhile.
\<close>

definition world_ok :: "'a jms_scheme \<Rightarrow> bool" where
  "world_ok w \<longleftrightarrow> log_wf (log w) \<and> (\<forall>c. conn w = Some c \<longrightarrow> alive (log w) c)"

definition log_later :: "jms_log \<Rightarrow> jms_log \<Rightarrow> bool" where
  "log_later l l' \<longleftrightarrow> suffix l l' \<and> (\<forall>p < length l. deleted p l' \<longrightarrow> deleted p l)"

lemma log_later_refl [simp]: "log_later l l"
  by (simp add: log_later_def)

lemma log_later_trans: "log_later a b \<Longrightarrow> log_later b c \<Longrightarrow> log_later a c"
  by (auto simp: log_later_def dest: suffix_length_le intro: suffix_order.trans)

lemma log_later_cons [simp]:
  "\<forall>p. c = Delete p \<longrightarrow> b \<longrightarrow> length l \<le> p \<Longrightarrow> log_later l l' \<Longrightarrow> log_later l ((c, b) # l')"
  by (auto simp: log_later_def intro: suffix_ConsI)

lemma log_later_puts [simp]: "log_later l l' \<Longrightarrow> log_later l (puts_log m xs @ l')"
  by (auto simp: log_later_def intro: suffix_appendI)

lemma log_later_alive: "log_later l l' \<Longrightarrow> alive l p \<Longrightarrow> alive l' p"
  by (auto simp: log_later_def alive_def dest: suffix_length_le)

lemma obj_at_append [simp]: "p < length l \<Longrightarrow> obj_at p (k @ l) = obj_at p l"
  by (induction k) simp_all

lemma log_later_obj_at: "log_later l l' \<Longrightarrow> p < length l \<Longrightarrow> obj_at p l' = obj_at p l"
  by (auto simp: log_later_def suffix_def)

lemma log_later_deleted: "log_later l l' \<Longrightarrow> p < length l \<Longrightarrow> deleted p l' \<Longrightarrow> deleted p l"
  by (simp add: log_later_def)

lemma alive_less: "alive l p \<Longrightarrow> p < length l"
  by (simp add: alive_def)

lemma alive_not_deleted: "alive l p \<Longrightarrow> \<not> deleted p l"
  by (simp add: alive_def)

lemma world_ok_log [simp]:
  "world_ok w \<Longrightarrow> log_later (log w) l \<Longrightarrow> world_ok (w\<lparr>log := l\<rparr>) \<longleftrightarrow> log_wf l"
  by (auto simp: world_ok_def intro: log_later_alive)

text \<open>What a constructor leaves in place whether it succeeds or fails.\<close>

definition calm :: "'a jms_scheme \<Rightarrow> 'b jms_scheme \<Rightarrow> bool" where
  "calm w w' \<longleftrightarrow> world_ok w' \<and> log_later (log w) (log w') \<and> env w' = env w \<and>
     sent (log w') = sent (log w) \<and> raw_at (log w') = raw_at (log w)"

definition quiet :: "'a jms_scheme \<Rightarrow> 'a jms_scheme \<Rightarrow> bool" where
  "quiet w w' \<longleftrightarrow> calm w w' \<and> jms.more w' = jms.more w"

lemma calm_trans: "calm a b \<Longrightarrow> calm b c \<Longrightarrow> calm a c"
  by (auto simp: calm_def intro: log_later_trans)

lemma calm_refl: "world_ok w \<Longrightarrow> calm w w"
  by (simp add: calm_def)

lemma calm_ok: "calm w w' \<Longrightarrow> world_ok w'"
  by (simp add: calm_def)

lemma calm_alive: "calm w w' \<Longrightarrow> alive (log w) p \<Longrightarrow> alive (log w') p"
  by (auto simp: calm_def intro: log_later_alive)

lemma calm_obj_at: "calm w w' \<Longrightarrow> alive (log w) p \<Longrightarrow> obj_at p (log w') = obj_at p (log w)"
  by (auto simp: calm_def dest: alive_less log_later_obj_at)

lemma quiet_calm: "quiet w w' \<Longrightarrow> calm w w'"
  by (simp add: quiet_def)

lemma quiet_trans: "quiet a b \<Longrightarrow> quiet b c \<Longrightarrow> quiet a c"
  by (auto simp: quiet_def intro: calm_trans)

lemma quiet_refl: "world_ok w \<Longrightarrow> quiet w w"
  by (simp add: quiet_def calm_refl)

lemma startup_sat:
  assumes "world_ok w"
  shows "sat (\<lambda>_ w'. quiet w w' \<and> (\<exists>c. conn w' = Some c \<and> obj_at c (log w') = Some Connection \<and>
        (SetExceptionListener c, True) \<in> set (log w') \<and> (StartConnection c, True) \<in> set (log w')))
     (\<lambda>e w'. quiet w w' \<and> throws_class GmpException e) (startup w)"
  using assms alive_fresh [of "log w"]
  unfolding startup_def jfactory_def wp
  by (intro sat_jcall sat_jnew conjI)
    (auto simp: wp world_ok_def quiet_def calm_def log_wf_deleted alive_def less_Suc_eq
      intro!: sat_jcall sat_jnew dest: log_wf_deleted)

lemma Instance_sat:
  assumes "world_ok w"
  shows "sat (\<lambda>_ w'. quiet w w' \<and> (\<exists>c. conn w' = Some c \<and> alive (log w') c))
     (\<lambda>e w'. quiet w w' \<and> throws_class GmpException e) (Instance w)"
proof (cases "conn w")
  case None
  with assms show ?thesis
    unfolding Instance_def wp
    by (auto intro!: sat_mono [OF startup_sat] simp: world_ok_def quiet_def calm_def)
next
  case (Some c)
  with assms show ?thesis
    by (simp add: Instance_def wp quiet_refl) (simp add: world_ok_def)
qed

lemma createSession_sat:
  assumes "world_ok w" and "conn w = Some c"
  shows "sat (\<lambda>s w'. quiet w w' \<and> alive (log w') s \<and> obj_at s (log w') = Some Session \<and> conn w' = Some c)
     (\<lambda>e w'. quiet w w' \<and> is_cms e) (createSession w)"
  using assms alive_fresh [of "log w"]
  by (auto simp: createSession_def wp quiet_def calm_def world_ok_def alive_def less_Suc_eq intro!: sat_jnew)

subsection \<open>Recovery from a lost connection\<close>

lemma manager_more:
  assumes "jms.more s' = jms.more (s :: manager)"
  shows "invoked s' = invoked s" "errorHandlersFunctions s' = errorHandlersFunctions s"
    "errorHandlerObjects s' = errorHandlerObjects s"
  using assms by (cases s; cases s'; simp)+

lemma run_functions_run: "run_functions fs s = (Val (), s\<lparr>invoked := invoked s @ map RunFunction fs\<rparr>)"
  by (induction fs arbitrary: s) simp_all

lemma run_objects_run: "run_objects hs s = (Val (), s\<lparr>invoked := invoked s @ map RunObject hs\<rparr>)"
  by (induction hs arbitrary: s) simp_all

lemma reconnect_sat:
  assumes "world_ok s"
  shows "sat (\<lambda>done s'. quiet s s' \<and> (done \<longrightarrow> (\<exists>c. conn s' = Some c \<and> (StartConnection c, True) \<in> set (log s'))))
     (\<lambda>_ _. False) (reconnect n s)"
  using assms
proof (induction n arbitrary: s)
  case 0
  then show ?case by (simp add: quiet_refl)
next
  case (Suc n)
  from startup_sat [OF Suc.prems] show ?case
  proof (cases "startup s" rule: res_cases)
    case (2 e s1)
    with startup_sat [OF Suc.prems] have q: "quiet s s1" "throws_class GmpException e" by auto
    then have "world_ok s1" by (simp add: quiet_def calm_def)
    from Suc.IH [OF this] show ?thesis
      by (auto simp: wp 2 q(2) intro: quiet_trans [OF q(1)] elim!: sat_mono)
  qed (auto simp: wp)
qed

text \<open>The state after a number of attempts.\<close>

fun attempts :: "nat \<Rightarrow> manager \<Rightarrow> manager" where
  "attempts 0 s = s"
| "attempts (Suc k) s = attempts k (snd (startup s))"

lemma reconnect_succeeds:
  assumes "world_ok s" and "\<forall>j < k. fst (startup (attempts j s)) \<noteq> Val ()"
    and "fst (startup (attempts k s)) = Val ()" and "k < n"
  shows "reconnect n s = (Val True, attempts (Suc k) s)"
  using assms
proof (induction k arbitrary: s n)
  case 0
  then obtain m where "n = Suc m" by (cases n) auto
  with 0 show ?case
    by (cases "startup s") (simp add: bindp_def thenp_def catchp_def)
next
  case (Suc k)
  then obtain m where n: "n = Suc m" "k < m" by (cases n) auto
  have "fst (startup s) \<noteq> Val ()"
    using Suc.prems(2) by (metis attempts.simps(1) zero_less_Suc)
  with startup_sat [OF Suc.prems(1)] obtain e s1
    where s1: "startup s = (Exn e, s1)" "throws_class GmpException e" "quiet s s1"
    by (cases "startup s" rule: res_cases) auto
  have "reconnect m s1 = (Val True, attempts (Suc k) s1)"
  proof (rule Suc.IH)
    show "world_ok s1" using s1(3) by (simp add: quiet_def calm_def)
    show "\<forall>j<k. fst (startup (attempts j s1)) \<noteq> Val ()"
    proof (intro allI impI)
      fix j assume "j < k"
      then show "fst (startup (attempts j s1)) \<noteq> Val ()"
        using Suc.prems(2) s1(1) by (metis Suc_mono attempts.simps(2) snd_conv)
    qed
    show "fst (startup (attempts k s1)) = Val ()"
      using Suc.prems(3) s1(1) by simp
  qed (rule n(2))
  with s1 n show ?case
    by (simp add: bindp_def thenp_def catchp_def)
qed

end
