(* ===== verification/Jms_Producer.thy ===== *)
theory Jms_Producer
  imports Connection_Manager
begin

section \<open>Message producers\<close>

text \<open>
  \<open>util/jms/JmsProducer\<close> and the classes that send one message per call: \<open>JmsLogProducer\<close>,
  \<open>JmsObsEventProducer\<close>, \<open>JmsFileEventsProducer\<close>, \<open>JmsPcsUpdater\<close> and
  \<open>CompletionInfoProducer\<close>. They share a contract, the locale \<open>message_post\<close>: a call sends
  one message to the destination of the producer, or none and throws; the message object is
  deleted exactly once on every path.
\<close>

subsection \<open>Construction\<close>

text \<open>The members a constructor fills in, and what an object has once it is constructed.\<close>

record members = jms +
  m_session :: "ptr option"
  m_destination :: "ptr option"
  m_producer :: "ptr option"
  m_consumer :: "ptr option"

record producer =
  p_session :: ptr
  p_destination :: "ptr option"
  p_producer :: ptr

definition with_members :: "(members, 'a) prog \<Rightarrow> (jms, 'a) prog" where
  "with_members m = (\<lambda>w. case m (jms.extend w (members.fields None None None None)) of
     (r, f) \<Rightarrow> (r, jms.truncate f))"

definition close_quietly :: "(members \<Rightarrow> ptr option) \<Rightarrow> (members, unit) prog" where
  "close_quietly get = catchp (bindp (reads get) (\<lambda>p. case p of None \<Rightarrow> ret () | Some q \<Rightarrow> jcall (CloseObj q)))
     is_cms (\<lambda>e. ret ())"

definition cleanup :: "(members, unit) prog" where
  "cleanup = thenp (close_quietly m_producer) (close_quietly m_session)"

text \<open>The body all these constructors have, with the destination and the text of the error.\<close>

definition open_producer :: "jms_obj \<Rightarrow> string \<Rightarrow> (jms, producer) prog" where
  "open_producer dest err = throw_spec (throws_class CommunicationException) (with_members (
     catchp
       (thenp Instance
       (bindp createSession (\<lambda>s.
        thenp (modifies (\<lambda>w. w\<lparr>m_session := Some s\<rparr>))
       (bindp (jnew s dest SharedPtr) (\<lambda>d.
        thenp (modifies (\<lambda>w. w\<lparr>m_destination := Some d\<rparr>))
       (bindp (jnew s (Producer (Some d)) SharedPtr) (\<lambda>p.
        thenp (modifies (\<lambda>w. w\<lparr>m_producer := Some p\<rparr>))
       (ret \<lparr>p_session = s, p_destination = Some d, p_producer = p\<rparr>))))))))
       is_cms (\<lambda>e. thenp cleanup (throw (gexn CommunicationException (err @ exn_text e))))))"

text \<open>
  The destructors of these classes close the producer and the session, and swallow what the
  library throws. A member that has been constructed is destroyed when the rest of the
  constructor of its owner throws.
\<close>

definition destroy_producer :: "producer \<Rightarrow> (jms, unit) prog" where
  "destroy_producer p =
     thenp (catchp (jcall (CloseObj (p_producer p))) is_cms (\<lambda>e. ret ()))
       (catchp (jcall (CloseObj (p_session p))) is_cms (\<lambda>e. ret ()))"

definition unwind :: "('s, unit) prog \<Rightarrow> ('s, 'a) prog \<Rightarrow> ('s, 'a) prog" where
  "unwind destructor rest = catchp rest (\<lambda>e. True) (\<lambda>e. thenp destructor (throw e))"

definition new_JmsProducer :: "string \<Rightarrow> (jms, producer) prog" where
  "new_JmsProducer queueName = open_producer (Topic queueName) ''Trouble initializing request producer :''"

definition new_JmsLogProducer :: "(jms, producer) prog" where
  "new_JmsLogProducer = new_JmsProducer (key GMP_SERVICES_LOG_DESTINATION)"

definition new_JmsObsEventProducer :: "(jms, producer) prog" where
  "new_JmsObsEventProducer = new_JmsProducer (key GMP_DATA_OBSEVENT_DESTINATION)"

definition new_JmsFileEventsProducer :: "(jms, producer) prog" where
  "new_JmsFileEventsProducer = new_JmsProducer (key GMP_DATA_FILEEVENT_DESTINATION)"

definition new_JmsPcsUpdater :: "(jms, producer) prog" where
  "new_JmsPcsUpdater = new_JmsProducer (key GMP_PCS_UPDATE_DESTINATION)"

definition new_CompletionInfoProducer :: "(jms, producer) prog" where
  "new_CompletionInfoProducer = open_producer (Queue (key GMP_COMPLETION_INFO))
     ''Trouble initializing completion info producer :''"

definition new_RequestProducer :: "(jms, producer) prog" where
  "new_RequestProducer = open_producer (Queue (key GMP_UTIL_REQUEST_DESTINATION))
     ''Trouble initializing request producer :''"

subsection \<open>Posting\<close>

definition send :: "producer \<Rightarrow> ptr \<Rightarrow> ('a jms_scheme, unit) prog" where
  "send p m = jcall (Send (p_producer p) None m)"

fun level_int :: "log_level \<Rightarrow> i32 option" where
  "level_int L_INFO = Some 1"
| "level_int L_WARNING = Some 2"
| "level_int L_SEVERE = Some 3"
| "level_int L_end = None"

definition postLog :: "producer \<Rightarrow> log_level \<Rightarrow> string \<Rightarrow> (jms, unit) prog" where
  "postLog p level logMsg = throw_spec (throws_class CommunicationException) (
     thenp (set_msg None)
    (catchp
       (case level_int level of None \<Rightarrow> ret () | Some intLevel \<Rightarrow>
         bindp (jnew (p_session p) TextMessage RawPtr) (\<lambda>m.
         thenp (set_msg (Some m))
        (thenp (jput m (IntProperty (key GMP_SERVICES_LOG_LEVEL) intLevel))
        (thenp (jput m (SetText logMsg))
        (thenp (send p m) (jdelete m))))))
       is_cms (\<lambda>e. thenp delete_msg (throw (gexn CommunicationException
         (''Problem posting log info : '' @ logMsg @ ''('' @ exn_text e @ '')''))))))"

fun event_name :: "observation_event \<Rightarrow> string" where
  "event_name OBS_END_ACQ = ''OBS_END_ACQ''"
| "event_name OBS_END_DSET_WRITE = ''OBS_END_DSET_WRITE''"
| "event_name OBS_END_READOUT = ''OBS_END_READOUT''"
| "event_name OBS_PREP = ''OBS_PREP''"
| "event_name OBS_START_ACQ = ''OBS_START_ACQ''"
| "event_name OBS_START_DSET_WRITE = ''OBS_START_DSET_WRITE''"
| "event_name OBS_START_READOUT = ''OBS_START_READOUT''"

definition postEvent :: "producer \<Rightarrow> observation_event \<Rightarrow> string \<Rightarrow> (jms, int) prog" where
  "postEvent p event dataLabel = throw_spec (throws_class CommunicationException) (
     if isEmpty dataLabel then ret status_ERROR else
     thenp (set_msg None)
    (thenp (catchp
        (bindp (jnew (p_session p) PlainMessage RawPtr) (\<lambda>m.
         thenp (set_msg (Some m))
        (thenp (jput m (StringProperty (key GMP_DATA_OBSEVENT_NAME) (event_name event)))
        (thenp (jput m (StringProperty (key GMP_DATA_OBSEVENT_FILENAME) dataLabel))
        (thenp (send p m) (jdelete m))))))
        is_cms (\<lambda>e. thenp delete_msg (throw (gexn CommunicationException
         (''Problem sending observation event '' @ event_name event
           @ '' associated to filename: '' @ dataLabel)))))
      (ret status_OK)))"

datatype file_type = ANCILLARY_TYPE | INTERMEDIATE_TYPE

fun file_type_int :: "file_type \<Rightarrow> i32" where
  "file_type_int ANCILLARY_TYPE = 0"
| "file_type_int INTERMEDIATE_TYPE = 1"

definition sendFileEventMessage ::
  "producer \<Rightarrow> file_type \<Rightarrow> string \<Rightarrow> string \<Rightarrow> string \<Rightarrow> (jms, int) prog" where
  "sendFileEventMessage p ty filename dataLabel hint =
     (if isEmpty filename then ret status_ERROR
      else if isEmpty dataLabel then ret status_ERROR else
     thenp (set_msg None)
    (thenp (catchp
        (bindp (jnew (p_session p) MapMessage RawPtr) (\<lambda>m.
         thenp (set_msg (Some m))
        (thenp (jput m (IntProperty (key GMP_DATA_FILEEVENT_TYPE) (file_type_int ty)))
        (thenp (jput m (MapString (key GMP_DATA_FILEEVENT_FILENAME) filename))
        (thenp (jput m (MapString (key GMP_DATA_FILEEVENT_DATALABEL) dataLabel))
        (thenp (if ty = INTERMEDIATE_TYPE \<and> \<not> isEmpty hint
                then jput m (MapString (key GMP_DATA_FILEEVENT_HINT) hint) else ret ())
        (thenp (send p m) (jdelete m))))))))
        is_cms (\<lambda>e. thenp delete_msg (throw (gexn CommunicationException
         (''Problem sending file event '' @ filename @ '' associated to datalabel: '' @ dataLabel)))))
      (ret status_OK)))"

definition postAncillaryFileEvent :: "producer \<Rightarrow> string \<Rightarrow> string \<Rightarrow> (jms, int) prog" where
  "postAncillaryFileEvent p filename dataLabel = throw_spec (throws_class CommunicationException)
     (sendFileEventMessage p ANCILLARY_TYPE filename dataLabel [])"

definition postIntermediateFileEvent :: "producer \<Rightarrow> string \<Rightarrow> string \<Rightarrow> string \<Rightarrow> (jms, int) prog" where
  "postIntermediateFileEvent p filename dataLabel hint = throw_spec (throws_class CommunicationException)
     (sendFileEventMessage p INTERMEDIATE_TYPE filename dataLabel hint)"

text \<open>
  The loop over the array of the caller; reading behind its end is undefined. The number of
  rounds left is the argument of the recursion.
\<close>

fun write_zernikes :: "ptr \<Rightarrow> f64 list \<Rightarrow> nat \<Rightarrow> nat \<Rightarrow> (jms, unit) prog" where
  "write_zernikes m zs i 0 = ret ()"
| "write_zernikes m zs i (Suc n) =
     (if i < length zs then thenp (jput m (WDouble (zs ! i))) (write_zernikes m zs (Suc i) n) else undef)"

definition postPcsUpdate :: "producer \<Rightarrow> f64 list \<Rightarrow> i32 \<Rightarrow> (jms, int) prog" where
  "postPcsUpdate p zernikes sz = throw_spec (throws_class GiapiException) (
     if sint sz \<le> 0 then ret status_ERROR else
     thenp (set_msg None)
    (thenp (catchp
        (bindp (jnew (p_session p) BytesMessage RawPtr) (\<lambda>m.
         thenp (set_msg (Some m))
        (thenp (jput m (WInt sz))
        (thenp (write_zernikes m zernikes 0 (nat (sint sz)))
        (thenp (send p m) (jdelete m))))))
        is_cms (\<lambda>e. thenp delete_msg (throw (gexn CommunicationException
         (''Problem posting updates to the PCS: '' @ exn_text e)))))
      (ret status_OK)))"

definition postCompletionInfo :: "producer \<Rightarrow> action_id \<Rightarrow> handler_response \<Rightarrow> (jms, int) prog" where
  "postCompletionInfo p ident response = throw_spec (throws_class PostException) (
     thenp (set_msg None)
    (thenp (catchp
        (bindp (jnew (p_session p) MapMessage RawPtr) (\<lambda>m.
         thenp (set_msg (Some m))
        (thenp (makeHandlerResponseMsg m response)
        (thenp (jput m (IntProperty (key GMP_ACTIONID_PROP) ident))
        (send p m)))))
        is_cms (\<lambda>e. thenp delete_msg (throw (gexn PostException
         (''Problem posting completion info : '' @ exn_text e)))))
    (thenp delete_msg (ret status_OK))))"

subsection \<open>Construction leaves no trace\<close>

lemma obj_at_less: "obj_at p l = Some x \<Longrightarrow> p < length l"
  using obj_at_late by (metis not_le_imp_less option.distinct(1))

text \<open>A producer that can be used, and where its messages go.\<close>

definition ready :: "producer \<Rightarrow> jms_obj \<Rightarrow> 'a jms_scheme \<Rightarrow> bool" where
  "ready p d w \<longleftrightarrow> world_ok w \<and> alive (log w) (p_session p) \<and> alive (log w) (p_producer p) \<and>
     obj_at (p_session p) (log w) = Some Session \<and>
     obj_at (p_producer p) (log w) = Some (Producer (p_destination p)) \<and>
     (\<exists>q. p_destination p = Some q \<and> obj_at q (log w) = Some d)"

lemma ready_later:
  assumes "ready p d w" and "world_ok w'" and "log_later (log w) (log w')"
  shows "ready p d w'"
  using assms
  by (auto simp: ready_def log_later_obj_at alive_less obj_at_less intro: log_later_alive)

lemma sat_with_members:
  "sat Q E (with_members m w) \<longleftrightarrow> sat (\<lambda>x f. Q x (jms.truncate f)) (\<lambda>e f. E e (jms.truncate f))
     (m (jms.extend w (members.fields None None None None)))"
  by (cases "m (jms.extend w (members.fields None None None None))" rule: res_cases)
    (simp_all add: with_members_def)

lemma frame_fields [simp]:
  "log (jms.extend w f) = log w" "env (jms.extend w f) = env w" "conn (jms.extend w f) = conn w"
  "log (jms.truncate v) = log v" "env (jms.truncate v) = env v" "conn (jms.truncate v) = conn v"
  by (simp_all add: jms.extend_def jms.truncate_def)

lemma world_ok_frame [simp]:
  "world_ok (jms.extend w f) = world_ok w" "world_ok (jms.truncate v) = world_ok v"
  by (simp_all add: world_ok_def)

lemma calm_frame [simp]:
  "calm (jms.extend w f) v = calm w v" "calm v (jms.truncate v') = calm v v'"
  by (simp_all add: calm_def)

lemma ready_frame [simp]: "ready p d (jms.truncate v) = ready p d v"
  by (simp add: ready_def)

definition members_alive :: "members \<Rightarrow> bool" where
  "members_alive f \<longleftrightarrow> world_ok f \<and> (\<forall>p. m_session f = Some p \<or> m_producer f = Some p \<or> m_consumer f = Some p \<longrightarrow> alive (log f) p)"

lemma close_quietly_sat:
  assumes "world_ok f" and "\<And>p. get f = Some p \<Longrightarrow> alive (log f) p"
  shows "sat (\<lambda>_ f'. quiet f f') (\<lambda>_ _. False) (close_quietly get f)"
  using assms
  by (cases "get f")
    (auto simp: close_quietly_def wp quiet_refl quiet_def calm_def world_ok_def alive_def intro!: sat_jcall)

lemma members_more:
  assumes "jms.more f' = jms.more (f :: members)"
  shows "m_session f' = m_session f" "m_producer f' = m_producer f" "m_destination f' = m_destination f"
    "m_consumer f' = m_consumer f"
  using assms by (cases f; cases f'; simp)+

lemma cleanup_sat:
  assumes "members_alive f"
  shows "sat (\<lambda>_ f'. calm f f') (\<lambda>_ _. False) (cleanup f)"
  unfolding cleanup_def wp
proof (rule sat_mono [OF close_quietly_sat])
  show "world_ok f" using assms by (simp add: members_alive_def)
  show "\<And>p. m_producer f = Some p \<Longrightarrow> alive (log f) p" using assms by (simp add: members_alive_def)
next
  fix s assume q: "quiet f s"
  have "sat (\<lambda>_ f'. quiet s f') (\<lambda>_ _. False) (close_quietly m_session s)"
  proof (rule close_quietly_sat)
    show "world_ok s" using q by (simp add: quiet_def calm_def)
    fix p assume "m_session s = Some p"
    then have "alive (log f) p"
      using assms members_more [of s f] q by (simp add: members_alive_def quiet_def)
    then show "alive (log s) p" using q by (auto simp: quiet_def intro: calm_alive)
  qed
  then show "sat (\<lambda>_ f'. calm f f') (\<lambda>_ _. False) (close_quietly m_session s)"
    using q by (auto elim!: sat_mono simp: quiet_def intro: calm_trans)
qed simp

definition open_body :: "jms_obj \<Rightarrow> (members, producer) prog" where
  "open_body dest =
     thenp Instance
       (bindp createSession (\<lambda>s.
        thenp (modifies (\<lambda>w. w\<lparr>m_session := Some s\<rparr>))
       (bindp (jnew s dest SharedPtr) (\<lambda>d.
        thenp (modifies (\<lambda>w. w\<lparr>m_destination := Some d\<rparr>))
       (bindp (jnew s (Producer (Some d)) SharedPtr) (\<lambda>p.
        thenp (modifies (\<lambda>w. w\<lparr>m_producer := Some p\<rparr>))
       (ret \<lparr>p_session = s, p_destination = Some d, p_producer = p\<rparr>)))))))"

lemma open_tail_sat:
  assumes f: "world_ok f" "alive (log f) s" "obj_at s (log f) = Some Session" "m_producer f = None" "m_consumer f = None"
    and dest: "dest = Topic n \<or> dest = Queue n"
  shows "sat (\<lambda>p f'. ready p dest f' \<and> calm f f') (\<lambda>e f'. is_cms e \<and> calm f f' \<and> members_alive f')
    (thenp (modifies (\<lambda>w. w\<lparr>m_session := Some s\<rparr>))
       (bindp (jnew s dest SharedPtr) (\<lambda>d.
        thenp (modifies (\<lambda>w. w\<lparr>m_destination := Some d\<rparr>))
       (bindp (jnew s (Producer (Some d)) SharedPtr) (\<lambda>p.
        thenp (modifies (\<lambda>w. w\<lparr>m_producer := Some p\<rparr>))
       (ret \<lparr>p_session = s, p_destination = Some d, p_producer = p\<rparr>))))) f)"
proof -
  have ptrs: "pointers (Create s dest SharedPtr) = [s]"
    using dest by auto
  from f alive_fresh [of "log f"] show ?thesis
    unfolding wp
    by (intro sat_jnew)
      (auto simp: ptrs wp world_ok_def calm_def ready_def members_alive_def alive_def less_Suc_eq
        intro!: sat_jnew dest: log_wf_deleted)
qed

lemma open_body_sat:
  assumes f: "world_ok f" "m_session f = None" "m_producer f = None" "m_consumer f = None"
    and dest: "dest = Topic n \<or> dest = Queue n"
  shows "sat (\<lambda>p f'. ready p dest f' \<and> calm f f')
    (\<lambda>e f'. (is_cms e \<or> throws_class CommunicationException e \<and> \<not> is_cms e) \<and> calm f f' \<and> members_alive f')
    (open_body dest f)"
  unfolding open_body_def
proof (subst sat_thenp, rule sat_mono [OF Instance_sat [OF f(1)]])
  fix u s
  assume "quiet f s \<and> (\<exists>c. conn s = Some c \<and> alive (log s) c)"
  then obtain c where s: "quiet f s" "conn s = Some c" by blast
  then have ok: "world_ok s" "calm f s" "m_producer s = None" "m_session s = None" "m_consumer s = None"
    using members_more [of s f] f by (auto simp: quiet_def intro: calm_ok)
  show "sat (\<lambda>p f'. ready p dest f' \<and> calm f f')
      (\<lambda>e f'. (is_cms e \<or> throws_class CommunicationException e \<and> \<not> is_cms e) \<and> calm f f' \<and> members_alive f')
      (bindp createSession (\<lambda>s.
        thenp (modifies (\<lambda>w. w\<lparr>m_session := Some s\<rparr>))
       (bindp (jnew s dest SharedPtr) (\<lambda>d.
        thenp (modifies (\<lambda>w. w\<lparr>m_destination := Some d\<rparr>))
       (bindp (jnew s (Producer (Some d)) SharedPtr) (\<lambda>p.
        thenp (modifies (\<lambda>w. w\<lparr>m_producer := Some p\<rparr>))
       (ret \<lparr>p_session = s, p_destination = Some d, p_producer = p\<rparr>)))))) s)"
  proof (subst sat_bindp, rule sat_mono [OF createSession_sat [OF ok(1) s(2)]])
    fix x t assume t: "quiet s t \<and> alive (log t) x \<and> obj_at x (log t) = Some Session \<and> conn t = Some c"
    then have "world_ok t" "m_producer t = None" "m_consumer t = None" "calm f t"
      using members_more [of t s] ok by (auto simp: quiet_def intro: calm_ok calm_trans)
    with t dest show "sat (\<lambda>p f'. ready p dest f' \<and> calm f f')
        (\<lambda>e f'. (is_cms e \<or> throws_class CommunicationException e \<and> \<not> is_cms e) \<and> calm f f' \<and> members_alive f')
        (thenp (modifies (\<lambda>w. w\<lparr>m_session := Some x\<rparr>))
         (bindp (jnew x dest SharedPtr) (\<lambda>d.
          thenp (modifies (\<lambda>w. w\<lparr>m_destination := Some d\<rparr>))
         (bindp (jnew x (Producer (Some d)) SharedPtr) (\<lambda>p.
          thenp (modifies (\<lambda>w. w\<lparr>m_producer := Some p\<rparr>))
         (ret \<lparr>p_session = x, p_destination = Some d, p_producer = p\<rparr>))))) t)"
      by (intro sat_mono [OF open_tail_sat [where n = n]]) (auto intro: calm_trans)
  next
    fix e t assume "quiet s t \<and> is_cms e"
    then show "(is_cms e \<or> throws_class CommunicationException e \<and> \<not> is_cms e) \<and> calm f t \<and> members_alive t"
      using members_more [of t s] ok by (auto simp: quiet_def members_alive_def intro: calm_ok calm_trans)
  qed
next
  fix e s assume e: "quiet f s \<and> throws_class GmpException e"
  then have "throws_class CommunicationException e \<and> \<not> is_cms e"
    by (cases e) (auto intro: exn_is_a_trans exn_is_a_simps)
  with e show "(is_cms e \<or> throws_class CommunicationException e \<and> \<not> is_cms e) \<and> calm f s \<and> members_alive s"
    using members_more [of s f] f by (auto simp: quiet_def members_alive_def intro: calm_ok)
qed

lemma open_producer_sat:
  assumes w: "world_ok w" and dest: "dest = Topic n \<or> dest = Queue n"
  shows "sat (\<lambda>p w'. ready p dest w' \<and> calm w w')
    (\<lambda>e w'. throws_class CommunicationException e \<and> calm w w') (open_producer dest err w)"
proof -
  let ?f = "jms.extend w (members.fields None None None None)"
  have f: "world_ok ?f" "m_session ?f = None" "m_producer ?f = None" "m_consumer ?f = None"
    using w by (simp_all add: jms.extend_def members.fields_def world_ok_def)
  show ?thesis
    unfolding open_producer_def open_body_def [symmetric] sat_throw_spec sat_with_members sat_catchp
  proof (rule sat_mono [OF open_body_sat [OF f dest]])
    fix e f' assume e: "(is_cms e \<or> throws_class CommunicationException e \<and> \<not> is_cms e) \<and> calm ?f f' \<and> members_alive f'"
    then have c: "calm w f'" by simp
    show "if is_cms e then sat (\<lambda>x f. ready x dest (jms.truncate f) \<and> calm w (jms.truncate f))
        (\<lambda>e f. throws_class CommunicationException e \<and> throws_class CommunicationException e \<and> calm w (jms.truncate f))
        (thenp cleanup (throw (gexn CommunicationException (err @ exn_text e))) f')
      else throws_class CommunicationException e \<and> throws_class CommunicationException e \<and> calm w (jms.truncate f')"
      using e c by (auto simp: wp elim!: sat_mono [OF cleanup_sat] intro: calm_trans)
  qed simp
qed

subsection \<open>Destruction\<close>

lemma destroy_producer_sat:
  assumes "ready p d w"
  shows "sat (\<lambda>_ w'. calm w w' \<and> (\<exists>b b'. log w' = (CloseObj (p_session p), b) # (CloseObj (p_producer p), b') # log w))
    (\<lambda>_ _. False) (destroy_producer p w)"
  using assms
  by (auto simp: destroy_producer_def ready_def wp calm_def world_ok_def alive_def intro!: sat_jcall)

lemma sat_unwind [wp]:
  "sat Q E (unwind d m w) \<longleftrightarrow> sat Q (\<lambda>e w'. sat (\<lambda>_. E e) E (d w')) (m w)"
  by (simp add: unwind_def wp)

end
