(* ===== verification/Message_Posts.thy ===== *)
theory Message_Posts
  imports Jms_Producer
begin

section \<open>The contract of posting\<close>

text \<open>
  What the posting functions of the producers have in common, proved once: the message is
  delivered with the intended contents, or nothing is sent; in both cases the message object
  is deleted once and no other raw object is left behind.
\<close>

lemma world_ok_msg [simp]: "world_ok (w\<lparr>msg := p\<rparr>) = world_ok w"
  by (simp add: world_ok_def)

text \<open>A successful post: one more message sent, and nothing left behind.\<close>

definition delivered :: "jms_obj \<Rightarrow> jms_obj \<Rightarrow> put list \<Rightarrow> 'a jms_scheme \<Rightarrow> 'b jms_scheme \<Rightarrow> bool" where
  "delivered d kind xs w w' \<longleftrightarrow> world_ok w' \<and> log_later (log w) (log w') \<and> env w' = env w \<and>
     sent (log w') = (Some d, Some kind, xs) # sent (log w) \<and> raw_at (log w') = raw_at (log w)"

text \<open>Between the failure and the handler: the message may still be there.\<close>

definition pending :: "'a jms_scheme \<Rightarrow> 'b jms_scheme \<Rightarrow> bool" where
  "pending w w' \<longleftrightarrow> msg w' = None \<and> calm w w' \<or>
     (\<exists>m. msg w' = Some m \<and> world_ok w' \<and> log_later (log w) (log w') \<and> env w' = env w \<and>
        sent (log w') = sent (log w) \<and> raw_at (log w') = m # raw_at (log w) \<and>
        length (log w) \<le> m \<and> alive (log w') m \<and> (\<forall>c. conn w' = Some c \<longrightarrow> c \<noteq> m))"

lemma pending_delete:
  assumes "pending w w'"
  shows "sat (\<lambda>_ w''. calm w w'') (\<lambda>_ _. False) (delete_msg w')"
proof -
  from assms consider "msg w' = None" "calm w w'" | m where "msg w' = Some m" "world_ok w'"
      "log_later (log w) (log w')" "env w' = env w" "sent (log w') = sent (log w)"
      "raw_at (log w') = m # raw_at (log w)" "length (log w) \<le> m" "alive (log w') m"
      "\<forall>c. conn w' = Some c \<longrightarrow> c \<noteq> m"
    by (auto simp: pending_def)
  then show ?thesis
    by cases (auto simp: wp calm_def world_ok_def alive_def)
qed

definition post_body :: "producer \<Rightarrow> jms_obj \<Rightarrow> (ptr \<Rightarrow> ('a jms_scheme, unit) prog) \<Rightarrow> ('a jms_scheme, unit) prog" where
  "post_body p kind fill = bindp (jnew (p_session p) kind RawPtr) (\<lambda>m.
     thenp (set_msg (Some m)) (thenp (fill m) (send p m)))"

definition is_message :: "jms_obj \<Rightarrow> bool" where
  "is_message kind \<longleftrightarrow> kind = PlainMessage \<or> kind = TextMessage \<or> kind = MapMessage \<or> kind = BytesMessage"

lemma is_message_simps [simp]:
  "is_message PlainMessage" "is_message TextMessage" "is_message MapMessage" "is_message BytesMessage"
  by (simp_all add: is_message_def)

text \<open>After the send the message is still there, and its contents are what was sent.\<close>

definition dispatched :: "jms_obj \<Rightarrow> jms_obj \<Rightarrow> put list \<Rightarrow> 'a jms_scheme \<Rightarrow> 'b jms_scheme \<Rightarrow> bool" where
  "dispatched d kind xs w w' \<longleftrightarrow> (\<exists>m. msg w' = Some m \<and> m = length (log w) \<and> world_ok w' \<and>
     log_later (log w) (log w') \<and> env w' = env w \<and>
     sent (log w') = (Some d, Some kind, xs) # sent (log w) \<and> raw_at (log w') = m # raw_at (log w) \<and>
     alive (log w') m \<and> (\<forall>c. conn w' = Some c \<longrightarrow> c \<noteq> m))"

lemma dispatched_delete:
  assumes "dispatched d kind xs w w'"
  shows "sat (\<lambda>_ w''. delivered d kind xs w w'') (\<lambda>_ _. False) (delete_msg w')"
    and "sat (\<lambda>_ w''. delivered d kind xs w w'') (\<lambda>_ _. False) (jdelete (length (log w)) w')"
  using assms by (auto simp: dispatched_def wp delivered_def world_ok_def alive_def)

lemma route_ready:
  assumes "ready p d w" and "suffix (log w) l"
  shows "route (p_producer p) None l = Some d"
proof -
  obtain q where q: "p_destination p = Some q" "obj_at q (log w) = Some d"
    "obj_at (p_producer p) (log w) = Some (Producer (Some q))"
    using assms(1) by (auto simp: ready_def)
  then have "q < length (log w)" "p_producer p < length (log w)"
    using obj_at_less by blast+
  with assms(2) q show ?thesis
    by (auto simp: route_def suffix_def)
qed

lemma post_body_sat:
  assumes r: "ready p d w" and none: "msg w = None" and kind: "is_message kind"
    and fill: "\<And>m. fill m = jputs m xs"
  shows "sat (\<lambda>_ w'. dispatched d kind xs w w') (\<lambda>e w'. is_cms e \<and> pending w w') (post_body p kind fill w)"
proof -
  let ?s = "p_session p" and ?m = "length (log w)"
  let ?l = "(Create ?s kind RawPtr, True) # log w"
  have ptrs: "pointers (Create ?s kind RawPtr) = [?s]"
    using kind by (auto simp: is_message_def)
  have ok: "log_wf (log w)" "\<And>c. conn w = Some c \<Longrightarrow> alive (log w) c"
    and alv: "alive (log w) ?s" "alive (log w) (p_producer p)"
    using r by (auto simp: ready_def world_ok_def)
  have fresh: "\<not> deleted ?m (log w)" using alive_fresh [OF ok(1)] .
  have out: "?m \<notin> set (raw_at (log w))" using raw_at_less by blast
  have cons: "contents ?m (log w) = []" using contents_late [OF ok(1)] by simp
  have rt: "route (p_producer p) None (puts_log ?m xs @ ?l) = Some d"
    by (rule route_ready [OF r]) (auto intro: suffix_appendI suffix_ConsI)
  have pend: "pending w (w\<lparr>msg := Some ?m, log := (Put ?m y, False) # puts_log ?m ys @ ?l\<rparr>)" for y ys
    using ok alv fresh ptrs by (auto simp: pending_def world_ok_def alive_def less_Suc_eq)
  have pend2: "pending w (w\<lparr>msg := Some ?m, log := (Send (p_producer p) None ?m, False) # puts_log ?m xs @ ?l\<rparr>)"
    using ok alv fresh ptrs by (auto simp: pending_def world_ok_def alive_def less_Suc_eq)
  have disp: "dispatched d kind xs w
      (w\<lparr>msg := Some ?m, log := (Send (p_producer p) None ?m, True) # puts_log ?m xs @ ?l\<rparr>)"
    using ok alv fresh ptrs rt cons by (auto simp: dispatched_def world_ok_def alive_def less_Suc_eq)
  have calm: "calm w (w\<lparr>log := (Create ?s kind RawPtr, False) # log w\<rparr>)"
    using ok alv ptrs by (auto simp: calm_def world_ok_def alive_def less_Suc_eq)
  show ?thesis
    unfolding post_body_def fill sat_bindp
  proof (rule sat_jnew)
    show "list_all (alive (log w)) (pointers (Create ?s kind RawPtr))"
      using alv ptrs by simp
    show "is_cms (CMSExn t) \<and> pending w (w\<lparr>log := (Create ?s kind RawPtr, False) # log w\<rparr>)" for t
      using calm none by (simp add: pending_def)
    show "sat (\<lambda>_ w'. dispatched d kind xs w w') (\<lambda>e w'. is_cms e \<and> pending w w')
        (thenp (set_msg (Some ?m)) (thenp (jputs ?m xs) (send p ?m)) (w\<lparr>log := ?l\<rparr>))"
      unfolding send_def wp
    proof (rule sat_jputs)
      show "alive (log (w\<lparr>log := ?l, msg := Some ?m\<rparr>)) ?m"
        using fresh by simp
      show "is_cms (CMSExn t) \<and> pending w (w\<lparr>log := ?l, msg := Some ?m,
          log := (Put ?m y, False) # puts_log ?m ys @ log (w\<lparr>log := ?l, msg := Some ?m\<rparr>)\<rparr>)" for t ys y
        using pend by simp
      show "sat (\<lambda>_ w'. dispatched d kind xs w w') (\<lambda>e w'. is_cms e \<and> pending w w')
        (jcall (Send (p_producer p) None ?m) (w\<lparr>log := ?l, msg := Some ?m,
            log := puts_log ?m xs @ log (w\<lparr>log := ?l, msg := Some ?m\<rparr>)\<rparr>))"
        using pend2 disp alv fresh by (intro sat_jcall) (auto simp: alive_def)
    qed
  qed
qed

subsection \<open>The interface of a posting function\<close>

text \<open>The effect of a call that sends a message, or none.\<close>

fun post_effect :: "jms_obj \<Rightarrow> (jms_obj \<times> put list) option \<Rightarrow> 'a jms_scheme \<Rightarrow> 'b jms_scheme \<Rightarrow> bool" where
  "post_effect d None w w' = calm w w'"
| "post_effect d (Some (kind, xs)) w w' = delivered d kind xs w w'"

text \<open>The messages of a history: those of the calls that returned.\<close>

fun posted :: "('c \<Rightarrow> 'm option) \<Rightarrow> 'c list \<Rightarrow> 'r res list \<Rightarrow> 'm list" where
  "posted f (c # cs) (Val r # rs) = (case f c of None \<Rightarrow> posted f cs rs | Some m \<Rightarrow> m # posted f cs rs)"
| "posted f (c # cs) (r # rs) = posted f cs rs"
| "posted f cs rs = []"

definition to_dest :: "jms_obj \<Rightarrow> jms_obj \<times> put list \<Rightarrow> jms_obj option \<times> jms_obj option \<times> put list" where
  "to_dest d m = (Some d, Some (fst m), snd m)"

locale message_post =
  fixes post :: "'c \<Rightarrow> (jms, 'r) prog"
    and prod :: producer
    and dest :: jms_obj
    and valid :: "'c \<Rightarrow> bool"
    and message :: "'c \<Rightarrow> (jms_obj \<times> put list) option"
    and allowed :: "exn \<Rightarrow> bool"
  assumes post_sat: "ready prod dest w \<Longrightarrow> valid c \<Longrightarrow>
      sat (\<lambda>_ w'. post_effect dest (message c) w w') (\<lambda>e w'. allowed e \<and> message c \<noteq> None \<and> calm w w') (post c w)"
begin

lemma effect_ready:
  "post_effect dest m w w' \<Longrightarrow> ready prod dest w \<Longrightarrow> ready prod dest w'"
  by (cases m) (auto simp: calm_def delivered_def intro: ready_later)

lemma history:
  assumes "ready prod dest w" and "list_all valid cs"
  shows "sat (\<lambda>rs w'. ready prod dest w' \<and> length rs = length cs \<and> list_all (expected allowed) rs \<and>
      raw_at (log w') = raw_at (log w) \<and>
      sent (log w') = rev (map (to_dest dest) (posted message cs rs)) @ sent (log w)) (\<lambda>_ _. False)
    (run_calls post cs w)"
  using assms
proof (induction cs arbitrary: w)
  case Nil
  then show ?case by simp
next
  case (Cons c cs)
  then have c: "valid c" "list_all valid cs" by simp_all
  from post_sat [OF Cons.prems(1) c(1)] show ?case
  proof (cases "post c w" rule: res_cases)
    case (1 x w1)
    with post_sat [OF Cons.prems(1) c(1)] have eff: "post_effect dest (message c) w w1" by simp
    from Cons.IH [OF effect_ready [OF eff Cons.prems(1)] c(2)] eff show ?thesis
      by (cases "message c") (auto simp: 1 wp calm_def delivered_def to_dest_def elim!: sat_mono)
  next
    case (2 e w1)
    with post_sat [OF Cons.prems(1) c(1)] have eff: "allowed e" "calm w w1" by simp_all
    then have "ready prod dest w1"
      using Cons.prems(1) by (auto simp: calm_def intro: ready_later)
    from Cons.IH [OF this c(2)] eff show ?thesis
      by (auto simp: 2 wp calm_def elim!: sat_mono)
  qed simp_all
qed

end

subsection \<open>Every producer fulfils it\<close>

lemma thenp_assoc: "thenp (thenp a b) c = thenp a (thenp b c)"
  by (simp add: thenp_def bindp_assoc)

lemma bindp_thenp: "thenp (bindp a f) b = bindp a (\<lambda>x. thenp (f x) b)"
  by (simp add: thenp_def bindp_assoc)

text \<open>The shape in which the message is deleted within the \<open>try\<close> block.\<close>

lemma post_in_try:
  assumes r: "ready p d w" and kind: "is_message kind" and fill: "\<And>m. fill m = jputs m xs"
  shows "sat (\<lambda>_ w'. delivered d kind xs w w') (\<lambda>x w'. (\<exists>e. x = gexn cls (err e)) \<and> calm w w')
    (thenp (set_msg None) (catchp
       (bindp (jnew (p_session p) kind RawPtr) (\<lambda>m. thenp (set_msg (Some m))
         (thenp (fill m) (thenp (send p m) (jdelete m)))))
       is_cms (\<lambda>e. thenp delete_msg (throw (gexn cls (err e))))) w)"
proof -
  let ?w = "w\<lparr>msg := None\<rparr>"
  have r': "ready p d ?w" using r by (simp add: ready_def world_ok_def)
  have conv: "calm ?w = (calm w :: 'a jms_scheme \<Rightarrow> bool)" "delivered d kind xs ?w = (delivered d kind xs w :: 'a jms_scheme \<Rightarrow> bool)"
    by (simp_all add: fun_eq_iff calm_def delivered_def)
  have del: "sat (\<lambda>_ w''. delivered d kind xs w w'') E (jdelete (length (log w)) v)"
    if "dispatched d kind xs ?w v" for v :: "'a jms_scheme" and E
    using dispatched_delete(2) [OF that] by (auto simp: conv elim!: sat_mono)
  have "sat (\<lambda>_ w'. delivered d kind xs w w') (\<lambda>e w'. is_cms e \<and> pending ?w w')
    (bindp (jnew (p_session p) kind RawPtr) (\<lambda>m. thenp (set_msg (Some m))
         (thenp (fill m) (thenp (send p m) (jdelete m)))) ?w)"
    using post_body_sat [OF r' _ kind fill]
    unfolding post_body_def
    by (cases "jnew (p_session p) kind RawPtr ?w" rule: res_cases)
      (auto simp: sat_bindp sat_thenp sat_set_msg del jnew_def bindp_def thenp_def
        split: prod.splits res.splits elim!: sat_mono)
  then show ?thesis
    unfolding sat_thenp sat_set_msg sat_catchp
    by (rule sat_mono) (auto simp: sat_thenp conv elim!: sat_mono [OF pending_delete])
qed

lemma post_in_try_ok:
  assumes "ready p d w" and "is_message kind" and "\<And>m. fill m = jputs m xs" and "exn_is_a cls cls'"
  shows "sat (\<lambda>r w'. r = status_OK \<and> delivered d kind xs w w') (\<lambda>x w'. throws_class cls' x \<and> calm w w')
    (thenp (set_msg None) (thenp (catchp
       (bindp (jnew (p_session p) kind RawPtr) (\<lambda>m. thenp (set_msg (Some m))
         (thenp (fill m) (thenp (send p m) (jdelete m)))))
       is_cms (\<lambda>e. thenp delete_msg (throw (gexn cls (err e))))) (ret status_OK)) w)"
  by (subst thenp_assoc [symmetric], subst sat_thenp, rule sat_mono [OF post_in_try [OF assms(1-3)]])
    (use assms(4) in auto)

text \<open>What each function sends for its arguments, or nothing when it returns at once.\<close>

fun log_message :: "log_level \<times> string \<Rightarrow> (jms_obj \<times> put list) option" where
  "log_message (level, text) = map_option (\<lambda>n.
     (TextMessage, [IntProperty (key GMP_SERVICES_LOG_LEVEL) n, SetText text])) (level_int level)"

fun event_message :: "observation_event \<times> string \<Rightarrow> (jms_obj \<times> put list) option" where
  "event_message (ev, label) = (if isEmpty label then None else
     Some (PlainMessage, [StringProperty (key GMP_DATA_OBSEVENT_NAME) (event_name ev),
       StringProperty (key GMP_DATA_OBSEVENT_FILENAME) label]))"

datatype file_call = AncillaryFile string string | IntermediateFile string string string

fun post_file :: "producer \<Rightarrow> file_call \<Rightarrow> (jms, int) prog" where
  "post_file p (AncillaryFile f l) = postAncillaryFileEvent p f l"
| "post_file p (IntermediateFile f l h) = postIntermediateFileEvent p f l h"

definition file_puts :: "file_type \<Rightarrow> string \<Rightarrow> string \<Rightarrow> string \<Rightarrow> put list" where
  "file_puts ty f l h = [IntProperty (key GMP_DATA_FILEEVENT_TYPE) (file_type_int ty),
     MapString (key GMP_DATA_FILEEVENT_FILENAME) f, MapString (key GMP_DATA_FILEEVENT_DATALABEL) l]
     @ (if ty = INTERMEDIATE_TYPE \<and> \<not> isEmpty h then [MapString (key GMP_DATA_FILEEVENT_HINT) h] else [])"

fun file_message :: "file_call \<Rightarrow> (jms_obj \<times> put list) option" where
  "file_message (AncillaryFile f l) = (if isEmpty f \<or> isEmpty l then None
     else Some (MapMessage, file_puts ANCILLARY_TYPE f l []))"
| "file_message (IntermediateFile f l h) = (if isEmpty f \<or> isEmpty l then None
     else Some (MapMessage, file_puts INTERMEDIATE_TYPE f l h))"

fun pcs_message :: "f64 list \<times> i32 \<Rightarrow> (jms_obj \<times> put list) option" where
  "pcs_message (zs, n) = (if sint n \<le> 0 then None
     else Some (BytesMessage, WInt n # map WDouble (take (nat (sint n)) zs)))"

definition pcs_in_bounds :: "f64 list \<times> i32 \<Rightarrow> bool" where
  "pcs_in_bounds c \<longleftrightarrow> sint (snd c) \<le> int (length (fst c))"

definition response_puts :: "handler_response \<Rightarrow> put list" where
  "response_puts h = MapString (key GMP_HANDLER_RESPONSE_KEY) (getHandlerResponse h) #
     (if getResponse h = RESP_ERROR then [MapString (key GMP_HANDLER_RESPONSE_ERROR_KEY) (getMessage h)] else [])"

fun completion_message :: "action_id \<times> handler_response \<Rightarrow> (jms_obj \<times> put list) option" where
  "completion_message (a, h) = Some (MapMessage, response_puts h @ [IntProperty (key GMP_ACTIONID_PROP) a])"

text \<open>The bodies as sequences of puts.\<close>

lemma thenp_ret_unit [simp]: "thenp m (ret ()) = (m :: ('s, unit) prog)"
  by (rule ext) (auto simp: thenp_def bindp_def split: prod.splits res.splits)

lemma write_zernikes_puts:
  "i + n \<le> length zs \<Longrightarrow> write_zernikes m zs i n = jputs m (map WDouble (take n (drop i zs)))"
proof (induction n arbitrary: i)
  case (Suc n)
  then have "drop i zs = zs ! i # drop (Suc i) zs"
    by (simp add: Cons_nth_drop_Suc)
  with Suc show ?case by simp
qed simp

lemma makeHandlerResponseMsg_puts: "makeHandlerResponseMsg m h = jputs m (response_puts h)"
  by (simp add: makeHandlerResponseMsg_def response_puts_def)

lemma throws_giapi: "throws_class c e \<Longrightarrow> throws_class GiapiException e"
  by (cases e) auto

lemma throws_post: "throws_class PostException e \<Longrightarrow> throws_class CommunicationException e"
  by (auto simp: throws_class_def intro: exn_is_a_trans [OF _ exn_is_a_simps(4)] split: exn.splits)

lemma gexn_throws [simp]: "throws_class c (gexn d m) = exn_is_a d c"
  by simp

lemma postLog_sat:
  assumes "ready p d w"
  shows "sat (\<lambda>_ w'. post_effect d (log_message (level, t)) w w')
    (\<lambda>e w'. throws_class CommunicationException e \<and> log_message (level, t) \<noteq> None \<and> calm w w') (postLog p level t w)"
proof (cases "level_int level")
  case None
  with assms show ?thesis
    by (auto simp: postLog_def wp calm_def ready_def world_ok_def)
next
  case (Some n)
  show ?thesis
    using post_in_try [OF assms, of TextMessage "\<lambda>m. jputs m [IntProperty (key GMP_SERVICES_LOG_LEVEL) n, SetText t]"
        "[IntProperty (key GMP_SERVICES_LOG_LEVEL) n, SetText t]" CommunicationException
        "\<lambda>e. ''Problem posting log info : '' @ t @ ''('' @ exn_text e @ '')''"] Some
    by (auto simp: postLog_def sat_throw_spec thenp_assoc elim!: sat_mono)
qed

text \<open>The integer a posting function returns: an error when there was nothing to send.\<close>

definition post_code :: "'m option \<Rightarrow> int" where
  "post_code m = (if m = None then status_ERROR else status_OK)"

lemma postEvent_sat:
  assumes "ready p d w"
  shows "sat (\<lambda>r w'. r = post_code (event_message (ev, l)) \<and> post_effect d (event_message (ev, l)) w w')
    (\<lambda>e w'. throws_class CommunicationException e \<and> event_message (ev, l) \<noteq> None \<and> calm w w') (postEvent p ev l w)"
proof (cases "isEmpty l")
  case True
  with assms show ?thesis by (simp add: postEvent_def wp calm_refl ready_def post_code_def)
next
  case False
  show ?thesis
    using post_in_try_ok [OF assms, of PlainMessage "\<lambda>m. jputs m [StringProperty (key GMP_DATA_OBSEVENT_NAME) (event_name ev),
          StringProperty (key GMP_DATA_OBSEVENT_FILENAME) l]"
        "[StringProperty (key GMP_DATA_OBSEVENT_NAME) (event_name ev),
          StringProperty (key GMP_DATA_OBSEVENT_FILENAME) l]" CommunicationException CommunicationException
        "\<lambda>e. ''Problem sending observation event '' @ event_name ev
           @ '' associated to filename: '' @ l"] False
    by (auto simp: postEvent_def sat_throw_spec thenp_assoc post_code_def elim!: sat_mono)
qed

lemma sendFileEventMessage_sat:
  assumes "ready p d w" and "\<not> isEmpty f" and "\<not> isEmpty l"
  shows "sat (\<lambda>r w'. r = status_OK \<and> delivered d MapMessage (file_puts ty f l h) w w')
    (\<lambda>e w'. throws_class CommunicationException e \<and> calm w w') (sendFileEventMessage p ty f l h w)"
proof -
  have "exn_is_a CommunicationException CommunicationException" by simp
  note ok = post_in_try_ok [OF assms(1), of MapMessage "\<lambda>m. jputs m (file_puts ty f l h)" "file_puts ty f l h"
      CommunicationException CommunicationException
      "\<lambda>e. ''Problem sending file event '' @ f @ '' associated to datalabel: '' @ l"]
  have body: "thenp (jput m (IntProperty (key GMP_DATA_FILEEVENT_TYPE) (file_type_int ty)))
      (thenp (jput m (MapString (key GMP_DATA_FILEEVENT_FILENAME) f))
      (thenp (jput m (MapString (key GMP_DATA_FILEEVENT_DATALABEL) l))
      (thenp (if ty = INTERMEDIATE_TYPE \<and> \<not> isEmpty h
              then jput m (MapString (key GMP_DATA_FILEEVENT_HINT) h) else ret ()) k)))
    = thenp (jputs m (file_puts ty f l h)) k" for m and k :: "(jms, unit) prog"
    by (simp add: file_puts_def jputs_append thenp_assoc)
  from ok assms(2,3) show ?thesis
    by (simp add: sendFileEventMessage_def body del: key.simps)
qed

lemma post_file_sat:
  assumes "ready p d w"
  shows "sat (\<lambda>r w'. r = post_code (file_message c) \<and> post_effect d (file_message c) w w')
    (\<lambda>e w'. throws_class CommunicationException e \<and> file_message c \<noteq> None \<and> calm w w') (post_file p c w)"
proof -
  have none: "sat (\<lambda>r w'. r = status_ERROR \<and> calm w w') E (sendFileEventMessage p ty f l h w)"
    if "isEmpty f \<or> isEmpty l" for ty f l h E
    using that assms by (auto simp: sendFileEventMessage_def calm_refl ready_def)
  show ?thesis
  proof (cases "file_message c")
    case None
    then show ?thesis
      using none by (cases c) (auto simp: sat_throw_spec post_code_def postAncillaryFileEvent_def
          postIntermediateFileEvent_def split: if_splits)
  next
    case (Some m)
    then show ?thesis
      using sendFileEventMessage_sat [OF assms]
      by (cases c) (auto simp: sat_throw_spec post_code_def postAncillaryFileEvent_def
          postIntermediateFileEvent_def split: if_splits)
  qed
qed

lemma postPcsUpdate_sat:
  assumes "ready p d w" and "pcs_in_bounds (zs, n)"
  shows "sat (\<lambda>r w'. r = post_code (pcs_message (zs, n)) \<and> post_effect d (pcs_message (zs, n)) w w')
    (\<lambda>e w'. throws_class CommunicationException e \<and> pcs_message (zs, n) \<noteq> None \<and> calm w w') (postPcsUpdate p zs n w)"
proof (cases "sint n \<le> 0")
  case True
  with assms show ?thesis by (simp add: postPcsUpdate_def wp calm_refl ready_def post_code_def)
next
  case False
  have loop: "write_zernikes m zs 0 (nat (sint n)) = jputs m (map WDouble (take (nat (sint n)) zs))" for m
    using assms(2) by (subst write_zernikes_puts) (auto simp: pcs_in_bounds_def nat_le_iff)
  show ?thesis
    using post_in_try_ok [OF assms(1), of BytesMessage
        "\<lambda>m. jputs m (WInt n # map WDouble (take (nat (sint n)) zs))"
        "WInt n # map WDouble (take (nat (sint n)) zs)" CommunicationException CommunicationException
        "\<lambda>e. ''Problem posting updates to the PCS: '' @ exn_text e"] False
    by (auto simp: postPcsUpdate_def sat_throw_spec thenp_assoc post_code_def loop
        elim!: sat_mono intro: throws_giapi)
qed

text \<open>The shape in which the message is deleted after the \<open>try\<close> block.\<close>

lemma postCompletionInfo_sat:
  assumes "ready p d w"
  shows "sat (\<lambda>r w'. r = post_code (completion_message (a, h)) \<and> post_effect d (completion_message (a, h)) w w')
    (\<lambda>e w'. throws_class PostException e \<and> completion_message (a, h) \<noteq> None \<and> calm w w') (postCompletionInfo p a h w)"
proof -
  let ?w = "w\<lparr>msg := None\<rparr>" and ?xs = "response_puts h @ [IntProperty (key GMP_ACTIONID_PROP) a]"
  have r: "ready p d ?w" using assms by (simp add: ready_def world_ok_def)
  have conv: "calm ?w = (calm w :: jms \<Rightarrow> bool)"
    "delivered d k xs ?w = (delivered d k xs w :: jms \<Rightarrow> bool)" for k xs
    by (simp_all add: fun_eq_iff calm_def delivered_def)
  have body: "bindp (jnew (p_session p) MapMessage RawPtr) (\<lambda>m. thenp (set_msg (Some m))
      (thenp (makeHandlerResponseMsg m h) (thenp (jput m (IntProperty (key GMP_ACTIONID_PROP) a)) (send p m))))
    = post_body p MapMessage (\<lambda>m. jputs m ?xs)"
    by (simp add: post_body_def jputs_append makeHandlerResponseMsg_puts thenp_assoc del: key.simps)
  have pb: "sat (\<lambda>_ w'. dispatched d MapMessage ?xs ?w w') (\<lambda>e w'. is_cms e \<and> pending ?w w')
      (post_body p MapMessage (\<lambda>m. jputs m ?xs) ?w)"
    by (rule post_body_sat [OF r]) simp_all
  show ?thesis
    unfolding postCompletionInfo_def body sat_throw_spec sat_thenp sat_set_msg sat_catchp
  proof (rule sat_mono [OF pb], goal_cases)
    case (1 u w')
    from dispatched_delete(1) [OF this] show ?case
      by (rule sat_mono) (simp_all add: post_code_def conv)
  next
    case (2 e w')
    then show ?case
      by (auto simp: sat_thenp conv elim!: sat_mono [OF pending_delete])
  qed
qed

subsection \<open>Interpretations\<close>

interpretation log_post: message_post "\<lambda>c. postLog p (fst c) (snd c)" p d "\<lambda>_. True" log_message
    "throws_class CommunicationException" for p d
  by unfold_locales (metis postLog_sat prod.collapse)

interpretation event_post: message_post "\<lambda>c. postEvent p (fst c) (snd c)" p d "\<lambda>_. True" event_message
    "throws_class CommunicationException" for p d
  by unfold_locales (use postEvent_sat in \<open>force elim!: sat_mono\<close>)

interpretation file_post: message_post "post_file p" p d "\<lambda>_. True" file_message
    "throws_class CommunicationException" for p d
  by unfold_locales (auto elim!: sat_mono [OF post_file_sat])

interpretation pcs_post: message_post "\<lambda>c. postPcsUpdate p (fst c) (snd c)" p d pcs_in_bounds pcs_message
    "throws_class CommunicationException" for p d
  by unfold_locales (use postPcsUpdate_sat in \<open>force elim!: sat_mono\<close>)

interpretation completion_post: message_post "\<lambda>c. postCompletionInfo p (fst c) (snd c)" p d "\<lambda>_. True"
    completion_message "throws_class PostException" for p d
  by unfold_locales (use postCompletionInfo_sat in \<open>force elim!: sat_mono\<close>)

end
