(* ===== verification/Status_Serializer.thy ===== *)
theory Status_Serializer
  imports Status_Item Message_Posts
begin

section \<open>Status items as messages\<close>

text \<open>
  \<open>StatusSerializerVisitor\<close>: the visitor that writes an item into a bytes message, and the
  specification of the format: what is written can be read back.
\<close>

subsection \<open>The visitor\<close>

datatype offsets = BASIC_OFFSET | ALARM_OFFSET | HEALTH_OFFSET

fun offset_int :: "offsets \<Rightarrow> i32" where
  "offset_int BASIC_OFFSET = 0"
| "offset_int ALARM_OFFSET = 10"
| "offset_int HEALTH_OFFSET = 20"

text \<open>A getter of the item, called while the message is being written.\<close>

definition of_item :: "'i \<Rightarrow> ('i, 'a) prog \<Rightarrow> ('s, 'a) prog" where
  "of_item it m = (\<lambda>s. (fst (m it), s))"

definition writeHeader :: "ptr \<Rightarrow> i32 \<Rightarrow> 'i status_item_scheme \<Rightarrow> ('a jms_scheme, unit) prog" where
  "writeHeader m offset it = throw_spec is_cms (case getStatusType it of
     T_INT \<Rightarrow>
       thenp (jput m (WByte offset))
      (thenp (jput m (WUTF (getName it)))
      (bindp (of_item it getValueAsInt) (\<lambda>v. thenp (jput m (WInt v))
      (jput m (WLong (getTimestamp it))))))
   | T_DOUBLE \<Rightarrow>
       thenp (jput m (WByte (offset + 1)))
      (thenp (jput m (WUTF (getName it)))
      (bindp (of_item it getValueAsDouble) (\<lambda>v. thenp (jput m (WDouble v))
      (jput m (WLong (getTimestamp it))))))
   | T_FLOAT \<Rightarrow>
       thenp (jput m (WByte (offset + 2)))
      (thenp (jput m (WUTF (getName it)))
      (bindp (of_item it getValueAsFloat) (\<lambda>v. thenp (jput m (WFloat v))
      (jput m (WLong (getTimestamp it))))))
   | T_STRING \<Rightarrow>
       thenp (jput m (WByte (offset + 3)))
      (thenp (jput m (WUTF (getName it)))
      (bindp (of_item it getValueAsString) (\<lambda>v.
       thenp (jput m (WUTF (if v = [] then '' '' else v)))
      (jput m (WLong (getTimestamp it))))))
   | T_BOOLEAN \<Rightarrow> ret ()
   | T_BYTE \<Rightarrow> ret ()
   | T_SHORT \<Rightarrow> ret ())"

fun severity_byte :: "alarm_severity \<Rightarrow> i32" where
  "severity_byte ALARM_OK = 0"
| "severity_byte ALARM_WARNING = 1"
| "severity_byte ALARM_FAILURE = 2"

fun cause_byte :: "alarm_cause \<Rightarrow> i32" where
  "cause_byte ALARM_CAUSE_OK = 0"
| "cause_byte ALARM_CAUSE_HIHI = 1"
| "cause_byte ALARM_CAUSE_HI = 2"
| "cause_byte ALARM_CAUSE_LOLO = 3"
| "cause_byte ALARM_CAUSE_LO = 4"
| "cause_byte ALARM_CAUSE_OTHER = 5"

definition visitStatusItem :: "ptr \<Rightarrow> status_item \<Rightarrow> ('a jms_scheme, unit) prog" where
  "visitStatusItem m it = throw_spec is_cms (writeHeader m (offset_int BASIC_OFFSET) it)"

definition visitAlarmItem :: "ptr \<Rightarrow> alarm_item \<Rightarrow> ('a jms_scheme, unit) prog" where
  "visitAlarmItem m alarm = throw_spec is_cms (
     thenp (writeHeader m (offset_int ALARM_OFFSET) alarm)
    (thenp (jput m (WByte (severity_byte (getSeverity alarm))))
    (thenp (jput m (WByte (cause_byte (getCause alarm))))
    (if getAlarmMessage alarm \<noteq> []
     then thenp (jput m (WBool True)) (jput m (WUTF (getAlarmMessage alarm)))
     else jput m (WBool False)))))"

definition visitHealthItem :: "ptr \<Rightarrow> health_item \<Rightarrow> ('a jms_scheme, unit) prog" where
  "visitHealthItem m it = throw_spec is_cms (writeHeader m (offset_int HEALTH_OFFSET) it)"

text \<open>\<open>accept\<close>, the virtual call that picks the visiting function.\<close>

fun accept :: "ptr \<Rightarrow> item \<Rightarrow> ('a jms_scheme, unit) prog" where
  "accept m (BasicItem it) = visitStatusItem m it"
| "accept m (AlarmItem a) = visitAlarmItem m a"
| "accept m (HealthItem it) = visitHealthItem m it"

subsection \<open>What is written\<close>

fun header_fields :: "i32 \<Rightarrow> string \<Rightarrow> any \<Rightarrow> int option \<Rightarrow> put list" where
  "header_fields off n (AnyInt v) t = [WByte off, WUTF n, WInt v, WLong t]"
| "header_fields off n (AnyDouble v) t = [WByte (off + 1), WUTF n, WDouble v, WLong t]"
| "header_fields off n (AnyFloat v) t = [WByte (off + 2), WUTF n, WFloat v, WLong t]"
| "header_fields off n (AnyString v) t = [WByte (off + 3), WUTF n, WUTF (if v = [] then '' '' else v), WLong t]"
| "header_fields off n _ t = []"

definition alarm_fields :: "alarm_severity \<Rightarrow> alarm_cause \<Rightarrow> string \<Rightarrow> put list" where
  "alarm_fields s c m = [WByte (severity_byte s), WByte (cause_byte c)]
     @ (if m \<noteq> [] then [WBool True, WUTF m] else [WBool False])"

fun item_offset :: "item \<Rightarrow> i32" where
  "item_offset (BasicItem it) = offset_int BASIC_OFFSET"
| "item_offset (AlarmItem a) = offset_int ALARM_OFFSET"
| "item_offset (HealthItem it) = offset_int HEALTH_OFFSET"

fun item_tail :: "item \<Rightarrow> put list" where
  "item_tail (AlarmItem a) = alarm_fields (al_severity a) (al_cause a) (al_message a)"
| "item_tail i = []"

definition item_fields :: "item \<Rightarrow> put list" where
  "item_fields i = header_fields (item_offset i) (item_name i) (kv_value (item_base i)) (stamp (item_base i))
     @ item_tail i"

text \<open>Puts throw only what the messaging library throws, so the specifications have no effect.\<close>

lemma jput_spec [simp]: "throw_spec is_cms (jput m x) = (jput m x :: ('a jms_scheme, unit) prog)"
  by (rule ext) (simp add: throw_spec_def jput_def jcall_def split: option.splits)

lemma spec_thenp:
  "throw_spec C (thenp a b) = thenp (throw_spec C a) (throw_spec C b)"
  by (rule ext) (auto simp: throw_spec_def thenp_def bindp_def split: prod.splits res.splits)

lemma spec_ret [simp]: "throw_spec C (ret x) = ret x"
  by (rule ext) (simp add: throw_spec_def)

lemma jputs_spec [simp]: "throw_spec is_cms (jputs m xs) = (jputs m xs :: ('a jms_scheme, unit) prog)"
  by (induction xs) (simp_all add: spec_thenp del: ret_run)

lemma of_item_get [simp]:
  "kv_value it = AnyInt i \<Longrightarrow> of_item it getValueAsInt = ret i"
  "kv_value it = AnyDouble d \<Longrightarrow> of_item it getValueAsDouble = ret d"
  "kv_value it = AnyFloat f \<Longrightarrow> of_item it getValueAsFloat = ret f"
  "kv_value it = AnyString s \<Longrightarrow> of_item it getValueAsString = ret s"
  by (intro ext; simp add: of_item_def getValueAsInt_def getValueAsDouble_def
      getValueAsFloat_def getValueAsString_def)+

lemma writeHeader_puts:
  assumes "wf_item it"
  shows "writeHeader m off it = jputs m (header_fields off (kv_name it) (kv_value it) (stamp it))"
  using assms
  by (cases "kv_value it"; simp add: wf_item_def writeHeader_def getStatusType_def getName_def
      getTimestamp_def spec_thenp flip: ret_def)

lemma accept_puts:
  assumes "wf_obj i"
  shows "accept m i = jputs m (item_fields i)"
proof (cases i)
  case (BasicItem it)
  with assms show ?thesis
    by (simp add: visitStatusItem_def writeHeader_puts item_fields_def item_name_def)
next
  case (AlarmItem a)
  with assms have "wf_item a" by (simp add: wf_alarm_def)
  with AlarmItem show ?thesis
    by (simp add: visitAlarmItem_def writeHeader_puts item_fields_def item_name_def alarm_fields_def
        getSeverity_def getCause_def getAlarmMessage_def spec_thenp jputs_append thenp_assoc)
next
  case (HealthItem it)
  with assms show ?thesis
    by (simp add: visitHealthItem_def writeHeader_puts item_fields_def item_name_def)
qed

subsection \<open>Reading it back\<close>

text \<open>
  What a receiver learns: the kind of item, its name, its value and the time, and for an alarm
  its state. The first byte tells the kind and the type of the value.
\<close>

record report =
  rep_kind :: offsets
  rep_name :: string
  rep_value :: any
  rep_stamp :: "int option"
  rep_alarm :: "(alarm_severity \<times> alarm_cause \<times> string) option"

definition kind_of :: "i32 \<Rightarrow> offsets option" where
  "kind_of b = (if b div 10 = 0 then Some BASIC_OFFSET else if b div 10 = 1 then Some ALARM_OFFSET
     else if b div 10 = 2 then Some HEALTH_OFFSET else None)"

fun read_value :: "i32 \<Rightarrow> put \<Rightarrow> any option" where
  "read_value b (WInt v) = (if b mod 10 = 0 then Some (AnyInt v) else None)"
| "read_value b (WDouble v) = (if b mod 10 = 1 then Some (AnyDouble v) else None)"
| "read_value b (WFloat v) = (if b mod 10 = 2 then Some (AnyFloat v) else None)"
| "read_value b (WUTF v) = (if b mod 10 = 3 then Some (AnyString v) else None)"
| "read_value b _ = None"

definition read_severity :: "i32 \<Rightarrow> alarm_severity option" where
  "read_severity b = (if b = 0 then Some ALARM_OK else if b = 1 then Some ALARM_WARNING
     else if b = 2 then Some ALARM_FAILURE else None)"

definition read_cause :: "i32 \<Rightarrow> alarm_cause option" where
  "read_cause b = (if b = 0 then Some ALARM_CAUSE_OK else if b = 1 then Some ALARM_CAUSE_HIHI
     else if b = 2 then Some ALARM_CAUSE_HI else if b = 3 then Some ALARM_CAUSE_LOLO
     else if b = 4 then Some ALARM_CAUSE_LO else if b = 5 then Some ALARM_CAUSE_OTHER else None)"

fun byte_of :: "put \<Rightarrow> i32 option" where
  "byte_of (WByte b) = Some b"
| "byte_of _ = None"

fun bool_of :: "put \<Rightarrow> bool option" where
  "bool_of (WBool b) = Some b"
| "bool_of _ = None"

fun utf_of :: "put \<Rightarrow> string option" where
  "utf_of (WUTF s) = Some s"
| "utf_of _ = None"

fun long_of :: "put \<Rightarrow> int option option" where
  "long_of (WLong t) = Some t"
| "long_of _ = None"

text \<open>The text after the flag is there exactly when the flag is true.\<close>

definition read_text :: "bool \<Rightarrow> put list \<Rightarrow> string option" where
  "read_text flag rest = (if flag then (case rest of [x] \<Rightarrow> utf_of x | _ \<Rightarrow> None)
     else if rest = [] then Some [] else None)"

definition read_alarm :: "put list \<Rightarrow> (alarm_severity \<times> alarm_cause \<times> string) option" where
  "read_alarm xs = (case xs of a # b # c # rest \<Rightarrow>
      Option.bind (Option.bind (byte_of a) read_severity) (\<lambda>s.
      Option.bind (Option.bind (byte_of b) read_cause) (\<lambda>k.
      Option.bind (Option.bind (bool_of c) (\<lambda>flag. read_text flag rest)) (\<lambda>m. Some (s, k, m))))
    | _ \<Rightarrow> None)"

definition read_tail :: "offsets \<Rightarrow> string \<Rightarrow> any \<Rightarrow> int option \<Rightarrow> put list \<Rightarrow> report option" where
  "read_tail k n x t rest =
     (if k = ALARM_OFFSET
      then map_option (\<lambda>a. \<lparr>rep_kind = k, rep_name = n, rep_value = x, rep_stamp = t, rep_alarm = Some a\<rparr>)
             (read_alarm rest)
      else if rest = [] then Some \<lparr>rep_kind = k, rep_name = n, rep_value = x, rep_stamp = t, rep_alarm = None\<rparr>
      else None)"

definition read_report :: "put list \<Rightarrow> report option" where
  "read_report xs = (case xs of b # n # v # t # rest \<Rightarrow>
      Option.bind (byte_of b) (\<lambda>b'.
      Option.bind (kind_of b') (\<lambda>k.
      Option.bind (utf_of n) (\<lambda>n'.
      Option.bind (read_value b' v) (\<lambda>x.
      Option.bind (long_of t) (\<lambda>t'. read_tail k n' x t' rest)))))
    | _ \<Rightarrow> None)"

text \<open>The empty string cannot be sent: a blank goes in its place.\<close>

fun wire_value :: "any \<Rightarrow> any" where
  "wire_value (AnyString []) = AnyString '' ''"
| "wire_value x = x"

fun item_kind :: "item \<Rightarrow> offsets" where
  "item_kind (BasicItem it) = BASIC_OFFSET"
| "item_kind (AlarmItem a) = ALARM_OFFSET"
| "item_kind (HealthItem it) = HEALTH_OFFSET"

fun item_alarm :: "item \<Rightarrow> (alarm_severity \<times> alarm_cause \<times> string) option" where
  "item_alarm (AlarmItem a) = Some (alarm_triple a)"
| "item_alarm i = None"

definition item_report :: "item \<Rightarrow> report" where
  "item_report i = \<lparr>rep_kind = item_kind i, rep_name = item_name i,
     rep_value = wire_value (kv_value (item_base i)), rep_stamp = stamp (item_base i), rep_alarm = item_alarm i\<rparr>"

lemma wire_value_string [simp]: "s \<noteq> [] \<Longrightarrow> wire_value (AnyString s) = AnyString s"
  by (cases s) simp_all

text \<open>The types that can be posted.\<close>

definition postable :: "item_type \<Rightarrow> bool" where
  "postable ty \<longleftrightarrow> ty \<in> {T_INT, T_DOUBLE, T_FLOAT, T_STRING}"

lemma read_severity_byte [simp]: "read_severity (severity_byte s) = Some s"
  by (cases s) (simp_all add: read_severity_def)

lemma read_cause_byte [simp]: "read_cause (cause_byte c) = Some c"
  by (cases c) (simp_all add: read_cause_def)

lemma read_alarm_fields [simp]: "read_alarm (alarm_fields s c m) = Some (s, c, m)"
  by (simp add: alarm_fields_def read_alarm_def read_text_def)

lemma kind_of_offset [simp]:
  "kind_of (offset_int k) = Some k" "kind_of (offset_int k + 1) = Some k"
  "kind_of (offset_int k + 2) = Some k" "kind_of (offset_int k + 3) = Some k"
  by (cases k; simp add: kind_of_def)+

lemma offset_mod [simp]:
  "offset_int k mod 10 = 0" "(offset_int k + 1) mod 10 = 1"
  "(offset_int k + 2) mod 10 = 2" "(offset_int k + 3) mod 10 = 3"
  by (cases k; simp)+

lemma item_offset_kind: "item_offset i = offset_int (item_kind i)"
  by (cases i) simp_all

lemma item_tail_kind:
  "item_kind i = ALARM_OFFSET \<Longrightarrow> read_alarm (item_tail i) = item_alarm i"
  "item_kind i \<noteq> ALARM_OFFSET \<Longrightarrow> item_tail i = []"
  "item_kind i \<noteq> ALARM_OFFSET \<Longrightarrow> item_alarm i = None"
  by (cases i; simp add: alarm_triple_def)+

lemma item_alarm_some: "item_kind i = ALARM_OFFSET \<Longrightarrow> \<exists>a. item_alarm i = Some a"
  by (cases i) (simp_all add: alarm_triple_def)

lemma read_item_fields:
  assumes wf: "wf_obj i" and ty: "postable (stype (item_base i))"
  shows "read_report (item_fields i) = Some (item_report i)"
proof -
  have "any_type (kv_value (item_base i)) = Some (stype (item_base i))"
    using wf_obj_base [OF wf] by (simp add: wf_item_def)
  then show ?thesis
    using ty item_tail_kind [of i] item_alarm_some [of i]
    by (cases "kv_value (item_base i)"; cases "item_kind i = ALARM_OFFSET")
      (auto simp: postable_def item_fields_def item_offset_kind item_report_def read_report_def read_tail_def
        simp del: offset_int.simps)
qed

lemma unpostable_fields:
  assumes "wf_obj i" and "\<not> postable (stype (item_base i))"
  shows "item_fields i = item_tail i"
  using assms wf_obj_base [OF assms(1)]
  by (cases "kv_value (item_base i)") (auto simp: item_fields_def wf_item_def postable_def)

end
