(* ===== verification/Status_Sender.thy ===== *)
theory Status_Sender
  imports Status_Database Status_Serializer
begin

section \<open>Posting status\<close>

text \<open>
  \<open>status/senders\<close>: the general part, \<open>AbstractStatusSender\<close>, over a transport that its
  subclasses provide, and the two transports, \<open>JmsStatusSender\<close> and \<open>LogStatusSender\<close>. The
  state is the database and the world of the transport.
\<close>

subsection \<open>AbstractStatusSender\<close>

definition on_db :: "(database, 'a) prog \<Rightarrow> (database \<times> 'w, 'a) prog" where
  "on_db m = on_part fst (\<lambda>d s. (d, snd s)) m"

definition on_net :: "('w, 'a) prog \<Rightarrow> (database \<times> 'w, 'a) prog" where
  "on_net m = on_part snd (\<lambda>w s. (fst s, w)) m"

definition doPost :: "(item \<Rightarrow> ('w, int) prog) \<Rightarrow> nat option \<Rightarrow> (database \<times> 'w, int) prog" where
  "doPost post p = throw_spec (throws_class PostException) (case p of
     None \<Rightarrow> ret status_ERROR
   | Some a \<Rightarrow>
       bindp (on_db (at_obj a (reads item_dirty))) (\<lambda>ch.
       if \<not> ch then ret status_ERROR else
       thenp (on_db (at_obj a (modifies item_clean)))
      (bindp (on_db (at_obj a (reads id))) (\<lambda>i. on_net (post i)))))"

definition postStatus_name :: "(item \<Rightarrow> ('w, int) prog) \<Rightarrow> string \<Rightarrow> (database \<times> 'w, int) prog" where
  "postStatus_name post name = throw_spec (throws_class PostException) (
     bindp (on_db (getStatusItem name)) (\<lambda>p.
     if p = None then ret status_ERROR else doPost post p))"

fun post_loop :: "(item \<Rightarrow> ('w, int) prog) \<Rightarrow> nat list \<Rightarrow> (database \<times> 'w, unit) prog" where
  "post_loop post [] = ret ()"
| "post_loop post (a # as) = bindp (doPost post (Some a)) (\<lambda>_. post_loop post as)"

definition postStatus_all :: "(item \<Rightarrow> ('w, int) prog) \<Rightarrow> (database \<times> 'w, int) prog" where
  "postStatus_all post = throw_spec (throws_class PostException) (
     bindp (on_db getStatusItems) (\<lambda>items. thenp (post_loop post items) (ret status_OK)))"

subsection \<open>JmsStatusSender\<close>

record sender =
  s_session :: ptr
  s_producer :: ptr

definition new_JmsStatusSender :: "(jms, sender) prog" where
  "new_JmsStatusSender = throw_spec (throws_class CommunicationException) (with_members (
     catchp
       (thenp Instance
       (bindp createSession (\<lambda>s.
        thenp (modifies (\<lambda>w. w\<lparr>m_session := Some s\<rparr>))
       (bindp (jnew s (Producer None) SharedPtr) (\<lambda>p.
        thenp (modifies (\<lambda>w. w\<lparr>m_producer := Some p\<rparr>))
       (thenp (jcall (SetNonPersistent p))
       (thenp (jcall (SetTimeToLive p (10 * 1000)))
       (ret \<lparr>s_session = s, s_producer = p\<rparr>))))))))
       is_cms (\<lambda>e. thenp cleanup
         (throw (gexn CommunicationException (''Trouble initializing Status Sender :'' @ exn_text e))))))"

definition status_topic :: "string \<Rightarrow> jms_obj" where
  "status_topic name = Topic (key GMP_STATUS_DESTINATION_PREFIX @ name)"

definition jms_postStatus :: "sender \<Rightarrow> item \<Rightarrow> (jms, int) prog" where
  "jms_postStatus sdr i = throw_spec (throws_class PostException) (
     thenp (set_msg None)
    (thenp (catchp
        (bindp (jnew (s_session sdr) BytesMessage RawPtr) (\<lambda>m.
         thenp (set_msg (Some m))
        (thenp (accept m i)
        (bindp (jnew (s_session sdr) (status_topic (item_name i)) RawPtr) (\<lambda>d.
         thenp (jcall (Send (s_producer sdr) (Some d) m))
        (jdelete d))))))
        is_cms (\<lambda>e. thenp delete_msg
         (throw (gexn PostException (''Problem posting status : '' @ exn_text e)))))
    (thenp delete_msg (ret status_OK))))"

subsection \<open>LogStatusSender\<close>

text \<open>The world of this transport is the text it has logged, the latest line first.\<close>

definition log_postStatus :: "item \<Rightarrow> (string list, int) prog" where
  "log_postStatus i = throw_spec (throws_class PostException)
     (thenp (modifies (\<lambda>lines. (''Post Status Item '' @ item_name i) # lines)) (ret status_OK))"

subsection \<open>What a transport promises\<close>

text \<open>
  A post hands one message over to the outside, or throws \<open>PostException\<close> and hands over
  nothing. What is handed over does not depend on the flag that the sender has just cleared.
\<close>

locale status_transport =
  fixes post :: "item \<Rightarrow> ('w, int) prog"
    and winv :: "'w \<Rightarrow> bool"
    and out :: "'w \<Rightarrow> 'm list"
    and wire :: "item \<Rightarrow> 'm"
  assumes post_sat: "winv w \<Longrightarrow> wf_obj i \<Longrightarrow>
      sat (\<lambda>r w'. r = status_OK \<and> winv w' \<and> out w' = wire i # out w)
        (\<lambda>e w'. throws_class PostException e \<and> winv w' \<and> out w' = out w) (post i w)"
    and wire_clean: "wire (item_clean i) = wire i"

lemma item_clean_id: "\<not> item_dirty i \<Longrightarrow> item_clean i = i"
  by (cases i) (simp_all add: item_dirty_def isChanged_def clearChanged_def)

lemma sat_on_db [wp]:
  "sat Q E (on_db m s) \<longleftrightarrow> sat (\<lambda>x d. Q x (d, snd s)) (\<lambda>e d. E e (d, snd s)) (m (fst s))"
  by (simp add: on_db_def sat_on_part)

lemma sat_on_net [wp]:
  "sat Q E (on_net m s) \<longleftrightarrow> sat (\<lambda>x w. Q x (fst s, w)) (\<lambda>e w. E e (fst s, w)) (m (snd s))"
  by (simp add: on_net_def sat_on_part)

lemma sat_at_obj [wp]:
  "sat Q E (at_obj a m db) \<longleftrightarrow> a < length (objs db) \<and>
     sat (\<lambda>x i. Q x (db\<lparr>objs := (objs db)[a := i]\<rparr>)) (\<lambda>e i. E e (db\<lparr>objs := (objs db)[a := i]\<rparr>)) (m (objs db ! a))"
  by (cases "m (objs db ! a)" rule: res_cases) (simp_all add: at_obj_def)

lemma db_same_objs [simp]: "db\<lparr>objs := objs db\<rparr> = db"
  by (cases db) simp

context status_transport
begin

text \<open>Posting one object: refused when it is clean, otherwise cleaned before it is handed over.\<close>

lemma doPost_sat:
  assumes "a < length (objs db)" and "wf_obj (objs db ! a)" and "winv w"
  defines "db' \<equiv> db\<lparr>objs := (objs db)[a := item_clean (objs db ! a)]\<rparr>"
  shows "sat (\<lambda>r s. winv (snd s) \<and> fst s = db' \<and>
        (if item_dirty (objs db ! a) then r = status_OK \<and> out (snd s) = wire (objs db ! a) # out w
         else r = status_ERROR \<and> snd s = w))
     (\<lambda>e s. throws_class PostException e \<and> winv (snd s) \<and> fst s = db' \<and> item_dirty (objs db ! a) \<and>
        out (snd s) = out w)
     (doPost post (Some a) (db, w))"
proof (cases "item_dirty (objs db ! a)")
  case True
  have "wf_obj (item_clean (objs db ! a))" using assms(2) by simp
  from post_sat [OF assms(3) this] True assms(1) show ?thesis
    by (auto simp: doPost_def wp db'_def wire_clean elim!: sat_mono)
next
  case False
  with assms show ?thesis
    by (simp add: doPost_def wp db'_def item_clean_id)
qed

text \<open>How far a loop has come: the first objects are clean, the others as they were.\<close>

definition swept :: "item list \<Rightarrow> nat \<Rightarrow> item list" where
  "swept is k = map item_clean (take k is) @ drop k is"

lemma swept_simps:
  "swept is 0 = is" "length (swept is k) = length is"
  "k < length is \<Longrightarrow> swept is k ! k = is ! k"
  "k < length is \<Longrightarrow> (swept is k)[k := item_clean (is ! k)] = swept is (Suc k)"
  "swept is (length is) = map item_clean is"
  by (auto simp: swept_def nth_append take_Suc_conv_app_nth list_update_append Cons_nth_drop_Suc [symmetric])

lemma post_loop_sat:
  assumes "list_all wf_obj is" and "k \<le> length is" and "objs db = swept is k" and "winv w"
    and "out w = rev (map wire (filter item_dirty (take k is))) @ base"
  shows "sat (\<lambda>_ s. winv (snd s) \<and> fst s = db\<lparr>objs := map item_clean is\<rparr> \<and>
        out (snd s) = rev (map wire (filter item_dirty is)) @ base)
     (\<lambda>e s. throws_class PostException e \<and> winv (snd s) \<and> (\<exists>j < length is. item_dirty (is ! j) \<and>
        fst s = db\<lparr>objs := swept is (Suc j)\<rparr> \<and>
        out (snd s) = rev (map wire (filter item_dirty (take j is))) @ base))
     (post_loop post [k..<length is] (db, w))"
  using assms(2-)
proof (induction "length is - k" arbitrary: k db w)
  case 0
  then show ?case by (simp add: swept_simps) (metis db_same_objs swept_simps(5))
next
  case (Suc n)
  then have k: "k < length is" by simp
  then have cons: "[k..<length is] = k # [Suc k..<length is]" by (simp add: upt_conv_Cons)
  have kth: "objs db ! k = is ! k" "k < length (objs db)" "wf_obj (objs db ! k)"
    using k Suc.prems(2) assms(1) by (simp_all add: swept_simps list_all_length)
  have upd: "(objs db)[k := item_clean (objs db ! k)] = swept is (Suc k)"
    using k Suc.prems(2) by (simp add: swept_simps)
  show ?case
    unfolding cons post_loop.simps sat_bindp
  proof (rule sat_mono [OF doPost_sat [OF kth(2,3) Suc.prems(3)]])
    fix r s
    assume s: "winv (snd s) \<and> fst s = db\<lparr>objs := (objs db)[k := item_clean (objs db ! k)]\<rparr> \<and>
      (if item_dirty (objs db ! k) then r = status_OK \<and> out (snd s) = wire (objs db ! k) # out w
       else r = status_ERROR \<and> snd s = w)"
    have "sat (\<lambda>_ s'. winv (snd s') \<and> fst s' = (fst s)\<lparr>objs := map item_clean is\<rparr> \<and>
        out (snd s') = rev (map wire (filter item_dirty is)) @ base)
     (\<lambda>e s'. throws_class PostException e \<and> winv (snd s') \<and> (\<exists>j < length is. item_dirty (is ! j) \<and>
        fst s' = (fst s)\<lparr>objs := swept is (Suc j)\<rparr> \<and>
        out (snd s') = rev (map wire (filter item_dirty (take j is))) @ base))
     (post_loop post [Suc k..<length is] (fst s, snd s))"
    proof (rule Suc.hyps(1))
      show "n = length is - Suc k" using Suc.hyps(2) by simp
      show "objs (fst s) = swept is (Suc k)" using s upd by simp
      show "out (snd s) = rev (map wire (filter item_dirty (take (Suc k) is))) @ base"
        using s Suc.prems(4) k kth(1) by (auto simp: take_Suc_conv_app_nth split: if_splits)
    qed (use s k in auto)
    then show "sat (\<lambda>_ s'. winv (snd s') \<and> fst s' = db\<lparr>objs := map item_clean is\<rparr> \<and>
        out (snd s') = rev (map wire (filter item_dirty is)) @ base)
     (\<lambda>e s'. throws_class PostException e \<and> winv (snd s') \<and> (\<exists>j < length is. item_dirty (is ! j) \<and>
        fst s' = db\<lparr>objs := swept is (Suc j)\<rparr> \<and>
        out (snd s') = rev (map wire (filter item_dirty (take j is))) @ base))
     (post_loop post [Suc k..<length is] s)"
      using s by (cases s) simp
  qed (use k kth(1) upd Suc.prems(4) in auto)
qed

lemma post_all_sat:
  assumes "db_inv db" and "winv w"
  shows "sat (\<lambda>r s. r = status_OK \<and> winv (snd s) \<and> fst s = db\<lparr>objs := map item_clean (objs db)\<rparr> \<and>
        out (snd s) = rev (map wire (filter item_dirty (objs db))) @ out w)
     (\<lambda>e s. throws_class PostException e \<and> winv (snd s) \<and> (\<exists>j < length (objs db). item_dirty (objs db ! j) \<and>
        fst s = db\<lparr>objs := map item_clean (take (Suc j) (objs db)) @ drop (Suc j) (objs db)\<rparr> \<and>
        out (snd s) = rev (map wire (filter item_dirty (take j (objs db)))) @ out w))
     (postStatus_all post (db, w))"
proof -
  have "list_all wf_obj (objs db)" and sl: "slist db = [0..<length (objs db)]"
    using assms(1) by (simp_all add: db_inv_def list_all_iff)
  from post_loop_sat [OF this(1), of 0 db w "out w"] assms(2) show ?thesis
    by (auto simp: postStatus_all_def wp getStatusItems_def sl swept_def elim!: sat_mono)
qed

lemma post_name_sat:
  assumes "db_inv db" and "winv w"
  shows "sat (\<lambda>r s. winv (snd s) \<and> db_inv (fst s) \<and> db_later db (fst s) \<and> (case db_view db n of
        Some i \<Rightarrow> db_view (fst s) = (db_view db)(n \<mapsto> item_clean i) \<and>
          (if item_dirty i then r = status_OK \<and> out (snd s) = wire i # out w
           else r = status_ERROR \<and> snd s = w)
      | None \<Rightarrow> r = status_ERROR \<and> snd s = w \<and> db_view (fst s) = db_view db))
     (\<lambda>e s. throws_class PostException e \<and> winv (snd s) \<and> out (snd s) = out w \<and>
        db_inv (fst s) \<and> db_later db (fst s) \<and> (\<exists>i. db_view db n = Some i \<and> item_dirty i \<and> db_view (fst s) = (db_view db)(n \<mapsto> item_clean i)))
     (postStatus_name post n (db, w))"
proof -
  obtain db' where g: "getStatusItem n db = (Val (if n = [] then None else Option.bind (smap db n) id), db')"
    and s: "same_db db db'"
    using getStatusItem_run by blast
  have v: "db_view db' = db_view db" and inv: "db_inv db'"
    using same_db_view [OF s] same_db_inv [OF s assms(1)] .
  show ?thesis
  proof (cases "db_view db n")
    case None
    with g have "getStatusItem n db = (Val None, db')"
      by (auto simp: db_view_def split: if_splits option.splits)
    with None v inv assms(2) s show ?thesis
      by (simp add: postStatus_name_def wp same_db_def db_later_def)
  next
    case (Some i)
    then obtain a where a: "n \<noteq> []" "smap db n = Some (Some a)" "objs db ! a = i"
      by (auto simp: db_view_def split: if_splits option.splits)
    then have g': "getStatusItem n db = (Val (Some a), db')" and a': "smap db' n = Some (Some a)" "objs db' ! a = i"
      using g s by (auto simp: same_db_def)
    note wf = db_inv_ptr [OF inv a'(1)]
    have upd: "db_view (db'\<lparr>objs := (objs db')[a := item_clean i]\<rparr>) = (db_view db)(n \<mapsto> item_clean i)"
      using db_view_update [OF inv a(1) a'(1)] v by simp
    have "db_inv (db'\<lparr>objs := (objs db')[a := item_clean i]\<rparr>) \<and>
        db_later db' (db'\<lparr>objs := (objs db')[a := item_clean i]\<rparr>)"
      using a'(2) wf by (intro db_inv_clean [OF inv]) (auto simp: nth_list_update)
    moreover have "db_later db db'" using s by (simp add: same_db_def db_later_def)
    ultimately have kept: "db_inv (db'\<lparr>objs := (objs db')[a := item_clean i]\<rparr>)"
        "db_later db (db'\<lparr>objs := (objs db')[a := item_clean i]\<rparr>)"
      by (auto intro: db_later_trans)
    have "sat (\<lambda>r s. winv (snd s) \<and> fst s = db'\<lparr>objs := (objs db')[a := item_clean i]\<rparr> \<and>
        (if item_dirty i then r = status_OK \<and> out (snd s) = wire i # out w else r = status_ERROR \<and> snd s = w))
     (\<lambda>e s. throws_class PostException e \<and> winv (snd s) \<and> fst s = db'\<lparr>objs := (objs db')[a := item_clean i]\<rparr> \<and>
        item_dirty i \<and> out (snd s) = out w)
     (doPost post (Some a) (db', w))"
      by (rule doPost_sat [of a db' w, unfolded a'(2)]) (use wf assms(2) a'(2) in auto)
    then show ?thesis
      using Some g' upd kept by (auto simp: postStatus_name_def wp elim!: sat_mono)
  qed
qed

end

subsection \<open>The two transports\<close>

definition sender_ready :: "sender \<Rightarrow> 'a jms_scheme \<Rightarrow> bool" where
  "sender_ready sdr w \<longleftrightarrow> world_ok w \<and> alive (log w) (s_session sdr) \<and> alive (log w) (s_producer sdr) \<and>
     obj_at (s_session sdr) (log w) = Some Session \<and> obj_at (s_producer sdr) (log w) = Some (Producer None)"

lemma sender_ready_later:
  "sender_ready sdr w \<Longrightarrow> world_ok w' \<Longrightarrow> log_later (log w) (log w') \<Longrightarrow> sender_ready sdr w'"
  by (auto simp: sender_ready_def log_later_obj_at alive_less intro: log_later_alive)

text \<open>
  A failed post may leave the destination behind: it is a raw pointer that only the path
  without an exception deletes.
\<close>

definition failed_post :: "'a jms_scheme \<Rightarrow> 'a jms_scheme \<Rightarrow> bool" where
  "failed_post w w' \<longleftrightarrow> world_ok w' \<and> log_later (log w) (log w') \<and> env w' = env w \<and> sent (log w') = sent (log w) \<and>
     (raw_at (log w') = raw_at (log w) \<or> (\<exists>d. d \<ge> length (log w) \<and> raw_at (log w') = d # raw_at (log w)))"

lemma jms_postStatus_sat:
  assumes r: "sender_ready sdr w" and wf: "wf_obj i"
  shows "sat (\<lambda>r w'. r = status_OK \<and> delivered (status_topic (item_name i)) BytesMessage (item_fields i) w w')
     (\<lambda>e w'. throws_class PostException e \<and> failed_post w w') (jms_postStatus sdr i w)"
proof -
  let ?s = "s_session sdr" and ?p = "s_producer sdr" and ?m = "length (log w)"
  let ?xs = "item_fields i"
  let ?l = "(Create ?s BytesMessage RawPtr, True) # log w"
  let ?d = "length (puts_log ?m ?xs @ ?l)"
  let ?l2 = "(Create ?s (status_topic (item_name i)) RawPtr, True) # puts_log ?m ?xs @ ?l"
  have ok: "log_wf (log w)" "\<And>c. conn w = Some c \<Longrightarrow> alive (log w) c"
    and alv: "alive (log w) ?s" "alive (log w) ?p"
    using r by (auto simp: sender_ready_def world_ok_def)
  have fresh: "\<not> deleted ?m (log w)" "\<And>k. k \<ge> length (log w) \<Longrightarrow> \<not> deleted k (log w)"
    using log_wf_deleted [OF ok(1)] by (auto simp: linorder_not_less [symmetric])
  have cons: "contents ?m (log w) = []" using contents_late [OF ok(1)] by simp
  have out: "\<And>k. k \<ge> ?m \<Longrightarrow> filter (\<lambda>q. q \<noteq> k) (raw_at (log w)) = raw_at (log w)" by simp
  note ptrs = alive_def less_Suc_eq status_topic_def
  let ?E = "\<lambda>e w'. throws_class PostException e \<and> failed_post w w'"
  show ?thesis
    unfolding jms_postStatus_def accept_puts [OF wf] sat_throw_spec sat_thenp sat_set_msg sat_catchp sat_bindp
  proof (rule sat_jnew, goal_cases)
    case 1
    show ?case using alv by simp
  next
    case (2 t)
    show ?case
      using ok alv by (auto simp: wp failed_post_def world_ok_def ptrs)
  next
    case 3
    show ?case
    proof (rule sat_jputs, goal_cases)
      case 1
      show ?case using fresh by simp
    next
      case (2 t ys y zs)
      show ?case
        using ok alv fresh by (auto simp: wp failed_post_def world_ok_def ptrs)
    next
      case 3
      show ?case
        using ok alv fresh
        by (intro sat_jnew)
         (auto simp: wp failed_post_def delivered_def world_ok_def ptrs route_def cons
            intro!: sat_jcall)
    qed
  qed
qed

lemma item_fields_clean [simp]: "item_fields (item_clean i) = item_fields i"
  by (cases i) (simp_all add: item_fields_def item_name_def clearChanged_def)

definition status_wire :: "item \<Rightarrow> jms_obj option \<times> jms_obj option \<times> put list" where
  "status_wire i = (Some (status_topic (item_name i)), Some BytesMessage, item_fields i)"

interpretation jms_transport: status_transport "jms_postStatus sdr" "sender_ready sdr" "\<lambda>w. sent (log w)"
    status_wire for sdr
proof
  fix w :: jms and i assume w: "sender_ready sdr w" and i: "wf_obj i"
  then show "sat (\<lambda>r w'. r = status_OK \<and> sender_ready sdr w' \<and> sent (log w') = status_wire i # sent (log w))
      (\<lambda>e w'. throws_class PostException e \<and> sender_ready sdr w' \<and> sent (log w') = sent (log w))
      (jms_postStatus sdr i w)"
    by (intro sat_mono [OF jms_postStatus_sat [OF w i]])
      (auto simp: delivered_def failed_post_def status_wire_def intro: sender_ready_later)
qed (simp add: status_wire_def)

definition log_line :: "item \<Rightarrow> string" where
  "log_line i = ''Post Status Item '' @ item_name i"

interpretation log_transport: status_transport log_postStatus "\<lambda>_. True" "\<lambda>lines. lines" log_line
  by unfold_locales (simp_all add: log_postStatus_def wp log_line_def)

lemma new_JmsStatusSender_sat:
  assumes "world_ok w"
  shows "sat (\<lambda>sdr w'. sender_ready sdr w' \<and> calm w w')
    (\<lambda>e w'. throws_class CommunicationException e \<and> calm w w') (new_JmsStatusSender w)"
proof -
  let ?f = "jms.extend w (members.fields None None None None)"
  have f: "world_ok ?f" "m_session ?f = None" "m_producer ?f = None" "m_consumer ?f = None"
    using assms by (simp_all add: jms.extend_def members.fields_def world_ok_def)
  have tail: "sat (\<lambda>sdr f'. sender_ready sdr f' \<and> calm f f') (\<lambda>e f'. is_cms e \<and> calm f f' \<and> members_alive f')
     (thenp (modifies (\<lambda>w. w\<lparr>m_session := Some s\<rparr>))
       (bindp (jnew s (Producer None) SharedPtr) (\<lambda>p.
        thenp (modifies (\<lambda>w. w\<lparr>m_producer := Some p\<rparr>))
       (thenp (jcall (SetNonPersistent p))
       (thenp (jcall (SetTimeToLive p (10 * 1000)))
       (ret \<lparr>s_session = s, s_producer = p\<rparr>))))) f)"
    if "world_ok f" "alive (log f) s" "obj_at s (log f) = Some Session" "m_producer f = None" "m_consumer f = None" for s f
    using that alive_fresh [of "log f"] unfolding wp
    by (intro sat_jnew)
      (auto simp: wp world_ok_def calm_def sender_ready_def members_alive_def alive_def less_Suc_eq
        intro!: sat_jcall dest: log_wf_deleted)
  show ?thesis
    unfolding new_JmsStatusSender_def sat_throw_spec sat_with_members sat_catchp
  proof (subst sat_thenp, rule sat_mono [OF Instance_sat [OF f(1)]], goal_cases)
    case (1 u s)
    then obtain c where s: "quiet ?f s" "conn s = Some c" by blast
    then have ok: "world_ok s" "calm ?f s" "m_producer s = None" "m_session s = None" "m_consumer s = None"
      using members_more [of s ?f] f by (auto simp: quiet_def intro: calm_ok)
    show ?case
    proof (subst sat_bindp, rule sat_mono [OF createSession_sat [OF ok(1) s(2)]], goal_cases)
      case (1 x v)
      then have "world_ok v" "alive (log v) x" "obj_at x (log v) = Some Session" "m_producer v = None" "m_consumer v = None" "calm ?f v"
        using members_more [of v s] ok by (auto simp: quiet_def intro: calm_ok calm_trans)
      then show ?case
        by (intro sat_mono [OF tail])
          (auto simp: sat_thenp sender_ready_def elim!: sat_mono [OF cleanup_sat] intro: calm_trans)
    next
      case (2 e v)
      then have "members_alive v" "calm ?f v"
        using members_more [of v s] ok by (auto simp: quiet_def members_alive_def intro: calm_ok calm_trans)
      with 2 show ?case
        by (auto simp: sat_thenp elim!: sat_mono [OF cleanup_sat] intro: calm_trans)
    qed
  next
    case (2 e s)
    then have "throws_class CommunicationException e \<and> \<not> is_cms e"
      by (cases e) (auto intro: exn_is_a_trans exn_is_a_simps)
    with 2 show ?case by (auto simp: quiet_def)
  qed
qed

end
