(* ===== verification/Listeners.thy ===== *)
theory Listeners
  imports Message_Posts
begin

section \<open>Objects that listen to a topic\<close>

text \<open>
  \<open>SequenceCommandConsumer\<close> and \<open>EpicsConsumer\<close> are built alike: a constructor creates a session
  and a consumer of a topic and makes the object its listener, the destructor closes both. What
  the two share is here, with the facts on who listens that the services of commands and of EPICS
  channels rest on.
\<close>

subsection \<open>Construction and destruction\<close>

record listener =
  c_session :: ptr
  c_consumer :: ptr

definition cleanup_consumer :: "(members, unit) prog" where
  "cleanup_consumer = thenp (close_quietly m_consumer) (close_quietly m_session)"

text \<open>The body both constructors have, with the topic, the selector and the text of the error.\<close>

definition open_listener :: "string \<Rightarrow> string option \<Rightarrow> string \<Rightarrow> (jms, listener) prog" where
  "open_listener topic sel err = throw_spec (throws_class CommunicationException) (with_members (
     catchp
       (thenp Instance
       (bindp createSession (\<lambda>s.
        thenp (modifies (\<lambda>w. w\<lparr>m_session := Some s\<rparr>))
       (bindp (jnew s (Topic topic) SharedPtr) (\<lambda>d.
        thenp (modifies (\<lambda>w. w\<lparr>m_destination := Some d\<rparr>))
       (bindp (jnew s (Consumer d sel) SharedPtr) (\<lambda>c.
        thenp (modifies (\<lambda>w. w\<lparr>m_consumer := Some c\<rparr>))
       (thenp (jcall (SetListener c))
       (ret \<lparr>c_session = s, c_consumer = c\<rparr>)))))))))
       is_cms (\<lambda>e. thenp cleanup_consumer (throw (gexn CommunicationException (err @ exn_text e))))))"

text \<open>The destructors close the consumer and the session, and swallow what they throw.\<close>

definition destroy_listener :: "'c listener_scheme \<Rightarrow> ('a jms_scheme, unit) prog" where
  "destroy_listener c =
     thenp (catchp (jcall (CloseObj (c_consumer c))) is_cms (\<lambda>e. ret ()))
       (catchp (jcall (CloseObj (c_session c))) is_cms (\<lambda>e. ret ()))"

subsection \<open>Reading a received message\<close>

fun read_call :: "jms_call \<Rightarrow> bool" where
  "read_call (GetMapNames p) = True"
| "read_call (GetIntProperty p k) = True"
| "read_call (GetStringProperty p k) = True"
| "read_call (GetString p k) = True"
| "read_call (GetReplyTo p) = True"
| "read_call (GetText p) = True"
| "read_call (ReadInt p) = True"
| "read_call (ReadByte p) = True"
| "read_call (ReadBytesDouble p) = True"
| "read_call (ReadUTF p) = True"
| "read_call (ReadShort p) = True"
| "read_call (ReadFloat p) = True"
| "read_call (ReadBlock p n) = True"
| "read_call (ResetMsg p) = True"
| "read_call _ = False"

lemma sat_jread:
  assumes "world_ok w" and "read_call c" and "pointers c = [m]" and "alive (log w) m"
  shows "sat (\<lambda>_ w'. quiet w w' \<and> log w' = (c, True) # log w) (\<lambda>e w'. is_cms e \<and> quiet w w') (jread f c w)"
proof -
  have c: "\<And>p. c \<noteq> Delete p" "raw_at ((c, b) # l) = raw_at l" "sent ((c, b) # l) = sent l" for b l
    using assms(2) by (cases c; cases b; simp)+
  have "quiet w (w\<lparr>log := (c, b) # log w\<rparr>)" for b
    using assms c by (auto simp: quiet_def calm_def world_ok_def alive_def)
  then show ?thesis
    unfolding jread_def wp using assms(3,4) by (intro sat_jcall) simp_all
qed

subsection \<open>Who listens\<close>

text \<open>
  The consumers that have a listener and that nobody has tried to close, the latest first. All of
  them are consumers, so closing a session or a producer does not silence one.
\<close>

fun listening :: "jms_log \<Rightarrow> ptr list" where
  "listening [] = []"
| "listening ((SetListener p, True) # l) = p # listening l"
| "listening ((CloseObj p, b) # l) = filter (\<lambda>q. q \<noteq> p) (listening l)"
| "listening (e # l) = listening l"

definition typed_listeners :: "jms_log \<Rightarrow> bool" where
  "typed_listeners l \<longleftrightarrow> (\<forall>p \<in> set (listening l). \<exists>d sel. obj_at p l = Some (Consumer d sel))"

definition unheard :: "jms_log \<Rightarrow> jms_log \<Rightarrow> bool" where
  "unheard l l' \<longleftrightarrow> suffix l l' \<and> listening l' = listening l"

lemma unheard_refl [simp]: "unheard l l"
  by (simp add: unheard_def)

lemma unheard_trans: "unheard a b \<Longrightarrow> unheard b c \<Longrightarrow> unheard a c"
  by (auto simp: unheard_def intro: suffix_order.trans)

lemma listening_skip:
  "(\<And>p. c \<noteq> SetListener p) \<Longrightarrow> (\<And>p. c \<noteq> CloseObj p) \<Longrightarrow> listening ((c, b) # l) = listening l"
  by (cases c; cases b) auto

lemma listening_failed [simp]: "listening ((SetListener p, False) # l) = listening l"
  by simp

lemma obj_at_suffix: "suffix l l' \<Longrightarrow> obj_at p l = Some x \<Longrightarrow> obj_at p l' = Some x"
  using obj_at_less by (fastforce simp: suffix_def)

lemma typed_unheard: "unheard l l' \<Longrightarrow> typed_listeners l \<Longrightarrow> typed_listeners l'"
  unfolding typed_listeners_def unheard_def by (metis obj_at_suffix)

text \<open>Closing something else than a consumer, or something newer than all that listens.\<close>

lemma unheard_close:
  assumes "typed_listeners l" and "unheard l l'" and "p \<ge> length l \<or> (\<forall>d sel. obj_at p l' \<noteq> Some (Consumer d sel))"
  shows "unheard l ((CloseObj p, b) # l')"
proof -
  have "q \<noteq> p" if q: "q \<in> set (listening l)" for q
  proof -
    obtain d sel where "obj_at q l = Some (Consumer d sel)"
      using assms(1) q unfolding typed_listeners_def by blast
    then show ?thesis
      using assms(2,3) obj_at_less [of q l] obj_at_suffix [of l l' q] by (auto simp: unheard_def)
  qed
  with assms(2) show ?thesis
    by (auto simp: unheard_def filter_id_conv intro: suffix_ConsI)
qed

lemma unheard_call:
  "unheard l l' \<Longrightarrow> (\<And>p. c \<noteq> SetListener p) \<Longrightarrow> (\<And>p. c \<noteq> CloseObj p) \<Longrightarrow> unheard l ((c, b) # l')"
  by (auto simp: unheard_def listening_skip intro: suffix_ConsI)

lemma unheard_failed: "unheard l l' \<Longrightarrow> unheard l ((SetListener p, False) # l')"
  by (auto simp: unheard_def intro: suffix_ConsI)

lemma unheard_heard: "unheard l l' \<Longrightarrow> listening l' = listening l"
  by (simp add: unheard_def)

lemma startup_unheard:
  assumes "world_ok w"
  shows "sat (\<lambda>_ w'. unheard (log w) (log w')) (\<lambda>e w'. throws_class GmpException e \<and> unheard (log w) (log w')) (startup w)"
  using assms alive_fresh [of "log w"]
  unfolding startup_def jfactory_def wp
  by (intro sat_jcall sat_jnew conjI)
    (auto simp: wp world_ok_def alive_def less_Suc_eq unheard_call intro!: sat_jcall sat_jnew dest: log_wf_deleted)

lemma Instance_unheard:
  assumes "world_ok w"
  shows "sat (\<lambda>_ w'. unheard (log w) (log w')) (\<lambda>_ w'. unheard (log w) (log w')) (Instance w)"
  using startup_unheard [OF assms] by (auto simp: Instance_def wp elim!: sat_mono)

lemma createSession_unheard:
  assumes "world_ok w" and "conn w = Some c"
  shows "sat (\<lambda>_ w'. unheard (log w) (log w')) (\<lambda>_ w'. unheard (log w) (log w')) (createSession w)"
  using assms by (auto simp: createSession_def wp world_ok_def unheard_call intro!: sat_jnew)

subsection \<open>Construction of a consumer\<close>

text \<open>What a constructor does once it has a session, and when it gets none.\<close>

lemma session_then:
  assumes f: "world_ok f"
    and rest: "\<And>s v. quiet f v \<Longrightarrow> unheard (log f) (log v) \<Longrightarrow> alive (log v) s \<Longrightarrow>
      obj_at s (log v) = Some Session \<Longrightarrow> sat Q E (k s v)"
    and fail: "\<And>e v. is_cms e \<or> throws_class CommunicationException e \<and> \<not> is_cms e \<Longrightarrow> quiet f v \<Longrightarrow>
      unheard (log f) (log v) \<Longrightarrow> E e v"
  shows "sat Q E (thenp Instance (bindp createSession k) f)"
proof (subst sat_thenp, rule sat_mono [OF sat_conj [OF Instance_sat [OF f] Instance_unheard [OF f]]], goal_cases)
  case (1 u s)
  then obtain c where s: "quiet f s" "conn s = Some c" "unheard (log f) (log s)" by blast
  have ok: "world_ok s" using s(1) by (simp add: quiet_def calm_def)
  show ?case
  proof (subst sat_bindp, rule sat_mono [OF sat_conj [OF createSession_sat [OF ok s(2)] createSession_unheard [OF ok s(2)]]], goal_cases)
    case (1 x v)
    with s show ?case by (intro rest) (auto intro: quiet_trans unheard_trans)
  next
    case (2 e v)
    with s show ?case by (intro fail) (auto intro: quiet_trans unheard_trans)
  qed
next
  case (2 e s)
  then have "throws_class CommunicationException e \<and> \<not> is_cms e"
    by (cases e) (auto intro: exn_is_a_trans exn_is_a_simps)
  with 2 show ?case by (intro fail) auto
qed

definition harmless :: "jms_log \<Rightarrow> ptr \<Rightarrow> jms_log \<Rightarrow> bool" where
  "harmless base p l \<longleftrightarrow> alive l p \<and> (length base \<le> p \<or> (\<forall>d sel. obj_at p l \<noteq> Some (Consumer d sel)))"

lemma close_quietly_unheard:
  assumes "world_ok f" and "\<And>p. get f = Some p \<Longrightarrow> harmless base p (log f)"
    and "typed_listeners base" and "unheard base (log f)"
  shows "sat (\<lambda>_ f'. quiet f f' \<and> unheard base (log f')) (\<lambda>_ _. False) (close_quietly get f)"
proof (cases "get f")
  case None
  with assms show ?thesis by (simp add: close_quietly_def wp quiet_refl)
next
  case (Some p)
  with assms(2) have p: "harmless base p (log f)" by simp
  then have "unheard base ((CloseObj p, b) # log f)" for b
    using assms(3,4) by (auto simp: harmless_def intro: unheard_close)
  moreover have "quiet f (f\<lparr>log := (CloseObj p, b) # log f\<rparr>)" for b
    using assms(1) p by (auto simp: quiet_def calm_def world_ok_def harmless_def alive_def)
  ultimately show ?thesis
    using p by (auto simp: close_quietly_def wp Some harmless_def intro!: sat_jcall)
qed

lemma harmless_quiet: "harmless base p (log f) \<Longrightarrow> quiet f f' \<Longrightarrow> harmless base p (log f')"
  using calm_obj_at [OF quiet_calm, of f f' p] calm_alive [OF quiet_calm, of f f' p] by (auto simp: harmless_def)

text \<open>The two ways to clean up: the session and what it was for.\<close>

lemma cleanup_both:
  assumes f: "world_ok f" "typed_listeners base" "unheard base (log f)"
    and "\<And>p. get f = Some p \<Longrightarrow> harmless base p (log f)" and "\<And>p. m_session f = Some p \<Longrightarrow> harmless base p (log f)"
  shows "sat (\<lambda>_ f'. calm f f' \<and> unheard base (log f')) (\<lambda>_ _. False)
    (thenp (close_quietly get) (close_quietly m_session) f)"
  unfolding sat_thenp
proof (rule sat_mono [OF close_quietly_unheard [OF f(1) assms(4) f(2,3)]], goal_cases)
  case (2 u v)
  then have v: "quiet f v" "unheard base (log v)" by simp_all
  then have "world_ok v" "m_session v = m_session f" using members_more [of v f] by (auto simp: quiet_def calm_def)
  moreover from this(2) have "\<And>p. m_session v = Some p \<Longrightarrow> harmless base p (log v)"
    using harmless_quiet [OF assms(5) v(1)] by simp
  ultimately show ?case
    using v f(2) by (intro sat_mono [OF close_quietly_unheard]) (auto intro: calm_trans quiet_calm)
qed auto

lemma cleanup_unheard:
  assumes "world_ok g" "typed_listeners base" "unheard base (log g)" "\<And>p. m_producer g = Some p \<Longrightarrow> harmless base p (log g)"
    "\<And>p. m_session g = Some p \<Longrightarrow> harmless base p (log g)"
  shows "sat (\<lambda>_ f. unheard base (log f)) (\<lambda>e f. throws_class CommunicationException e \<and> unheard base (log f)) (cleanup g)"
  unfolding cleanup_def by (rule sat_mono [OF cleanup_both]) (use assms in auto)

lemma open_producer_unheard:
  assumes w: "world_ok w" "typed_listeners (log w)" and dest: "dest = Topic n \<or> dest = Queue n"
  shows "sat (\<lambda>_ w'. unheard (log w) (log w')) (\<lambda>_ w'. unheard (log w) (log w')) (open_producer dest err w)"
proof -
  let ?f = "jms.extend w (members.fields None None None None)"
  have f: "world_ok ?f" "log ?f = log w" "m_session ?f = None" "m_producer ?f = None"
    using w by (simp_all add: jms.extend_def members.fields_def world_ok_def)
  note clean = cleanup_unheard [OF _ w(2)]
  have ptrs: "pointers (Create s dest SharedPtr) = [s]" for s using dest by auto
  show ?thesis
    unfolding open_producer_def sat_throw_spec sat_with_members sat_catchp frame_fields
  proof (rule session_then [OF f(1)], goal_cases)
    case (1 s v)
    then have v: "world_ok v" "alive (log v) s" "obj_at s (log v) = Some Session" "m_producer v = None"
      "unheard (log w) (log v)"
      using members_more [of v ?f] f by (auto simp: quiet_def calm_def)
    moreover from this have "length (log w) \<le> length (log v)" "s < length (log v)"
      by (auto simp: unheard_def alive_def dest: suffix_length_le)
    ultimately show ?case
      unfolding sat_thenp sat_modifies sat_bindp
      by (intro sat_jnew)
        (auto simp: ptrs wp alive_def harmless_def less_Suc_eq unheard_call world_ok_def log_wf_deleted obj_at_less
          intro!: sat_jnew clean dest: log_wf_deleted)
  next
    case (2 e v)
    then have "world_ok v" "m_producer v = None" "m_session v = None" "unheard (log w) (log v)"
      using members_more [of v ?f] f by (auto simp: quiet_def calm_def)
    with 2 show ?case by (auto simp: wp intro!: clean)
  qed
qed

lemma destroy_producer_unheard:
  assumes "ready p d w" and "typed_listeners (log w)"
  shows "sat (\<lambda>_ w'. calm w w' \<and> unheard (log w) (log w')) (\<lambda>_ _. False) (destroy_producer p w)"
proof -
  have "unheard (log w) ((CloseObj (p_session p), b) # (CloseObj (p_producer p), b') # log w)" for b b'
    using assms by (intro unheard_close) (auto simp: ready_def dest: obj_at_less)
  then show ?thesis
    by (intro sat_mono [OF destroy_producer_sat [OF assms(1)]]) auto
qed

definition consumer_ready :: "'c listener_scheme \<Rightarrow> 'a jms_scheme \<Rightarrow> bool" where
  "consumer_ready c w \<longleftrightarrow> world_ok w \<and> alive (log w) (c_session c) \<and> alive (log w) (c_consumer c)"

lemma consumer_ready_later:
  "consumer_ready c w \<Longrightarrow> world_ok w' \<Longrightarrow> log_later (log w) (log w') \<Longrightarrow> consumer_ready c w'"
  by (auto simp: consumer_ready_def intro: log_later_alive)

text \<open>
  An object that has been constructed listens to its topic with its selector; a constructor that
  throws leaves nobody listening.
\<close>

definition hears :: "'c listener_scheme \<Rightarrow> string \<Rightarrow> string option \<Rightarrow> jms_log \<Rightarrow> bool" where
  "hears c topic sel l \<longleftrightarrow> (\<exists>d. obj_at (c_consumer c) l = Some (Consumer d sel) \<and> obj_at d l = Some (Topic topic))"

definition subscribed :: "'c listener_scheme \<Rightarrow> 'a jms_scheme \<Rightarrow> 'b jms_scheme \<Rightarrow> bool" where
  "subscribed c w w' \<longleftrightarrow> calm w w' \<and> consumer_ready c w' \<and> obj_at (c_session c) (log w') = Some Session \<and>
     length (log w) \<le> c_consumer c \<and> listening (log w') = c_consumer c # listening (log w)"

lemma cleanup_consumer_unheard:
  assumes "world_ok g" "typed_listeners base" "unheard base (log g)" "\<And>p. m_consumer g = Some p \<Longrightarrow> harmless base p (log g)"
    "\<And>p. m_session g = Some p \<Longrightarrow> harmless base p (log g)" "calm f g"
  shows "sat (\<lambda>_ f'. calm f f' \<and> unheard base (log f')) (\<lambda>_ _. False) (cleanup_consumer g)"
  unfolding cleanup_consumer_def
  by (rule sat_mono [OF cleanup_both]) (use assms in \<open>auto intro: calm_trans\<close>)

lemma open_listener_sat:
  assumes w: "world_ok w" "typed_listeners (log w)"
  shows "sat (\<lambda>c w'. subscribed c w w' \<and> hears c topic sel (log w'))
    (\<lambda>e w'. throws_class CommunicationException e \<and> calm w w' \<and> unheard (log w) (log w'))
    (open_listener topic sel err w)"
proof -
  let ?f = "jms.extend w (members.fields None None None None)"
  have f: "world_ok ?f" "log ?f = log w" "m_session ?f = None" "m_consumer ?f = None"
    using w by (simp_all add: jms.extend_def members.fields_def world_ok_def)
  show ?thesis
    unfolding open_listener_def sat_throw_spec sat_with_members sat_catchp frame_fields
  proof (rule session_then [OF f(1)], goal_cases)
    case (1 s v)
    then have v: "world_ok v" "alive (log v) s" "obj_at s (log v) = Some Session" "m_consumer v = None"
      "unheard (log w) (log v)" "calm w v"
      using members_more [of v ?f] f by (auto simp: quiet_def calm_def)
    from v have len: "length (log w) \<le> length (log v)" "s < length (log v)"
      by (auto simp: unheard_def alive_def dest: suffix_length_le)
    note cl = cleanup_consumer_unheard [where base = "log w" and f = w, OF _ w(2)]
    from v len show ?case
      unfolding sat_thenp sat_modifies sat_bindp
      by (intro sat_jnew)
        (auto simp: wp alive_def harmless_def less_Suc_eq unheard_call unheard_failed unheard_heard world_ok_def
          calm_def subscribed_def hears_def consumer_ready_def
          intro!: sat_jnew sat_jcall sat_mono [OF cl] dest: log_wf_deleted obj_at_less)
  next
    case (2 e v)
    then have "world_ok v" "m_consumer v = None" "m_session v = None" "unheard (log w) (log v)" "calm w v"
      using members_more [of v ?f] f by (auto simp: quiet_def calm_def)
    with 2 show ?case 
      by (auto simp: wp intro!: sat_mono [OF cleanup_consumer_unheard [where base = "log w" and f = w, OF _ w(2)]])
  qed
qed

subsection \<open>The set of those who listen\<close>

text \<open>
  The invariant of the services: the consumers that listen are those of a set of objects, and
  those of \<open>F\<close>, which belong to other services. A service alone has no others.
\<close>

definition served_with :: "ptr set \<Rightarrow> 'c listener_scheme set \<Rightarrow> 'a jms_scheme \<Rightarrow> bool" where
  "served_with F R w \<longleftrightarrow> world_ok w \<and> typed_listeners (log w) \<and>
     set (listening (log w)) = c_consumer ` R \<union> F \<and> c_consumer ` R \<inter> F = {} \<and>
     inj_on c_consumer R \<and> (\<forall>x \<in> R. consumer_ready x w \<and> obj_at (c_session x) (log w) = Some Session)"

abbreviation served :: "'c listener_scheme set \<Rightarrow> 'a jms_scheme \<Rightarrow> bool" where
  "served \<equiv> served_with {}"

lemmas served_def = served_with_def [where F = "{}"]

lemma served_less: "served_with F R w \<Longrightarrow> p \<in> set (listening (log w)) \<Longrightarrow> p < length (log w)"
  unfolding served_with_def typed_listeners_def by (metis obj_at_less)

lemma consumer_ready_calm: "consumer_ready x w \<Longrightarrow> calm w w' \<Longrightarrow> consumer_ready x w'"
  by (auto simp: calm_def intro: consumer_ready_later)

lemma served_calm:
  assumes "served_with F R w" and "calm w w'" and "listening (log w') = listening (log w)"
  shows "served_with F R w'"
proof -
  have "unheard (log w) (log w')" using assms(2,3) by (auto simp: calm_def unheard_def log_later_def)
  with assms show ?thesis
    unfolding served_with_def
    by (auto simp: calm_ok calm_obj_at consumer_ready_def intro: typed_unheard calm_alive [OF assms(2)])
qed

lemma destroy_listener_sat:
  assumes "served_with F R w" and "x \<in> R"
  shows "sat (\<lambda>_ w'. quiet w w' \<and> served_with F (R - {x}) w') (\<lambda>_ _. False) (destroy_listener x w)"
proof -
  let ?c = "c_consumer x" and ?s = "c_session x"
  have x: "world_ok w" "alive (log w) ?s" "alive (log w) ?c" "obj_at ?s (log w) = Some Session"
    "typed_listeners (log w)" and L: "set (listening (log w)) = c_consumer ` R \<union> F" "inj_on c_consumer R"
      "c_consumer ` R \<inter> F = {}"
    and ready: "\<And>y. y \<in> R \<Longrightarrow> consumer_ready y w \<and> obj_at (c_session y) (log w) = Some Session"
    using assms by (auto simp: served_with_def consumer_ready_def)
  have sess: "?s \<notin> set (listening (log w))"
    using x(4,5) by (auto simp: typed_listeners_def)
  have ended: "quiet w v \<and> served_with F (R - {x}) v"
    if "v = w\<lparr>log := (CloseObj ?s, b) # (CloseObj ?c, b') # log w\<rparr>" for v b b'
  proof
    show q: "quiet w v"
      using x that by (auto simp: quiet_def calm_def world_ok_def alive_def)
    have l: "listening (log v) = filter (\<lambda>q. q \<noteq> ?c) (listening (log w))"
      using sess that by (auto intro!: filter_cong)
    have "typed_listeners (log v)"
      unfolding typed_listeners_def
    proof
      fix p assume "p \<in> set (listening (log v))"
      then have "p \<in> set (listening (log w))" by (simp add: l)
      with x(5) obtain d sel where "obj_at p (log w) = Some (Consumer d sel)"
        unfolding typed_listeners_def by blast
      moreover have "suffix (log w) (log v)" using q by (simp add: quiet_def calm_def log_later_def)
      ultimately show "\<exists>d sel. obj_at p (log v) = Some (Consumer d sel)" by (blast intro: obj_at_suffix)
    qed
    moreover have "set (listening (log v)) = c_consumer ` (R - {x}) \<union> F"
      using l L assms(2) by (auto dest: inj_onD)
    moreover have "c_consumer ` (R - {x}) \<inter> F = {}" using L(3) by blast
    moreover have "inj_on c_consumer (R - {x})" using L(2) by (rule inj_on_subset) auto
    ultimately show "served_with F (R - {x}) v"
      using ready calm_obj_at [OF quiet_calm [OF q]] calm_alive [OF quiet_calm [OF q]] calm_ok [OF quiet_calm [OF q]]
      by (auto simp: served_with_def consumer_ready_def)
  qed
  show ?thesis
    using x unfolding destroy_listener_def wp
    by (intro sat_jcall) (auto simp: wp alive_def intro!: sat_jcall ended)
qed

lemma served_subscribed:
  assumes s: "served_with F R w" and c: "subscribed c w w'" "hears c topic sel (log w')"
  shows "served_with F (insert c R) w'" "c \<notin> R"
proof -
  from c have cc: "calm w w'" "consumer_ready c w'" "obj_at (c_session c) (log w') = Some Session"
    "length (log w) \<le> c_consumer c" "listening (log w') = c_consumer c # listening (log w)"
    by (auto simp: subscribed_def)
  have old: "c_consumer x < length (log w)" if "x \<in> R" for x
    using s that by (auto simp: served_with_def consumer_ready_def alive_def)
  then show "c \<notin> R" using cc(4) by fastforce
  have "inj_on c_consumer (insert c R)"
    using s old cc(4) by (auto simp: served_with_def) (metis imageE linorder_not_le)
  moreover have "c_consumer ` insert c R \<inter> F = {}"
    using s served_less [OF s] cc(4) by (fastforce simp: served_with_def)
  moreover have "typed_listeners (log w')"
    unfolding typed_listeners_def cc(5)
  proof
    fix p assume p: "p \<in> set (c_consumer c # listening (log w))"
    show "\<exists>d sel. obj_at p (log w') = Some (Consumer d sel)"
    proof (cases "p = c_consumer c")
      case True
      with c(2) show ?thesis by (auto simp: hears_def)
    next
      case False
      with p have "p \<in> set (listening (log w))" by simp
      with s obtain d sel where "obj_at p (log w) = Some (Consumer d sel)"
        unfolding served_with_def typed_listeners_def by blast
      moreover have "suffix (log w) (log w')" using cc(1) by (simp add: calm_def log_later_def)
      ultimately show ?thesis by (blast intro: obj_at_suffix)
    qed
  qed
  ultimately show "served_with F (insert c R) w'"
    using s cc calm_alive [OF cc(1)] calm_obj_at [OF cc(1)] calm_ok [OF cc(1)]
    by (auto simp: served_with_def consumer_ready_def)
qed

lemma hears_later: "hears c t s l \<Longrightarrow> log_later l l' \<Longrightarrow> hears c t s l'"
  unfolding hears_def log_later_def by (blast intro: obj_at_suffix)

lemma hears_topic: "hears c t s l \<Longrightarrow> hears c t' s' l \<Longrightarrow> t = t'"
  by (auto simp: hears_def)

subsection \<open>Programs that leave the listeners alone\<close>

text \<open>A program that neither adds nor silences a listener, by its form.\<close>

definition mutes :: "('a jms_scheme, 'r) prog \<Rightarrow> bool" where
  "mutes m \<longleftrightarrow> (\<forall>w. unheard (log w) (log (snd (m w))))"

named_theorems mute_intros "programs that leave the listeners alone"

lemma mutes_simple [mute_intros]: "mutes (ret x)" "mutes (throw e)" "mutes undef" "mutes (reads f)" "mutes (set_msg p)"
  by (simp_all add: mutes_def set_msg_def)

lemma mutes_bindp [mute_intros]:
  assumes "mutes m" and "\<And>x. mutes (f x)"
  shows "mutes (bindp m f)"
  unfolding mutes_def
proof
  fix w
  from assms(1) have "unheard (log w) (log (snd (m w)))" by (simp add: mutes_def)
  with assms(2) show "unheard (log w) (log (snd (bindp m f w)))"
    by (cases "m w" rule: res_cases) (auto simp: bindp_def mutes_def intro: unheard_trans)
qed

lemma mutes_thenp [mute_intros]: "mutes m \<Longrightarrow> mutes k \<Longrightarrow> mutes (thenp m k)"
  by (simp add: thenp_def mutes_bindp)

lemma mutes_catchp [mute_intros]:
  assumes "mutes m" and "\<And>e. mutes (h e)"
  shows "mutes (catchp m C h)"
  unfolding mutes_def
proof
  fix w
  from assms(1) have "unheard (log w) (log (snd (m w)))" by (simp add: mutes_def)
  with assms(2) show "unheard (log w) (log (snd (catchp m C h w)))"
    by (cases "m w" rule: res_cases) (auto simp: catchp_def mutes_def intro: unheard_trans)
qed

lemma mutes_throw_spec [mute_intros]:
  assumes "mutes m"
  shows "mutes (throw_spec C m)"
  unfolding mutes_def
proof
  fix w
  from assms have "unheard (log w) (log (snd (m w)))" by (simp add: mutes_def)
  then show "unheard (log w) (log (snd (throw_spec C m w)))"
    by (cases "m w" rule: res_cases) (auto simp: throw_spec_def)
qed

lemma mutes_jcall: "(\<And>p. c \<noteq> SetListener p) \<Longrightarrow> (\<And>p. c \<noteq> CloseObj p) \<Longrightarrow> mutes (jcall c)"
  by (auto simp: mutes_def jcall_def unheard_call split: option.split)

lemma mutes_calls [mute_intros]:
  "mutes (jnew s ob h)" "mutes (jput m x)" "mutes (jdelete p)" "mutes (send pr m)"
  by (simp_all add: jnew_def jput_def send_def mutes_jcall mute_intros)
    (simp add: mutes_def jdelete_def unheard_call)

lemma mutes_jputs [mute_intros]: "mutes (jputs m xs)"
  by (induction xs) (simp_all add: mute_intros del: ret_run)

lemma mutes_delete_msg [mute_intros]: "mutes delete_msg"
  unfolding delete_msg_def by (intro mute_intros) (simp add: mute_intros split: option.split)

text \<open>What a later world keeps of an earlier one when nobody starts or stops to listen in between.\<close>

definition net_later :: "'a jms_scheme \<Rightarrow> 'b jms_scheme \<Rightarrow> bool" where
  "net_later w w' \<longleftrightarrow> log_later (log w) (log w') \<and> unheard (log w) (log w') \<and> env w' = env w \<and>
     suffix (sent (log w)) (sent (log w'))"

lemma net_later_refl [simp]: "net_later w w"
  by (simp add: net_later_def)

lemma net_later_trans: "net_later a b \<Longrightarrow> net_later b c \<Longrightarrow> net_later a c"
  by (auto simp: net_later_def intro: log_later_trans unheard_trans suffix_order.trans)

lemma net_later_calm: "calm w w' \<Longrightarrow> unheard (log w) (log w') \<Longrightarrow> net_later w w'"
  by (simp add: net_later_def calm_def)

lemma net_later_typed: "net_later w w' \<Longrightarrow> typed_listeners (log w) \<Longrightarrow> typed_listeners (log w')"
  by (auto simp: net_later_def intro: typed_unheard)

lemma sat_mutes: "sat Q E (m w) \<Longrightarrow> mutes m \<Longrightarrow>
    sat (\<lambda>x w'. Q x w' \<and> unheard (log w) (log w')) (\<lambda>e w'. E e w' \<and> unheard (log w) (log w')) (m w)"
  unfolding mutes_def by (cases "m w" rule: res_cases) (auto dest: spec [of _ w])

end
