(* ===== verification/Status_Service.thy ===== *)
theory Status_Service
  imports Status_Sender Listeners
begin

section \<open>The status service as a whole\<close>

text \<open>
  \<open>StatusSenderFactoryImpl\<close> and all of \<open>StatusUtil\<close>: the calls that work on the database and
  the two that post. The state has the database, the senders the factory has made, the world
  of the messaging library and the text logged by the log sender.
\<close>

subsection \<open>The factory of senders\<close>

datatype sender_type = LOG_SENDER | JMS_SENDER | Elements

datatype any_sender = LogSender | JmsSender sender

record status_service =
  sv_db :: database
  sv_senders :: "sender_type \<rightharpoonup> any_sender"
  sv_net :: jms
  sv_lines :: "string list"

definition on_sv_net :: "(jms, 'a) prog \<Rightarrow> (status_service, 'a) prog" where
  "on_sv_net m = on_part sv_net (\<lambda>w s. s\<lparr>sv_net := w\<rparr>) m"

definition DEFAULT_SENDER :: sender_type where
  "DEFAULT_SENDER = JMS_SENDER"

definition store_sender :: "sender_type \<Rightarrow> any_sender \<Rightarrow> (status_service, any_sender) prog" where
  "store_sender ty x = thenp (modifies (\<lambda>s. s\<lparr>sv_senders := (sv_senders s)(ty \<mapsto> x)\<rparr>)) (ret x)"

text \<open>
  The array of senders has a place for each type but \<open>Elements\<close>: with that argument the code
  reads behind its end before it comes to the default case.
\<close>

definition getStatusSender :: "sender_type \<Rightarrow> (status_service, any_sender) prog" where
  "getStatusSender ty = (if ty = Elements then undef else
     bindp (reads (\<lambda>s. sv_senders s ty)) (\<lambda>p. case p of
       Some x \<Rightarrow> ret x
     | None \<Rightarrow> (case ty of
         LOG_SENDER \<Rightarrow> store_sender LOG_SENDER LogSender
       | JMS_SENDER \<Rightarrow> bindp (on_sv_net new_JmsStatusSender) (\<lambda>sdr. store_sender JMS_SENDER (JmsSender sdr))
       | Elements \<Rightarrow> undef)))"

definition getStatusSender_default :: "(status_service, any_sender) prog" where
  "getStatusSender_default = getStatusSender DEFAULT_SENDER"

subsection \<open>StatusUtil\<close>

definition with_jms :: "(database \<times> jms, 'a) prog \<Rightarrow> (status_service, 'a) prog" where
  "with_jms m = on_part (\<lambda>s. (sv_db s, sv_net s)) (\<lambda>p s. s\<lparr>sv_db := fst p, sv_net := snd p\<rparr>) m"

definition with_lines :: "(database \<times> string list, 'a) prog \<Rightarrow> (status_service, 'a) prog" where
  "with_lines m = on_part (\<lambda>s. (sv_db s, sv_lines s)) (\<lambda>p s. s\<lparr>sv_db := fst p, sv_lines := snd p\<rparr>) m"

fun sender_post_name :: "any_sender \<Rightarrow> string \<Rightarrow> (status_service, int) prog" where
  "sender_post_name LogSender n = with_lines (postStatus_name log_postStatus n)"
| "sender_post_name (JmsSender sdr) n = with_jms (postStatus_name (jms_postStatus sdr) n)"

fun sender_post_all :: "any_sender \<Rightarrow> (status_service, int) prog" where
  "sender_post_all LogSender = with_lines (postStatus_all log_postStatus)"
| "sender_post_all (JmsSender sdr) = with_jms (postStatus_all (jms_postStatus sdr))"

definition StatusUtil_postStatus_name :: "string \<Rightarrow> (status_service, int) prog" where
  "StatusUtil_postStatus_name n = throw_spec (throws_class GiapiException)
     (bindp getStatusSender_default (\<lambda>sdr. sender_post_name sdr n))"

definition StatusUtil_postStatus :: "(status_service, int) prog" where
  "StatusUtil_postStatus = throw_spec (throws_class GiapiException)
     (bindp getStatusSender_default (\<lambda>sdr. sender_post_all sdr))"

datatype service_call =
    OnDatabase "timeval option" status_call
  | PostStatus
  | PostStatusOf string

fun service_step :: "service_call \<Rightarrow> (status_service, int) prog" where
  "service_step (OnDatabase now c) = on_part sv_db (\<lambda>d s. s\<lparr>sv_db := d\<rparr>) (status_util now c)"
| "service_step PostStatus = StatusUtil_postStatus"
| "service_step (PostStatusOf n) = StatusUtil_postStatus_name n"

subsection \<open>The invariant\<close>

definition service_inv :: "status_service \<Rightarrow> bool" where
  "service_inv s \<longleftrightarrow> db_inv (sv_db s) \<and> world_ok (sv_net s) \<and> typed_listeners (log (sv_net s)) \<and>
     (\<forall>x. sv_senders s JMS_SENDER = Some x \<longrightarrow> (\<exists>sdr. x = JmsSender sdr \<and> sender_ready sdr (sv_net s))) \<and>
     sv_senders s LOG_SENDER \<in> {None, Some LogSender}"

definition new_service :: "environment \<Rightarrow> status_service" where
  "new_service en = \<lparr>sv_db = new_database, sv_senders = Map.empty,
     sv_net = start en, sv_lines = []\<rparr>"

lemma service_inv_new [inv_intros]: "service_inv (new_service en)"
  by (simp add: service_inv_def new_service_def inv_intros world_ok_def start_def typed_listeners_def)

text \<open>What a later state of the service keeps of an earlier one.\<close>

definition service_later :: "status_service \<Rightarrow> status_service \<Rightarrow> bool" where
  "service_later s t \<longleftrightarrow> db_later (sv_db s) (sv_db t) \<and> net_later (sv_net s) (sv_net t)"

lemma service_later_refl [simp]: "service_later s s"
  by (simp add: service_later_def db_later_refl)

lemma service_later_trans: "service_later a b \<Longrightarrow> service_later b c \<Longrightarrow> service_later a c"
  by (auto simp: service_later_def intro: db_later_trans net_later_trans)

lemma sender_ready_ok: "sender_ready sdr w \<Longrightarrow> world_ok w"
  by (simp add: sender_ready_def)

text \<open>The sender is made without silencing anybody, and so is every post.\<close>

lemma new_JmsStatusSender_unheard:
  assumes w: "world_ok w" "typed_listeners (log w)"
  shows "sat (\<lambda>_ w'. unheard (log w) (log w')) (\<lambda>_ w'. unheard (log w) (log w')) (new_JmsStatusSender w)"
proof -
  let ?f = "jms.extend w (members.fields None None None None)"
  have f: "world_ok ?f" "log ?f = log w" "m_session ?f = None" "m_producer ?f = None"
    using w by (simp_all add: jms.extend_def members.fields_def world_ok_def)
  note clean = cleanup_unheard [OF _ w(2)]
  show ?thesis
    unfolding new_JmsStatusSender_def sat_throw_spec sat_with_members sat_catchp frame_fields
  proof (rule session_then [OF f(1)], goal_cases)
    case (1 s v)
    then have v: "world_ok v" "alive (log v) s" "obj_at s (log v) = Some Session" "m_producer v = None"
      "unheard (log w) (log v)"
      using members_more [of v ?f] f by (auto simp: quiet_def calm_def)
    moreover from this have "length (log w) \<le> length (log v)" "s < length (log v)"
      by (auto simp: unheard_def alive_def dest: suffix_length_le)
    ultimately show ?case
      unfolding sat_thenp sat_modifies sat_bindp
      by (intro sat_jnew)
        (auto simp: wp alive_def harmless_def less_Suc_eq unheard_call world_ok_def log_wf_deleted obj_at_less
          intro!: sat_jcall clean dest: log_wf_deleted)
  next
    case (2 e v)
    then have "world_ok v" "m_producer v = None" "m_session v = None" "unheard (log w) (log v)"
      using members_more [of v ?f] f by (auto simp: quiet_def calm_def)
    with 2 show ?case by (auto simp: wp intro!: clean)
  qed
qed

lemma mutes_jms_postStatus: "wf_obj i \<Longrightarrow> mutes (jms_postStatus sdr i)"
  unfolding jms_postStatus_def by (simp add: accept_puts del: accept.simps, intro mute_intros mutes_jcall) auto

text \<open>A post over the messaging library, as seen from the world \<open>w0\<close> in which a call began.\<close>

interpretation jms_transport_since: status_transport "jms_postStatus sdr" "\<lambda>w. sender_ready sdr w \<and> net_later w0 w"
  "\<lambda>w. sent (log w)" status_wire for sdr and w0 :: jms
proof
  fix w :: jms and i assume w: "sender_ready sdr w \<and> net_later w0 w" and i: "wf_obj i"
  have later: "net_later w0 w'" if "net_later w w'" for w' :: jms using w that by (blast intro: net_later_trans)
  have "net_later w w'" if "delivered d k xs w w' \<or> failed_post w w'" "unheard (log w) (log w')" for d k xs and w' :: jms
    using that by (auto simp: net_later_def delivered_def failed_post_def suffix_Cons)
  note now = later [OF this]
  show "sat (\<lambda>r w'. r = status_OK \<and> (sender_ready sdr w' \<and> net_later w0 w') \<and> sent (log w') = status_wire i # sent (log w))
      (\<lambda>e w'. throws_class PostException e \<and> (sender_ready sdr w' \<and> net_later w0 w') \<and> sent (log w') = sent (log w))
      (jms_postStatus sdr i w)"
    by (rule sat_mono [OF sat_mutes [OF jms_postStatus_sat [OF conjunct1 [OF w] i] mutes_jms_postStatus [OF i]]])
      (use conjunct1 [OF w] in \<open>auto simp: status_wire_def intro: now sender_ready_later simp: delivered_def [of _ _ _ w] failed_post_def [of w]\<close>)
qed (simp add: status_wire_def)

lemma getStatusSender_default_sat:
  assumes "service_inv s"
  shows "sat (\<lambda>x t. sv_senders t JMS_SENDER = Some x \<and> service_inv t \<and> sv_db t = sv_db s \<and>
        sent (log (sv_net t)) = sent (log (sv_net s)) \<and> net_later (sv_net s) (sv_net t))
     (\<lambda>e t. throws_class CommunicationException e \<and> service_inv t \<and> sv_db t = sv_db s \<and>
        sent (log (sv_net t)) = sent (log (sv_net s)) \<and> net_later (sv_net s) (sv_net t))
     (getStatusSender_default s)"
proof (cases "sv_senders s JMS_SENDER")
  case None
  from assms have w: "world_ok (sv_net s)" "typed_listeners (log (sv_net s))" by (simp_all add: service_inv_def)
  have "service_inv (s\<lparr>sv_net := v, sv_senders := f\<rparr>) \<and> sent (log v) = sent (log (sv_net s)) \<and> net_later (sv_net s) v"
    if "calm (sv_net s) v" "unheard (log (sv_net s)) (log v)" "\<And>x. f JMS_SENDER = Some x \<Longrightarrow> \<exists>sdr. x = JmsSender sdr \<and> sender_ready sdr v"
      "f LOG_SENDER = sv_senders s LOG_SENDER"
    for v f
    using that assms w(2) by (auto simp: service_inv_def calm_def net_later_def intro: typed_unheard)
  note kept = this [THEN conjunct1] this [THEN conjunct2] this [of _ "sv_senders s"]
  from None show ?thesis
    by (simp add: getStatusSender_default_def getStatusSender_def DEFAULT_SENDER_def wp on_sv_net_def store_sender_def)
      (rule sat_mono [OF sat_conj [OF new_JmsStatusSender_sat [OF w(1)] new_JmsStatusSender_unheard [OF w]]],
        use kept(2,3) None in \<open>auto intro!: kept(1)\<close>)
next
  case (Some x)
  with assms show ?thesis
    by (simp add: getStatusSender_default_def getStatusSender_def DEFAULT_SENDER_def wp)
qed

text \<open>With the sender of the factory, a post keeps the invariant.\<close>

lemma with_jms_keeps:
  assumes "service_inv s" and "sv_senders s JMS_SENDER = Some (JmsSender sdr)"
    and "sat (\<lambda>r p. sender_ready sdr (snd p) \<and> db_inv (fst p) \<and> db_later (sv_db s) (fst p) \<and>
        net_later (sv_net s) (snd p))
      (\<lambda>e p. throws_class PostException e \<and> sender_ready sdr (snd p) \<and> db_inv (fst p) \<and>
        db_later (sv_db s) (fst p) \<and> net_later (sv_net s) (snd p)) (m (sv_db s, sv_net s))"
  shows "sat (\<lambda>r t. service_inv t \<and> service_later s t)
    (\<lambda>e t. throws_class GiapiException e \<and> service_inv t \<and> service_later s t) (with_jms m s)"
  unfolding with_jms_def sat_on_part
  by (rule sat_mono [OF assms(3)])
    (use assms(1,2) in \<open>auto simp: service_inv_def service_later_def intro: throws_giapi sender_ready_ok net_later_typed\<close>)

lemma post_name_keeps:
  assumes "service_inv s" and "sv_senders s JMS_SENDER = Some (JmsSender sdr)"
  shows "sat (\<lambda>r t. service_inv t \<and> service_later s t)
    (\<lambda>e t. throws_class GiapiException e \<and> service_inv t \<and> service_later s t)
    (sender_post_name (JmsSender sdr) n s)"
  unfolding sender_post_name.simps
proof (rule with_jms_keeps [OF assms])
  have "db_inv (sv_db s)" "sender_ready sdr (sv_net s)"
    using assms by (auto simp: service_inv_def)
  from jms_transport_since.post_name_sat [where w = "sv_net s" and ?w0.0 = "sv_net s" and n = n, OF this(1) conjI [OF this(2) net_later_refl]]
  show "sat (\<lambda>r p. sender_ready sdr (snd p) \<and> db_inv (fst p) \<and> db_later (sv_db s) (fst p) \<and>
        net_later (sv_net s) (snd p))
      (\<lambda>e p. throws_class PostException e \<and> sender_ready sdr (snd p) \<and> db_inv (fst p) \<and>
        db_later (sv_db s) (fst p) \<and> net_later (sv_net s) (snd p))
      (postStatus_name (jms_postStatus sdr) n (sv_db s, sv_net s))"
    by (rule sat_mono) auto
qed

lemma post_all_keeps:
  assumes "service_inv s" and "sv_senders s JMS_SENDER = Some (JmsSender sdr)"
  shows "sat (\<lambda>r t. service_inv t \<and> service_later s t)
    (\<lambda>e t. throws_class GiapiException e \<and> service_inv t \<and> service_later s t)
    (sender_post_all (JmsSender sdr) s)"
  unfolding sender_post_all.simps
proof (rule with_jms_keeps [OF assms])
  have db: "db_inv (sv_db s)" "sender_ready sdr (sv_net s)"
    using assms by (auto simp: service_inv_def)
  have all: "db_inv ((sv_db s)\<lparr>objs := map item_clean (objs (sv_db s))\<rparr>) \<and>
      db_later (sv_db s) ((sv_db s)\<lparr>objs := map item_clean (objs (sv_db s))\<rparr>)"
    by (rule db_inv_clean [OF db(1)]) simp_all
  have part: "db_inv ((sv_db s)\<lparr>objs := map item_clean (take j (objs (sv_db s))) @ drop j (objs (sv_db s))\<rparr>) \<and>
      db_later (sv_db s) ((sv_db s)\<lparr>objs := map item_clean (take j (objs (sv_db s))) @ drop j (objs (sv_db s))\<rparr>)" for j
    by (rule db_inv_clean [OF db(1)]) (auto simp: nth_append)
  from jms_transport_since.post_all_sat [OF db(1) conjI [OF db(2) net_later_refl]]
  show "sat (\<lambda>r p. sender_ready sdr (snd p) \<and> db_inv (fst p) \<and> db_later (sv_db s) (fst p) \<and>
        net_later (sv_net s) (snd p))
      (\<lambda>e p. throws_class PostException e \<and> sender_ready sdr (snd p) \<and> db_inv (fst p) \<and>
        db_later (sv_db s) (fst p) \<and> net_later (sv_net s) (snd p))
      (postStatus_all (jms_postStatus sdr) (sv_db s, sv_net s))"
    by (rule sat_mono) (use all part in auto)
qed

lemma posts_keep:
  assumes "service_inv s"
    and post: "\<And>t sdr. service_inv t \<Longrightarrow> sv_senders t JMS_SENDER = Some (JmsSender sdr) \<Longrightarrow>
      sat (\<lambda>r u. service_inv u \<and> service_later t u)
        (\<lambda>e u. throws_class GiapiException e \<and> service_inv u \<and> service_later t u) (post (JmsSender sdr) t)"
  shows "sat (\<lambda>r u. service_inv u \<and> service_later s u)
    (\<lambda>e u. throws_class GiapiException e \<and> service_inv u \<and> service_later s u)
    (throw_spec (throws_class GiapiException) (bindp getStatusSender_default post) s)"
  unfolding sat_throw_spec sat_bindp
proof (rule sat_mono [OF getStatusSender_default_sat [OF assms(1)]], goal_cases)
  case (1 x t)
  then obtain sdr where x: "x = JmsSender sdr" by (auto simp: service_inv_def)
  have "service_later s t" using 1 by (simp add: service_later_def db_later_refl)
  moreover have "sat (\<lambda>r u. service_inv u \<and> service_later t u)
      (\<lambda>e u. throws_class GiapiException e \<and> service_inv u \<and> service_later t u) (post x t)"
    using 1 x by (auto intro: post)
  ultimately show ?case
    by (auto elim!: sat_mono intro: service_later_trans)
next
  case (2 e t)
  then show ?case by (auto simp: service_later_def db_later_refl intro: throws_giapi)
qed

lemma service_step_sat:
  assumes "service_inv s"
  shows "sat (\<lambda>r t. service_inv t \<and> service_later s t)
    (\<lambda>e t. throws_class GiapiException e \<and> service_inv t \<and> service_later s t) (service_step c s)"
proof (cases c)
  case (OnDatabase now d)
  have "db_inv (sv_db s)" using assms by (simp add: service_inv_def)
  from status_step_refines [OF this, of "(now, d)"] OnDatabase assms show ?thesis
    by (auto simp: sat_on_part status_step_def service_inv_def service_later_def elim!: sat_mono)
next
  case PostStatus
  then show ?thesis
    using posts_keep [OF assms, of sender_post_all] post_all_keeps by (simp add: StatusUtil_postStatus_def)
next
  case (PostStatusOf n)
  then show ?thesis
    using posts_keep [OF assms, of "\<lambda>x. sender_post_name x n"] post_name_keeps
    by (simp add: StatusUtil_postStatus_name_def)
qed

text \<open>The whole of the status interface is a safe machine that throws only GIAPI exceptions.\<close>

interpretation service: safe_machine service_step service_inv service_later "throws_class GiapiException"
  by unfold_locales (auto intro: service_later_trans service_step_sat)

end
