(* ===== verification/Status_Transports.thy ===== *)
theory Status_Transports
  imports Status_Service
begin

section \<open>Transports that never fail\<close>

text \<open>
  The contract of a transport whose posts never throw, which the log sender fulfils: posting over
  it never throws either, so that its effect on the database is known.
\<close>

locale reliable_transport = status_transport +
  assumes reliable: "winv w \<Longrightarrow> wf_obj i \<Longrightarrow> sat (\<lambda>_ _. True) (\<lambda>_ _. False) (post i w)"
begin

lemma doPost_reliable:
  assumes "a < length (objs db)" and "wf_obj (objs db ! a)" and "winv w"
  shows "sat (\<lambda>_ _. True) (\<lambda>_ _. False) (doPost post (Some a) (db, w))"
proof -
  have "wf_obj (item_clean (objs db ! a))" using assms(2) by simp
  from reliable [OF assms(3) this] assms(1) show ?thesis
    by (auto simp: doPost_def wp elim!: sat_mono)
qed

lemma post_loop_reliable:
  assumes "list_all wf_obj (objs db)" and "list_all (\<lambda>a. a < length (objs db)) as" and "winv w"
  shows "sat (\<lambda>_ _. True) (\<lambda>_ _. False) (post_loop post as (db, w))"
  using assms
proof (induction "as" arbitrary: db w)
  case (Cons a "as")
  then have a: "a < length (objs db)" "wf_obj (objs db ! a)" by (simp_all add: list_all_iff)
  have wf: "list_all wf_obj ((objs db)[a := item_clean (objs db ! a)])"
    using Cons.prems(1) a by (auto simp: list_all_length nth_list_update)
  show ?case
    unfolding post_loop.simps sat_bindp
  proof (rule sat_mono [OF sat_conj [OF doPost_sat [OF a Cons.prems(3)] doPost_reliable [OF a Cons.prems(3)]]], goal_cases)
    case (1 r s)
    obtain db' w' where s: "s = (db', w')" by force
    with 1 have "winv w'" "objs db' = (objs db)[a := item_clean (objs db ! a)]" by simp_all
    with Cons.IH [of db' w'] Cons.prems(2) wf s show ?case by simp
  qed simp
qed simp

lemma post_all_reliable:
  assumes "db_inv db" and "winv w"
  shows "sat (\<lambda>r s. r = status_OK \<and> fst s = db\<lparr>objs := map item_clean (objs db)\<rparr> \<and>
      out (snd s) = rev (map wire (filter item_dirty (objs db))) @ out w) (\<lambda>_ _. False) (postStatus_all post (db, w))"
proof -
  have i: "list_all wf_obj (objs db)" "slist db = [0..<length (objs db)]"
    using assms(1) by (simp_all add: db_inv_def list_all_iff)
  have "sat (\<lambda>_ _. True) (\<lambda>_ _. False) (postStatus_all post (db, w))"
    using post_loop_reliable [OF i(1) _ assms(2), of "slist db"] i(2)
    by (auto simp: postStatus_all_def wp getStatusItems_def list_all_iff elim!: sat_mono)
  from sat_conj [OF post_all_sat [OF assms] this] show ?thesis by (rule sat_mono) auto
qed

end

interpretation reliable_log: reliable_transport log_postStatus "\<lambda>_. True" "\<lambda>lines. lines" log_line
  by unfold_locales (simp add: log_postStatus_def wp)

subsection \<open>Reading items\<close>

text \<open>The getters of an item: the one for the type of its value delivers it, the others throw.\<close>

definition reads_as_typed :: "status_item \<Rightarrow> bool" where
  "reads_as_typed it \<longleftrightarrow>
     getValueAsInt it = ((case kv_value it of AnyInt v \<Rightarrow> Val v | _ \<Rightarrow> Exn BadAnyCast), it) \<and>
     getValueAsString it = ((case kv_value it of AnyString v \<Rightarrow> Val v | _ \<Rightarrow> Exn BadAnyCast), it) \<and>
     getValueAsDouble it = ((case kv_value it of AnyDouble v \<Rightarrow> Val v | _ \<Rightarrow> Exn BadAnyCast), it) \<and>
     getValueAsFloat it = ((case kv_value it of AnyFloat v \<Rightarrow> Val v | _ \<Rightarrow> Exn BadAnyCast), it) \<and>
     (fst (getValueAsInt it) = Exn BadAnyCast \<longleftrightarrow> stype it \<noteq> T_INT) \<and>
     (fst (getValueAsString it) = Exn BadAnyCast \<longleftrightarrow> stype it \<noteq> T_STRING) \<and>
     (fst (getValueAsDouble it) = Exn BadAnyCast \<longleftrightarrow> stype it \<noteq> T_DOUBLE) \<and>
     (fst (getValueAsFloat it) = Exn BadAnyCast \<longleftrightarrow> stype it \<noteq> T_FLOAT)"

lemma wf_reads_as_typed: "wf_item it \<Longrightarrow> reads_as_typed it"
  unfolding reads_as_typed_def wf_item_def getValueAsInt_def getValueAsString_def getValueAsDouble_def getValueAsFloat_def
  by (cases "kv_value it") auto

end
