(* ===== verification/Status_Correct.thy ===== *)
theory Status_Correct
  imports Status_Transports
begin

section \<open>Correctness of the status service\<close>

text \<open>
  The properties of the status items, the database, the serializer and the senders. Each rests
  on the lemmas of the component's theory or on the facts of an interpretation.
\<close>

subsection \<open>The database\<close>

lemma db_view_new: "db_view new_database = (\<lambda>_. None)"
  by (simp add: fun_eq_iff db_view_def new_database_def)


text \<open>
  C2. The whole status interface, posting included, from the start of the program and for every
  behaviour of the messaging library: a history of calls never ends the process and never
  has undefined behaviour, throws nothing but exceptions of the GIAPI hierarchy, and keeps
  the invariant of the database and of the sender.
\<close>

theorem status_interface_safe:
  "\<exists>rs s. run_calls service_step calls (new_service en) = (Val rs, s) \<and> service_inv s \<and>
     length rs = length calls \<and> list_all (expected (throws_class GiapiException)) rs"
  using satD [OF service.run_safe [OF service_inv_new [of en], of calls]] by auto

subsection \<open>Posting\<close>

text \<open>The messages that report items, the latest first, as the log of the library shows them.\<close>

definition reports :: "item list \<Rightarrow> (jms_obj option \<times> jms_obj option \<times> put list) list" where
  "reports is = rev (map status_wire (filter item_dirty is))"

text \<open>
  C3. \<open>postStatus()\<close> sends exactly the changed items, one message each, in the order of their
  creation, and leaves every item clean. When it throws, the items up to one are clean, that
  one included although nothing was sent for it, and the others are as they were.
\<close>

theorem postStatus_sends_changed:
  assumes "service_inv s"
  shows "sat (\<lambda>r t. r = status_OK \<and> service_inv t \<and>
        sv_db t = (sv_db s)\<lparr>objs := map item_clean (objs (sv_db s))\<rparr> \<and>
        sent (log (sv_net t)) = reports (objs (sv_db s)) @ sent (log (sv_net s)))
     (\<lambda>e t. service_inv t \<and>
        (throws_class CommunicationException e \<and> sv_db t = sv_db s \<and> sent (log (sv_net t)) = sent (log (sv_net s)) \<or>
         throws_class PostException e \<and> (\<exists>j < length (objs (sv_db s)). item_dirty (objs (sv_db s) ! j) \<and>
           sv_db t = (sv_db s)\<lparr>objs := map item_clean (take (Suc j) (objs (sv_db s))) @ drop (Suc j) (objs (sv_db s))\<rparr> \<and>
           sent (log (sv_net t)) = reports (take j (objs (sv_db s))) @ sent (log (sv_net s)))))
     (StatusUtil_postStatus s)"
proof -
  have inv: "sat (\<lambda>r t. service_inv t) (\<lambda>e t. service_inv t) (StatusUtil_postStatus s)"
    using service_step_sat [OF assms, of PostStatus] by (auto elim!: sat_mono)
  have "sat (\<lambda>r t. r = status_OK \<and> sv_db t = (sv_db s)\<lparr>objs := map item_clean (objs (sv_db s))\<rparr> \<and>
        sent (log (sv_net t)) = reports (objs (sv_db s)) @ sent (log (sv_net s)))
     (\<lambda>e t. throws_class CommunicationException e \<and> sv_db t = sv_db s \<and> sent (log (sv_net t)) = sent (log (sv_net s)) \<or>
         throws_class PostException e \<and> (\<exists>j < length (objs (sv_db s)). item_dirty (objs (sv_db s) ! j) \<and>
           sv_db t = (sv_db s)\<lparr>objs := map item_clean (take (Suc j) (objs (sv_db s))) @ drop (Suc j) (objs (sv_db s))\<rparr> \<and>
           sent (log (sv_net t)) = reports (take j (objs (sv_db s))) @ sent (log (sv_net s))))
     (StatusUtil_postStatus s)"
    unfolding StatusUtil_postStatus_def sat_throw_spec sat_bindp
  proof (rule sat_mono [OF getStatusSender_default_sat [OF assms]], goal_cases)
    case (1 x t)
    then obtain sdr where x: "x = JmsSender sdr" and r: "db_inv (sv_db t)" "sender_ready sdr (sv_net t)"
      by (auto simp: service_inv_def)
    from 1 show ?case
      unfolding x sender_post_all.simps with_jms_def sat_on_part reports_def
      by (intro sat_mono [OF jms_transport.post_all_sat [OF r]]) (auto intro: throws_giapi)
  next
    case (2 e t)
    then show ?case by (auto intro: throws_giapi)
  qed
  from sat_conj [OF inv this] show ?thesis by (rule sat_mono) auto
qed

text \<open>A service with one changed item, for the witnesses.\<close>

definition one_item_service :: status_service where
  "one_item_service = snd (service_step (OnDatabase None (CreateStatusItem ''temp'' T_INT)) (new_service quiet_env))"

lemma one_item_inv: "service_inv one_item_service"
  using service_step_sat [OF service_inv_new [of quiet_env], of "OnDatabase None (CreateStatusItem ''temp'' T_INT)"]
  unfolding one_item_service_def
  by (cases "service_step (OnDatabase None (CreateStatusItem ''temp'' T_INT)) (new_service quiet_env)" rule: res_cases)
    simp_all

lemma one_item_objs: "objs (sv_db one_item_service) = [BasicItem (new_status_item None ''temp'' T_INT)]"
  by (simp add: one_item_service_def new_service_def on_part_def createStatusItem_def getStatusItem_def
      new_database_def bindp_def thenp_def add_item_def)

lemma postStatus_sends_changed_witness:
  "service_inv one_item_service \<and> item_dirty (objs (sv_db one_item_service) ! 0) \<and>
   sat (\<lambda>r t. r = status_OK \<and> length (sent (log (sv_net t))) = 1) (\<lambda>e t. sent (log (sv_net t)) = [])
     (StatusUtil_postStatus one_item_service)"
proof (intro conjI)
  show "item_dirty (objs (sv_db one_item_service) ! 0)"
    by (simp add: one_item_objs item_dirty_def isChanged_def)
  have "sent (log (sv_net one_item_service)) = []"
    by (simp add: one_item_service_def new_service_def on_part_def start_def split: prod.split)
  then show "sat (\<lambda>r t. r = status_OK \<and> length (sent (log (sv_net t))) = 1) (\<lambda>e t. sent (log (sv_net t)) = [])
     (StatusUtil_postStatus one_item_service)"
    by (intro sat_mono [OF postStatus_sends_changed [OF one_item_inv]])
      (auto simp: one_item_objs reports_def item_dirty_def isChanged_def)
qed (rule one_item_inv)

text \<open>
  C4. \<open>postStatus(name)\<close> sends one message when the name denotes a changed item and answers
  with an error, sending nothing, when it denotes a clean item or none. Only the flag of this
  item changes, and it is cleared even when the post throws.
\<close>

theorem postStatus_of_name:
  assumes "service_inv s"
  shows "sat (\<lambda>r t. service_inv t \<and> (case db_view (sv_db s) n of
        Some i \<Rightarrow> db_view (sv_db t) = (db_view (sv_db s))(n \<mapsto> item_clean i) \<and>
          r = (if item_dirty i then status_OK else status_ERROR) \<and>
          sent (log (sv_net t)) = (if item_dirty i then [status_wire i] else []) @ sent (log (sv_net s))
      | None \<Rightarrow> r = status_ERROR \<and> db_view (sv_db t) = db_view (sv_db s) \<and>
          sent (log (sv_net t)) = sent (log (sv_net s))))
     (\<lambda>e t. service_inv t \<and> sent (log (sv_net t)) = sent (log (sv_net s)) \<and>
        (throws_class CommunicationException e \<and> db_view (sv_db t) = db_view (sv_db s) \<or>
         throws_class PostException e \<and> (\<exists>i. db_view (sv_db s) n = Some i \<and> item_dirty i \<and>
           db_view (sv_db t) = (db_view (sv_db s))(n \<mapsto> item_clean i))))
     (StatusUtil_postStatus_name n s)"
proof -
  have inv: "sat (\<lambda>r t. service_inv t) (\<lambda>e t. service_inv t) (StatusUtil_postStatus_name n s)"
    using service_step_sat [OF assms, of "PostStatusOf n"] by (auto elim!: sat_mono)
  have "sat (\<lambda>r t. case db_view (sv_db s) n of
        Some i \<Rightarrow> db_view (sv_db t) = (db_view (sv_db s))(n \<mapsto> item_clean i) \<and>
          r = (if item_dirty i then status_OK else status_ERROR) \<and>
          sent (log (sv_net t)) = (if item_dirty i then [status_wire i] else []) @ sent (log (sv_net s))
      | None \<Rightarrow> r = status_ERROR \<and> db_view (sv_db t) = db_view (sv_db s) \<and>
          sent (log (sv_net t)) = sent (log (sv_net s)))
     (\<lambda>e t. sent (log (sv_net t)) = sent (log (sv_net s)) \<and>
        (throws_class CommunicationException e \<and> db_view (sv_db t) = db_view (sv_db s) \<or>
         throws_class PostException e \<and> (\<exists>i. db_view (sv_db s) n = Some i \<and> item_dirty i \<and>
           db_view (sv_db t) = (db_view (sv_db s))(n \<mapsto> item_clean i))))
     (StatusUtil_postStatus_name n s)"
    unfolding StatusUtil_postStatus_name_def sat_throw_spec sat_bindp
  proof (rule sat_mono [OF getStatusSender_default_sat [OF assms]], goal_cases)
    case (1 x t)
    then obtain sdr where x: "x = JmsSender sdr" and r: "db_inv (sv_db t)" "sender_ready sdr (sv_net t)"
      by (auto simp: service_inv_def)
    from 1 show ?case
      unfolding x sender_post_name.simps with_jms_def sat_on_part
      by (intro sat_mono [OF jms_transport.post_name_sat [OF r, of n]])
        (auto split: option.splits if_splits intro: throws_giapi)
  next
    case (2 e t)
    then show ?case by (auto intro: throws_giapi)
  qed
  from sat_conj [OF inv this] show ?thesis by (rule sat_mono) auto
qed

lemma postStatus_of_name_witness:
  "sat (\<lambda>r t. r = status_ERROR) (\<lambda>e t. throws_class GiapiException e)
     (StatusUtil_postStatus_name ''temp'' (new_service quiet_env))"
proof -
  have "db_view (sv_db (new_service quiet_env)) ''temp'' = None"
    by (simp add: new_service_def db_view_new)
  then show ?thesis
    by (intro sat_mono [OF postStatus_of_name [OF service_inv_new, where n = "''temp''"]])
      (auto intro: throws_giapi)
qed




subsection \<open>The serialized form\<close>

text \<open>
  C6. Round trip: what the visitor writes for an item of a type that can be posted reads back
  as the kind, name, value, time and alarm state of the item; the empty string, which is
  replaced by a blank, is the only value that changes.
\<close>

theorem serialized_item_reads_back:
  assumes "wf_obj i" and "postable (stype (item_base i))"
  shows "\<exists>xs. (accept m i :: (jms, unit) prog) = jputs m xs \<and> read_report xs = Some (item_report i)"
  using accept_puts [OF assms(1)] read_item_fields [OF assms] by blast

definition sample_alarm :: item where
  "sample_alarm = AlarmItem (snd (setAlarmState None ALARM_FAILURE ALARM_CAUSE_OTHER ''hot''
     (new_alarm_item None ''alarm'' T_STRING)))"

lemma sample_alarm_facts: "wf_obj sample_alarm" "stype (item_base sample_alarm) = T_STRING"
  by (simp_all add: sample_alarm_def setAlarmState_run wf_alarm_def wf_item_def status_item.defs)

lemma serialized_item_reads_back_witness:
  "\<exists>xs. (accept 0 sample_alarm :: (jms, unit) prog) = jputs 0 xs \<and> read_report xs = Some (item_report sample_alarm)"
  by (rule serialized_item_reads_back [OF sample_alarm_facts(1)])
    (simp add: sample_alarm_facts(2) postable_def)

text \<open>
  C7. An item of type boolean, byte or short is posted without its header: a receiver of such a
  message cannot learn even the name, although the post reports success.
\<close>

theorem unpostable_item_unreadable:
  assumes "wf_obj i" and "\<not> postable (stype (item_base i))"
  shows "\<exists>xs. (accept m i :: (jms, unit) prog) = jputs m xs \<and> xs = item_tail i \<and> read_report xs = None"
proof -
  have "read_report (item_tail i) = None"
    by (cases i) (auto simp: alarm_fields_def read_report_def)
  with accept_puts [OF assms(1), of m] unpostable_fields [OF assms] show ?thesis by auto
qed

lemma unpostable_item_unreadable_witness:
  "\<exists>xs. (accept 0 (BasicItem (new_status_item None ''flag'' T_BOOLEAN)) :: (jms, unit) prog) = jputs 0 xs \<and>
     xs = item_tail (BasicItem (new_status_item None ''flag'' T_BOOLEAN)) \<and> read_report xs = None"
  by (rule unpostable_item_unreadable) (simp_all add: wf_new postable_def)

subsection \<open>Items\<close>

text \<open>
  C8. The setters of an item: a value of the wrong type is refused and changes nothing; an
  equal value is accepted and changes nothing; any other value is stored, and marks the item
  as changed at the time of the clock. The item stays well typed.
\<close>

theorem setter_contract:
  assumes "wf_item it"
  shows "set_value now v it =
     (if value_type v \<noteq> stype it then (Val status_ERROR, it)
      else if value_same v (kv_value it) then (Val status_OK, it)
      else (Val status_OK, it\<lparr>kv_value := value_any v, changed := True, stamp := new_stamp now (stamp it)\<rparr>)) \<and>
     wf_item (snd (set_value now v it))"
  using set_value_run [OF assms, of now v] assms wf_stored [OF assms, of v now]
  by (simp add: stored_def)

lemma setter_contract_witness:
  "set_value None (VInt 7) (new_status_item None ''a'' T_INT) =
     (Val status_OK, (new_status_item None ''a'' T_INT)\<lparr>kv_value := AnyInt 7, changed := True, stamp := None\<rparr>)"
  using setter_contract [OF wf_new(1), of None "VInt 7" None "''a''" T_INT] by simp

text \<open>
  Comparing with \<open>==\<close>, a setter for a floating point value drops the change of a zero's
  sign and marks a NaN as changed every time: two equal calls in a row change an item twice
  exactly for a NaN.
\<close>

theorem double_setter_twice:
  assumes "wf_item it" and "stype it = T_DOUBLE"
  shows "isChanged (snd (setValueAsDouble now x (clearChanged (snd (setValueAsDouble now x it))))) \<longleftrightarrow> f64_nan x"
proof -
  have sv: "setValueAsDouble now x = set_value now (VDouble x)" for now by simp
  let ?it = "snd (set_value now (VDouble x) it)"
  obtain v where v: "kv_value it = AnyDouble v" using assms by (auto simp: wf_item_def dest!: any_typeD)
  have "wf_item (clearChanged ?it)" "stype (clearChanged ?it) = T_DOUBLE"
    using assms set_value_run [OF assms(1), of now "VDouble x"] wf_stored [OF assms(1), of "VDouble x" now]
    by (auto simp: clearChanged_def wf_item_def)
  note second = set_value_run [OF this(1), of now "VDouble x"]
  show ?thesis
  proof (cases "f64_eq x v")
    case True
    then have "?it = it" using set_value_run [OF assms(1), of now "VDouble x"] assms(2) v by simp
    moreover from this have "set_value now (VDouble x) (clearChanged ?it) = (Val status_OK, clearChanged it)"
      using second assms(2) v True by (simp add: clearChanged_def)
    ultimately show ?thesis
      using True by (simp add: isChanged_def clearChanged_def f64_eq_def del: set_value.simps flip: sv)
  next
    case False
    then have it: "?it = stored now (VDouble x) it"
      using set_value_run [OF assms(1), of now "VDouble x"] assms(2) v by simp
    with second assms(2) have "set_value now (VDouble x) (clearChanged ?it) =
        (if f64_nan x then (Val status_OK, stored now (VDouble x) (clearChanged ?it)) else (Val status_OK, clearChanged ?it))"
      by (simp add: clearChanged_def)
    then show ?thesis unfolding sv by (simp add: isChanged_def clearChanged_def)
  qed
qed

lemma double_setter_twice_witness:
  "\<not> isChanged (snd (setValueAsDouble None 5 (clearChanged (snd (setValueAsDouble None 5
      (new_status_item None ''a'' T_DOUBLE))))))"
proof -
  have "\<not> f64_nan 5" by (simp add: f64_nan_def)
  then show ?thesis by (subst double_setter_twice [OF wf_new(1)]) simp_all
qed

text \<open>
  C10. The alarm of an item. An alarm with cause \<open>ALARM_CAUSE_OTHER\<close> and no message is refused,
  whatever its severity, and changes nothing. Any other is accepted; the item then says what
  was asked, or nothing but \<open>ALARM_OK\<close> when that is the severity. It is marked as changed
  unless it already said exactly this. The invariant of alarms is kept.
\<close>

theorem alarm_contract:
  assumes "wf_alarm a"
  shows "\<exists>a'. setAlarmState now s c m a = ((if c = ALARM_CAUSE_OTHER \<and> m = [] then Val status_ERROR else Val status_OK), a') \<and>
     wf_alarm a' \<and>
     (if c = ALARM_CAUSE_OTHER \<and> m = [] then a' = a
      else alarm_triple a' = alarm_norm s c m \<and> al_initialized a' \<and>
        (if al_initialized a \<and> alarm_triple a = (s, c, m) then a' = a
         else changed a' \<and> stamp a' = new_stamp now (stamp a)))"
proof (cases "c = ALARM_CAUSE_OTHER \<and> m = []")
  case True
  with assms show ?thesis by (simp add: setAlarmState_error)
next
  case False
  then have run: "c = ALARM_CAUSE_OTHER \<longrightarrow> m \<noteq> []" by blast
  have norm: "alarm_triple a = (s, c, m) \<Longrightarrow> alarm_norm s c m = (s, c, m)"
    using assms by (cases s) (auto simp: wf_alarm_def alarm_triple_def)
  have "wf_alarm (snd (setAlarmState now s c m a))"
    using satD [OF setAlarmState_wf [OF assms, of now s c m]] by auto
  with False norm show ?thesis
    by (auto simp: setAlarmState_run [OF run] alarm_triple_def) (cases s; simp)+
qed

lemma alarm_contract_witness:
  "\<exists>a'. setAlarmState None ALARM_OK ALARM_CAUSE_OTHER [] (new_alarm_item None ''al'' T_INT) = (Val status_ERROR, a') \<and> wf_alarm a'"
  using alarm_contract [OF wf_alarm_new, of None ALARM_OK ALARM_CAUSE_OTHER "[]" None "''al''" T_INT] by auto

text \<open>
  Clearing an alarm never throws, although its specification allows it, and leaves the
  severity, cause and message of no alarm.
\<close>

theorem clear_alarm_total:
  "\<exists>a'. clearAlarmState now a = (Val (), a') \<and> alarm_triple a' = (ALARM_OK, ALARM_CAUSE_OK, []) \<and>
     al_initialized a' \<and> kv_value a' = kv_value a"
  by (simp add: clearAlarmState_run alarm_triple_def)

subsection \<open>Types and transports\<close>

text \<open>
  C11. After every history of calls of \<open>StatusUtil\<close> from the start of the program, every item has a
  value of the type it was created with: of the four getters, the one for this type delivers the
  value and changes nothing, and each of the others throws \<open>bad_any_cast\<close>.
\<close>

theorem getters_typed:
  "\<exists>rs s. run_calls service_step calls (new_service en) = (Val rs, s) \<and>
     list_all (\<lambda>i. reads_as_typed (item_base i)) (objs (sv_db s))"
proof -
  obtain rs s where "run_calls service_step calls (new_service en) = (Val rs, s)" "service_inv s"
    using service.run_value [OF service_inv_new [of en], of calls] by blast
  moreover from this have "list_all (\<lambda>i. reads_as_typed (item_base i)) (objs (sv_db s))"
    by (auto simp: service_inv_def db_inv_def list_all_iff intro: wf_reads_as_typed wf_obj_base)
  ultimately show ?thesis by blast
qed

text \<open>
  C22. The two senders are equivalent but for what they write: when posting all items over the
  messaging library returns, the log sender returns the same code from the same database and
  leaves the same database; and the library was handed one message, of the same item, for every
  line of the log, in the same order.
\<close>

theorem senders_equivalent:
  assumes "db_inv db" and "sender_ready sdr w" and "postStatus_all (jms_postStatus sdr) (db, w) = (Val r, (db', w'))"
  shows "\<exists>ms ls. postStatus_all log_postStatus (db, lines) = (Val r, (db', ls @ lines)) \<and>
     sent (log w') = ms @ sent (log w) \<and> list_all2 (\<lambda>m l. \<exists>i. m = status_wire i \<and> l = log_line i) ms ls"
proof -
  let ?is = "filter item_dirty (objs db)"
  from jms_transport.post_all_sat [OF assms(1,2)] assms(3)
  have j: "r = status_OK" "db' = db\<lparr>objs := map item_clean (objs db)\<rparr>"
    "sent (log w') = rev (map status_wire ?is) @ sent (log w)" by simp_all
  from satD [OF reliable_log.post_all_reliable [OF assms(1), of lines]]
  have "postStatus_all log_postStatus (db, lines) = (Val r, (db', rev (map log_line ?is) @ lines))"
    using j(1,2) by auto
  moreover have "list_all2 (\<lambda>m l. \<exists>i. m = status_wire i \<and> l = log_line i) (rev (map status_wire ?is)) (rev (map log_line ?is))"
    by (auto simp: list_all2_conv_all_nth rev_nth)
  ultimately show ?thesis using j(3) by blast
qed

text \<open>The world after the construction of a sender, for the witness.\<close>

definition sender_world :: "sender \<times> jms" where
  "sender_world = (\<lparr>s_session = 4, s_producer = 5\<rparr>, snd (new_JmsStatusSender (start quiet_env)))"

lemma senders_equivalent_witness:
  "\<exists>db w' ls. postStatus_all log_postStatus (sv_db one_item_service, []) = (Val status_OK, (db, ls)) \<and>
     postStatus_all (jms_postStatus (fst sender_world)) (sv_db one_item_service, snd sender_world) = (Val status_OK, (db, w')) \<and>
     length ls = length (sent (log w')) - length (sent (log (snd sender_world)))"
proof -
  have new: "new_JmsStatusSender (start quiet_env) = (Val (fst sender_world), snd sender_world)"
  proof (rule prod_eqI)
    show "fst (new_JmsStatusSender (start quiet_env)) = fst (Val (fst sender_world), snd sender_world)"
      unfolding sender_world_def fst_conv by code_simp
  qed (simp add: sender_world_def)
  have inv: "db_inv (sv_db one_item_service)" using one_item_inv by (simp add: service_inv_def)
  have "world_ok (start quiet_env)" by (simp add: start_def world_ok_def)
  from new_JmsStatusSender_sat [OF this] have ready: "sender_ready (fst sender_world) (snd sender_world)"
    unfolding new by simp
  have "fst (postStatus_all (jms_postStatus (fst sender_world)) (sv_db one_item_service, snd sender_world)) = Val status_OK"
    unfolding sender_world_def one_item_service_def by code_simp
  then obtain db w' where post: "postStatus_all (jms_postStatus (fst sender_world)) (sv_db one_item_service, snd sender_world) =
      (Val status_OK, (db, w'))"
    by (cases "postStatus_all (jms_postStatus (fst sender_world)) (sv_db one_item_service, snd sender_world)") auto
  from senders_equivalent [OF inv ready post, of "[]"] post show ?thesis
    by (auto dest: list_all2_lengthD)
qed

end
