(* ===== verification/Jms_Request.thy ===== *)
theory Jms_Request
  imports Message_Posts
begin

section \<open>Requests and replies\<close>

text \<open>
  The functions that send a request and wait for the answer on a temporary queue:
  \<open>RequestProducer::getProperty\<close>, \<open>JmsTcsFetcher::fetch\<close>, \<open>JmsEpicsFetcher::getChannel\<close> (with
  the theory of the EPICS builders) and \<open>JmsApplyOffset::sendOffset\<close>. They share the exchange,
  and a weakness: the request is deleted after the send, but the variable keeps its address,
  so that a failure after that deletes it again.
\<close>

subsection \<open>The exchange\<close>

text \<open>
  The body of the \<open>try\<close> blocks up to the inspection of the reply. Most requests fill the message
  before the temporary queue is created, \<open>sendOffset\<close> after it.
\<close>

definition exchange :: "producer \<Rightarrow> jms_obj \<Rightarrow> (ptr \<Rightarrow> (jms, unit) prog) \<Rightarrow> (ptr \<Rightarrow> (jms, unit) prog) \<Rightarrow> int
    \<Rightarrow> (jms, (ptr \<times> msg_class) option) prog" where
  "exchange p kind fill1 fill2 timeout =
     bindp (jnew (p_session p) kind RawPtr) (\<lambda>m.
     thenp (set_msg (Some m))
    (thenp (fill1 m)
    (bindp (jnew (p_session p) TempQueue RawPtr) (\<lambda>q.
     bindp (jnew (p_session p) (Consumer q None) RawPtr) (\<lambda>c.
     thenp (jcall (SetReplyTo m q))
    (thenp (fill2 m)
    (thenp (send p m)
    (thenp (jdelete m)
    (bindp (jreceive_timeout c timeout) (\<lambda>reply.
     thenp (jcall (CloseObj c))
    (thenp (jdelete c)
    (thenp (jcall (DestroyQueue q))
    (thenp (jdelete q)
    (ret reply))))))))))))))"

definition getProperty :: "producer \<Rightarrow> string \<Rightarrow> int \<Rightarrow> (jms, string) prog" where
  "getProperty p k timeout =
     throw_spec (\<lambda>e. throws_class CommunicationException e \<or> throws_class TimeoutException e) (
     thenp (set_msg None)
    (catchp
       (bindp (exchange p MapMessage
          (\<lambda>m. thenp (jput m (IntProperty (key GMP_UTIL_REQUEST_TYPE) GMP_UTIL_REQUEST_PROPERTY))
            (jput m (MapString (key GMP_UTIL_PROPERTY) k))) (\<lambda>m. ret ()) timeout) (\<lambda>reply.
        case reply of
          Some (r, cls) \<Rightarrow> if cls = IsText then jread in_text (GetText r) else undef
        | None \<Rightarrow> throw (gexn TimeoutException (''Time out while waiting for property '' @ k))))
       is_cms (\<lambda>e. thenp delete_msg (throw (gexn PostException
         (''Problem sending utility request : '' @ exn_text e))))))"

subsection \<open>The TCS context\<close>

definition new_JmsTcsFetcher :: "(jms, producer) prog" where
  "new_JmsTcsFetcher = new_JmsProducer (key GMP_TCS_CONTEXT_DESTINATION)"

definition TCS_CTX_SIZE :: int where
  "TCS_CTX_SIZE = 39"

definition f64_one :: f64 where
  "f64_one = 0x3FF0000000000000"

text \<open>The numbers of the message, in the order of the structure.\<close>

definition context_of :: "f64 list \<Rightarrow> tcs_context" where
  "context_of v = \<lparr>ctx_time = v ! 0, ctx_x = v ! 1, ctx_y = v ! 2, ctx_z = v ! 3,
     ctx_tel = \<lparr>tel_fl = v ! 4, tel_rma = v ! 5, tel_an = v ! 6, tel_aw = v ! 7, tel_pnpae = v ! 8,
       tel_ca = v ! 9, tel_ce = v ! 10, tel_pox = 0, tel_poy = 0\<rparr>,
     ctx_aoprms = [v ! 11, v ! 12, v ! 13, v ! 14, v ! 15, v ! 16, v ! 17, v ! 18, v ! 19, v ! 20,
       v ! 21, v ! 22, 0, v ! 23, v ! 24],
     ctx_m2xy = [[v ! 25, v ! 26], [v ! 27, v ! 28], [v ! 29, v ! 30]],
     ctx_po = \<lparr>po_mx = v ! 31, po_my = v ! 32, po_ax = v ! 33, po_ay = v ! 34, po_bx = v ! 35,
       po_by = v ! 36, po_cx = v ! 37, po_cy = v ! 38\<rparr>,
     ctx_ao2t = [0, f64_one, 0, 0, 0, f64_one]\<rparr>"

fun read_doubles :: "ptr \<Rightarrow> nat \<Rightarrow> (jms, f64 list) prog" where
  "read_doubles r 0 = ret []"
| "read_doubles r (Suc n) = bindp (jread in_double (ReadBytesDouble r)) (\<lambda>x.
     bindp (read_doubles r n) (\<lambda>xs. ret (x # xs)))"

text \<open>
  The structure is an argument passed by reference: the result is the code and the new
  structure, or none when the caller's is left as it was.
\<close>

definition buildTcsContext :: "ptr \<Rightarrow> msg_class \<Rightarrow> (jms, int \<times> tcs_context option) prog" where
  "buildTcsContext r cls = throw_spec is_cms (
     if cls \<noteq> IsBytes then ret (status_ERROR, None) else
     bindp (jread in_int (ReadInt r)) (\<lambda>sz.
     if sint sz < TCS_CTX_SIZE then ret (status_ERROR, None) else
     bindp (read_doubles r (nat (sint sz))) (\<lambda>values. ret (status_OK, Some (context_of values)))))"

definition fetch :: "producer \<Rightarrow> int \<Rightarrow> (jms, int \<times> tcs_context option) prog" where
  "fetch p timeout =
     throw_spec (\<lambda>e. throws_class CommunicationException e \<or> throws_class TimeoutException e) (
     thenp (set_msg None)
    (catchp
       (bindp (exchange p PlainMessage (\<lambda>m. ret ()) (\<lambda>m. ret ()) timeout) (\<lambda>reply.
        case reply of
          Some (r, cls) \<Rightarrow> buildTcsContext r cls
        | None \<Rightarrow> throw (gexn TimeoutException ''Time out while waiting for TCSContext'')))
       is_cms (\<lambda>e. thenp delete_msg (throw (gexn CommunicationException
         (''Problem fetching the TCS Context '' @ exn_text e))))))"

subsection \<open>What an exchange does\<close>

text \<open>The calls that come after the request has been deleted.\<close>

fun late_call :: "jms_call \<Rightarrow> bool" where
  "late_call (Receive c t) = True"
| "late_call (CloseObj p) = True"
| "late_call (DestroyQueue p) = True"
| "late_call (GetText p) = True"
| "late_call (GetMapNames p) = True"
| "late_call (ReadInt p) = True"
| "late_call (ReadByte p) = True"
| "late_call (ReadUTF p) = True"
| "late_call (ReadShort p) = True"
| "late_call (ReadFloat p) = True"
| "late_call (ReadBytesDouble p) = True"
| "late_call (ReadBlock p n) = True"
| "late_call (ResetMsg p) = True"
| "late_call _ = False"

text \<open>An environment in which these calls do not throw.\<close>

definition late_ok :: "environment \<Rightarrow> bool" where
  "late_ok en \<longleftrightarrow> (\<forall>c h. late_call c \<longrightarrow> fails en (c # h) = None)"

lemma sat_late:
  assumes "late_ok (env w)" and "late_call c" and "list_all (alive (log w)) (pointers c)"
    and "Q () (w\<lparr>log := (c, True) # log w\<rparr>)"
  shows "sat Q E (jcall c w)"
  using assms by (simp add: jcall_def late_ok_def)

text \<open>
  The request was sent and all objects of the exchange are deleted again; a failure before
  the send may leave the temporary queue and its consumer behind.
\<close>

definition exchanged :: "jms_obj \<Rightarrow> jms_obj \<Rightarrow> put list \<Rightarrow> jms \<Rightarrow> (ptr \<times> msg_class) option \<Rightarrow> jms \<Rightarrow> bool" where
  "exchanged d kind xs w reply w' \<longleftrightarrow> delivered d kind xs w w' \<and>
     (\<forall>r cls. reply = Some (r, cls) \<longrightarrow> alive (log w') r \<and> received (map fst (log w')) r \<and>
        (\<exists>h. request_puts h = xs \<and> arrives (env w) h = Some cls)) \<and>
     (reply = None \<longrightarrow> (\<exists>h. arrives (env w) h = None))"

definition abandoned :: "jms \<Rightarrow> jms \<Rightarrow> bool" where
  "abandoned w w' \<longleftrightarrow> world_ok w' \<and> log_later (log w) (log w') \<and> env w' = env w \<and> sent (log w') = sent (log w) \<and>
     (\<exists>xs. length xs \<le> 2 \<and> raw_at (log w') = xs @ raw_at (log w))"

definition interrupted :: "jms \<Rightarrow> jms \<Rightarrow> bool" where
  "interrupted w w' \<longleftrightarrow> msg w' = None \<and> calm w w' \<or>
     (\<exists>m xs. msg w' = Some m \<and> world_ok w' \<and> log_later (log w) (log w') \<and> env w' = env w \<and>
        sent (log w') = sent (log w) \<and> raw_at (log w') = xs @ m # raw_at (log w) \<and> length xs \<le> 2 \<and>
        m \<notin> set xs \<and> length (log w) \<le> m \<and> alive (log w') m \<and> (\<forall>c. conn w' = Some c \<longrightarrow> c \<noteq> m))"

lemma interrupted_delete:
  assumes "interrupted w w'"
  shows "sat (\<lambda>_ w''. abandoned w w'') (\<lambda>_ _. False) (delete_msg w')"
proof -
  from assms consider "msg w' = None" "calm w w'" | m xs where "msg w' = Some m" "world_ok w'"
      "log_later (log w) (log w')" "env w' = env w" "sent (log w') = sent (log w)"
      "raw_at (log w') = xs @ m # raw_at (log w)" "length xs \<le> 2" "m \<notin> set xs" "length (log w) \<le> m"
      "alive (log w') m" "\<forall>c. conn w' = Some c \<longrightarrow> c \<noteq> m"
    by (auto simp: interrupted_def)
  then show ?thesis
  proof cases
    case 1
    then show ?thesis by (auto simp: wp abandoned_def calm_def)
  next
    case 2
    moreover from 2 have "filter (\<lambda>q. q \<noteq> m) xs = xs" by (auto simp: filter_id_conv)
    ultimately show ?thesis
      by (auto simp: wp abandoned_def world_ok_def alive_def intro!: exI [of _ xs])
  qed
qed

lemma interruptedI:
  assumes "log_wf l" "\<And>c. conn w = Some c \<Longrightarrow> alive (log w) c" "log_later (log w) l" "sent l = sent (log w)"
    "raw_at l = xs @ length (log w) # raw_at (log w)" "length xs \<le> 2" "length (log w) \<notin> set xs"
    "alive l (length (log w))"
  shows "interrupted w (w\<lparr>msg := Some (length (log w)), log := l\<rparr>)"
  using assms by (fastforce simp: interrupted_def world_ok_def intro: log_later_alive dest: alive_less)

text \<open>The part after the temporary objects exist, when nothing of it fails late.\<close>

lemma exchange_tail:
  assumes ok: "world_ok v" "late_ok (env v)" and alv: "alive (log v) p" "alive (log v) m" "alive (log v) q" "alive (log v) c"
    and dist: "m \<noteq> q" "m \<noteq> c" "q \<noteq> c" "p \<noteq> m" "p \<noteq> q" "p \<noteq> c"
    and conn: "\<And>x. conn v = Some x \<Longrightarrow> x \<noteq> m \<and> x \<noteq> q \<and> x \<noteq> c"
    and puts: "puts_to m (map fst (log v)) = xs"
    and raw: "raw_at (log v) = c # q # m # base" "m \<notin> set base" "q \<notin> set base" "c \<notin> set base"
    and Qok: "\<And>reply w'. world_ok w' \<Longrightarrow> env w' = env v \<Longrightarrow>
        (\<forall>x < length (log v). x \<noteq> m \<longrightarrow> x \<noteq> q \<longrightarrow> x \<noteq> c \<longrightarrow> deleted x (log w') \<longrightarrow> deleted x (log v)) \<Longrightarrow>
        suffix (log v) (log w') \<Longrightarrow> raw_at (log w') = base \<Longrightarrow>
        sent (log w') = (route p None (log v), obj_at m (log v), contents m (log v)) # sent (log v) \<Longrightarrow>
        (\<forall>r cls. reply = Some (r, cls) \<longrightarrow> alive (log w') r \<and> received (map fst (log w')) r \<and>
          (\<exists>h. request_puts h = xs \<and> arrives (env v) h = Some cls)) \<Longrightarrow>
        (reply = None \<longrightarrow> (\<exists>h. arrives (env v) h = None)) \<Longrightarrow> Q reply w'"
    and Eok: "\<And>t. E (CMSExn t) (v\<lparr>log := (Send p None m, False) # log v\<rparr>)"
  shows "sat Q E (thenp (jcall (Send p None m))
    (thenp (jdelete m)
    (bindp (jreceive_timeout c timeout) (\<lambda>reply.
     thenp (jcall (CloseObj c))
    (thenp (jdelete c)
    (thenp (jcall (DestroyQueue q))
    (thenp (jdelete q)
    (ret reply))))))) v)"
proof -
  have wf: "log_wf (log v)" and less: "p < length (log v)" "m < length (log v)" "q < length (log v)" "c < length (log v)"
    and nd: "\<not> deleted p (log v)" "\<not> deleted m (log v)" "\<not> deleted q (log v)" "\<not> deleted c (log v)"
    using ok alv by (auto simp: world_ok_def alive_def)
  have fresh: "\<And>k. k \<ge> length (log v) \<Longrightarrow> \<not> deleted k (log v)"
    using log_wf_deleted [OF wf] by (auto simp: linorder_not_less [symmetric])
  have filt: "filter (\<lambda>x. x \<noteq> c) (filter (\<lambda>x. x \<noteq> m) (raw_at (log v))) = q # base"
    "filter (\<lambda>x. x \<noteq> q) (q # base) = base"
    using raw dist by (auto simp: filter_id_conv)
  have fin: "Q reply w'" if
      "w' = v\<lparr>log := (Delete q, True) # (DestroyQueue q, True) # (Delete c, True) # (CloseObj c, True) #
        (Receive c t, True) # (Delete m, True) # (Send p None m, True) # log v\<rparr>"
      "reply = map_option (Pair (Suc (Suc (length (log v)))))
         (arrives (env v) (Receive c t # Delete m # Send p None m # map fst (log v)))" for reply w' t
  proof (rule Qok)
    show "world_ok w'"
      using that ok conn less by (auto simp: world_ok_def alive_def)
    show "raw_at (log w') = base"
      using that filt by simp
    show "\<forall>r cls. reply = Some (r, cls) \<longrightarrow> alive (log w') r \<and> received (map fst (log w')) r \<and>
        (\<exists>h. request_puts h = xs \<and> arrives (env v) h = Some cls)"
      using that less fresh puts by (auto simp: alive_def received_def nth_append request_puts_def
        intro!: exI [of _ "Receive c t # Delete m # Send p None m # map fst (log v)"])
    show "reply = None \<longrightarrow> (\<exists>h. arrives (env v) h = None)"
      using that by auto
  qed (use that in \<open>auto simp: suffix_Cons\<close>)
  show ?thesis
  proof (subst sat_thenp, rule sat_jcall, goal_cases)
    case 1
    then show ?case using alv by simp
  next
    case (2 t)
    then show ?case by (rule Eok)
  next
    case 3
    show ?case
      using ok less nd dist fresh
      by (cases "timeout > 0")
        (auto simp: jreceive_timeout_def jreceive_def wp alive_def fin intro!: sat_late)
  qed
qed

text \<open>The part before the send, which \<open>sendOffset\<close> has in common with all requests.\<close>

definition ask :: "producer \<Rightarrow> jms_obj \<Rightarrow> (ptr \<Rightarrow> (jms, unit) prog) \<Rightarrow> (ptr \<Rightarrow> (jms, unit) prog)
    \<Rightarrow> (jms, ptr \<times> ptr \<times> ptr) prog" where
  "ask p kind fill1 fill2 =
     bindp (jnew (p_session p) kind RawPtr) (\<lambda>m.
     thenp (set_msg (Some m))
    (thenp (fill1 m)
    (bindp (jnew (p_session p) TempQueue RawPtr) (\<lambda>q.
     bindp (jnew (p_session p) (Consumer q None) RawPtr) (\<lambda>c.
     thenp (jcall (SetReplyTo m q))
    (thenp (fill2 m) (ret (m, q, c))))))))"

lemma exchange_ask:
  "exchange p kind fill1 fill2 timeout = bindp (ask p kind fill1 fill2) (\<lambda>(m, q, c).
     thenp (send p m)
    (thenp (jdelete m)
    (bindp (jreceive_timeout c timeout) (\<lambda>reply.
     thenp (jcall (CloseObj c))
    (thenp (jdelete c)
    (thenp (jcall (DestroyQueue q))
    (thenp (jdelete q)
    (ret reply))))))))"
  by (simp add: exchange_def ask_def thenp_def bindp_assoc del: ret_run)

definition opened :: "jms_obj \<Rightarrow> jms_obj \<Rightarrow> put list \<Rightarrow> producer \<Rightarrow> jms \<Rightarrow> ptr \<times> ptr \<times> ptr \<Rightarrow> jms \<Rightarrow> bool" where
  "opened d kind xs p w r v \<longleftrightarrow> (case r of (m, q, c) \<Rightarrow>
     world_ok v \<and> env v = env w \<and> msg v = Some m \<and> conn v = conn w \<and> log_later (log w) (log v) \<and>
     sent (log v) = sent (log w) \<and> raw_at (log v) = c # q # m # raw_at (log w) \<and>
     length (log w) \<le> m \<and> m < q \<and> q < c \<and> alive (log v) m \<and> alive (log v) q \<and> alive (log v) c \<and>
     alive (log w) (p_producer p) \<and> (\<forall>x. conn w = Some x \<longrightarrow> alive (log w) x) \<and>
     route (p_producer p) None (log v) = Some d \<and> obj_at m (log v) = Some kind \<and> contents m (log v) = xs \<and>
     puts_to m (map fst (log v)) = xs)"

lemma ask_sat:
  assumes r: "ready p d w" and none: "msg w = None" and kind: "is_message kind"
    and fill1: "\<And>m. fill1 m = jputs m xs" and fill2: "\<And>m. fill2 m = jputs m ys"
  shows "sat (\<lambda>r v. opened d kind (xs @ ys) p w r v) (\<lambda>e w'. is_cms e \<and> interrupted w w') (ask p kind fill1 fill2 w)"
proof -
  let ?s = "p_session p" and ?m = "length (log w)"
  let ?l1 = "(Create ?s kind RawPtr, True) # log w"
  let ?l2 = "puts_log ?m xs @ ?l1"
  let ?q = "length ?l2" and ?c = "Suc (length ?l2)"
  let ?l3 = "(Create ?s (Consumer ?q None) RawPtr, True) # (Create ?s TempQueue RawPtr, True) # ?l2"
  let ?l4 = "puts_log ?m ys @ (SetReplyTo ?m ?q, True) # ?l3"
  have ptrs: "pointers (Create ?s kind RawPtr) = [?s]"
    using kind by (auto simp: is_message_def)
  have ok: "log_wf (log w)" "\<And>c. conn w = Some c \<Longrightarrow> alive (log w) c"
    and alv: "alive (log w) ?s" "alive (log w) (p_producer p)"
    using r by (auto simp: ready_def world_ok_def)
  have fresh: "\<And>k. k \<ge> ?m \<Longrightarrow> \<not> deleted k (log w)"
    using log_wf_deleted [OF ok(1)] by (auto simp: linorder_not_less [symmetric])
  have base: "\<And>k. k \<ge> ?m \<Longrightarrow> k \<notin> set (raw_at (log w))"
    using raw_at_less by fastforce
  have cons: "contents ?m (log w) = []" "puts_to ?m (map fst (log w)) = []"
    using contents_late [OF ok(1)] puts_to_late [OF ok(1)] by simp_all
  have bad1: "interrupted w (w\<lparr>msg := Some ?m, log := (Put ?m y, False) # puts_log ?m zs @ ?l1\<rparr>)" for y zs
    by (rule interruptedI [where xs = "[]"]) (use ok alv fresh ptrs in \<open>auto simp: alive_def less_Suc_eq\<close>)
  have bad2: "interrupted w (w\<lparr>msg := Some ?m, log := (Create ?s TempQueue RawPtr, False) # ?l2\<rparr>)"
    by (rule interruptedI [where xs = "[]"]) (use ok alv fresh ptrs in \<open>auto simp: alive_def less_Suc_eq\<close>)
  have bad3: "interrupted w (w\<lparr>msg := Some ?m, log := (Create ?s (Consumer ?q None) RawPtr, False) #
      (Create ?s TempQueue RawPtr, True) # ?l2\<rparr>)"
    by (rule interruptedI [where xs = "[?q]"]) (use ok alv fresh ptrs in \<open>auto simp: alive_def less_Suc_eq\<close>)
  have bad4: "interrupted w (w\<lparr>msg := Some ?m, log := (SetReplyTo ?m ?q, False) # ?l3\<rparr>)"
    by (rule interruptedI [where xs = "[?c, ?q]"]) (use ok alv fresh ptrs in \<open>auto simp: alive_def less_Suc_eq\<close>)
  have bad5: "interrupted w (w\<lparr>msg := Some ?m, log := (Put ?m y, False) # puts_log ?m zs @ (SetReplyTo ?m ?q, True) # ?l3\<rparr>)" for y zs
    by (rule interruptedI [where xs = "[?c, ?q]"]) (use ok alv fresh ptrs in \<open>auto simp: alive_def less_Suc_eq\<close>)
  have bad0: "calm w (w\<lparr>log := (Create ?s kind RawPtr, False) # log w\<rparr>)"
    using ok alv ptrs by (auto simp: calm_def world_ok_def alive_def less_Suc_eq)
  have rt: "route (p_producer p) None ?l4 = Some d"
    by (rule route_ready [OF r]) (auto simp: suffix_Cons intro!: suffix_appendI)
  have fin: "opened d kind (xs @ ys) p w (?m, ?q, ?c) (w\<lparr>msg := Some ?m, log := ?l4\<rparr>)"
  proof -
    have "log_wf ?l4" using ok alv ptrs by (auto simp: alive_def)
    moreover have "obj_at ?m ?l4 = Some kind" by simp
    moreover have "alive ?l4 ?m" "alive ?l4 ?q" "alive ?l4 ?c" using fresh by (simp_all add: alive_def)
    moreover have "log_later (log w) ?l4" by simp
    moreover have "alive ?l4 x" if "conn w = Some x" for x
      using log_later_alive [OF _ ok(2) [OF that], of ?l4] by simp
    ultimately show ?thesis
      using ok(2) alv cons rt by (simp add: opened_def world_ok_def)
  qed
  show ?thesis
    unfolding ask_def fill1 fill2
    apply (subst sat_bindp)
    apply (rule sat_jnew)
      apply (use alv ptrs in simp)
     apply (use bad0 none in \<open>simp add: interrupted_def\<close>)
    apply (simp only: sat_thenp sat_set_msg)
    apply (rule sat_jputs)
      apply (use fresh in simp)
     apply (use bad1 in simp)
    apply (subst sat_bindp)
    apply (rule sat_jnew)
      apply (use alv fresh in \<open>simp add: alive_def\<close>)
     apply (use bad2 in simp)
    apply (subst sat_bindp)
    apply (rule sat_jnew)
      apply (use alv fresh in \<open>simp add: alive_def\<close>)
     apply (use bad3 in simp)
    apply (subst sat_thenp)
    apply (rule sat_jcall)
      apply (use alv fresh in \<open>simp add: alive_def\<close>)
     apply (use bad4 in simp)
    apply (subst sat_thenp)
    apply (rule sat_jputs)
      apply (use alv fresh in \<open>simp add: alive_def\<close>)
     apply (use bad5 in simp)
    apply (use fin in simp)
    done
qed

lemma opened_failed:
  assumes "opened d kind xs p w (m, q, c) v"
  shows "interrupted w (v\<lparr>log := (Send (p_producer p) None m, False) # log v\<rparr>)"
proof -
  have "log_wf (log v)" "alive (log v) (p_producer p)" "m < length (log v)"
    using assms by (auto simp: opened_def world_ok_def intro: log_later_alive dest: alive_less)
  moreover have "x \<noteq> m" if "conn w = Some x" for x
    using that assms by (fastforce simp: opened_def dest: alive_less)
  ultimately show ?thesis
    using assms by (auto simp: interrupted_def opened_def world_ok_def alive_def intro!: exI [of _ "[c, q]"])
qed

lemma exchange_sat:
  assumes r: "ready p d w" and none: "msg w = None" and kind: "is_message kind" and late: "late_ok (env w)"
    and fill1: "\<And>m. fill1 m = jputs m xs" and fill2: "\<And>m. fill2 m = jputs m ys"
  shows "sat (\<lambda>reply w'. exchanged d kind (xs @ ys) w reply w') (\<lambda>e w'. is_cms e \<and> interrupted w w')
    (exchange p kind fill1 fill2 timeout w)"
  unfolding exchange_ask sat_bindp [of _ _ "ask _ _ _ _"]
proof (rule sat_mono [OF ask_sat [OF r none kind fill1 fill2]], goal_cases)
  case (1 z v)
  obtain m q c where z: "z = (m, q, c)" by (cases z)
  with 1 have o: "opened d kind (xs @ ys) p w (m, q, c) v" by simp
  have f: "world_ok v" "env v = env w" "conn v = conn w" "log_later (log w) (log v)" "sent (log v) = sent (log w)"
    "raw_at (log v) = c # q # m # raw_at (log w)" "length (log w) \<le> m" "m < q" "q < c"
    "alive (log v) m" "alive (log v) q" "alive (log v) c"
    "route (p_producer p) None (log v) = Some d" "obj_at m (log v) = Some kind" "contents m (log v) = xs @ ys"
    "puts_to m (map fst (log v)) = xs @ ys"
    using o by (simp_all add: opened_def)
  have less: "p_producer p < length (log w)" "\<And>x. conn w = Some x \<Longrightarrow> x < length (log w)"
    using o by (auto simp: opened_def dest: alive_less)
  have prod: "alive (log v) (p_producer p)"
    using o by (auto simp: opened_def intro: log_later_alive)
  have base: "k \<notin> set (raw_at (log w))" if "length (log w) \<le> k" for k
    using that raw_at_less by fastforce
  have conn: "x \<noteq> m \<and> x \<noteq> q \<and> x \<noteq> c" if "conn v = Some x" for x
    using that less(2) [of x] f by auto
  show ?case
    unfolding z prod.case send_def
  proof (rule exchange_tail [where base = "raw_at (log w)", OF f(1) _ prod f(10-12) _ _ _ _ _ _ _ f(16)], goal_cases)
    case (13 reply w')
    then have "suffix (log w) (log w')"
      using f(4) by (auto simp: log_later_def intro: suffix_order.trans)
    moreover have "deleted x (log w)" if "x < length (log w)" "deleted x (log w')" for x
    proof -
      have "x < length (log v)" "x \<noteq> m" "x \<noteq> q" "x \<noteq> c"
        using f that(1) by (auto dest: alive_less)
      with 13(3) that(2) have "deleted x (log v)" by blast
      with f(4) that(1) show ?thesis by (auto simp: log_later_def)
    qed
    ultimately show ?case
      using 13 f by (simp add: exchanged_def delivered_def log_later_def)
  next
    case (14 t)
    show ?case using opened_failed [OF o] by simp
  qed (use f less late base conn in simp_all)
qed simp

subsection \<open>The requests\<close>

lemma late_env [simp]: "late_ok (env w) \<Longrightarrow> env w' = env w \<Longrightarrow> late_ok (env w')"
  by simp

text \<open>Reading the reply changes nothing but the log.\<close>

definition reading :: "jms \<Rightarrow> jms \<Rightarrow> bool" where
  "reading w w' \<longleftrightarrow> calm w w' \<and> (\<forall>p. alive (log w) p \<longrightarrow> alive (log w') p)"

lemma sat_jread_late:
  assumes "world_ok w" and "late_ok (env w)" and "alive (log w) r" and "late_call c" and "pointers c = [r]"
    and "\<And>p. c \<noteq> Delete p" and "\<And>m x. c \<noteq> Put m x" and "\<And>a b m. c \<noteq> Send a b m"
    and "\<And>s ob h. c \<noteq> Create s ob h" and "\<And>u h. c \<noteq> CreateFactory u h"
  shows "sat (\<lambda>_ w'. calm w w' \<and> alive (log w') r) E (jread f c w)"
proof -
  have "raw_at ((c, True) # log w) = raw_at (log w)" "sent ((c, True) # log w) = sent (log w)"
    using assms(4) by (cases c; simp)+
  with assms show ?thesis
    unfolding jread_def wp
    by (intro sat_late) (auto simp: calm_def world_ok_def alive_def less_Suc_eq)
qed

lemma delivered_calm: "delivered d k xs w v \<Longrightarrow> calm v w' \<Longrightarrow> delivered d k xs w w'"
  by (auto simp: delivered_def calm_def intro: log_later_trans)

text \<open>A request with its handlers, for any way to use the reply.\<close>

lemma request_sat:
  assumes r: "ready p d w" and kind: "is_message kind" and late: "late_ok (env w)"
    and fill1: "\<And>m. fill1 m = jputs m xs" and fill2: "\<And>m. fill2 m = jputs m ys"
    and reply_ok: "\<And>reply v. exchanged d kind (xs @ ys) (w\<lparr>msg := None\<rparr>) reply v \<Longrightarrow> late_ok (env v) \<Longrightarrow>
      sat Q (\<lambda>e w'. \<not> is_cms e \<and> E e w') (k reply v)"
    and fail: "\<And>e w'. abandoned w w' \<Longrightarrow> E (gexn cls (err e)) w'"
  shows "sat Q E (thenp (set_msg None) (catchp (bindp (exchange p kind fill1 fill2 timeout) k)
     is_cms (\<lambda>e. thenp delete_msg (throw (gexn cls (err e))))) w)"
  unfolding sat_thenp sat_set_msg sat_catchp sat_bindp
proof (rule sat_mono [OF exchange_sat [where d = d, OF _ _ kind _ fill1 fill2]], goal_cases)
  case 1
  show ?case using r by (simp add: ready_def)
next
  case (4 reply v)
  then have "late_ok (env v)" using late by (simp add: exchanged_def delivered_def)
  from reply_ok [OF 4 this] show ?case by (rule sat_mono) auto
next
  case (5 e w')
  then have "interrupted (w\<lparr>msg := None\<rparr>) w'" "is_cms e" by simp_all
  then show ?case
    by (auto simp: sat_thenp abandoned_def intro!: fail elim!: sat_mono [OF interrupted_delete])
qed (use late in simp_all)

text \<open>What a request for a property puts into its message.\<close>

definition property_puts :: "string \<Rightarrow> put list" where
  "property_puts k = [IntProperty (key GMP_UTIL_REQUEST_TYPE) GMP_UTIL_REQUEST_PROPERTY, MapString (key GMP_UTIL_PROPERTY) k]"

lemma getProperty_sat:
  assumes r: "ready p d w" and late: "late_ok (env w)" and textual: "\<And>h. request_puts h = property_puts k \<Longrightarrow> arrives (env w) h = None \<or> arrives (env w) h = Some IsText"
  shows "sat (\<lambda>_ w'. delivered d MapMessage (property_puts k) w w')
     (\<lambda>e w'. throws_class TimeoutException e \<and> delivered d MapMessage (property_puts k) w w'
       \<or> throws_class PostException e \<and> abandoned w w')
     (getProperty p k timeout w)"
  unfolding getProperty_def sat_throw_spec
proof (rule request_sat [OF r _ late, where xs = "property_puts k" and ys = "[]"], goal_cases)
  case (4 reply v)
  then have del: "delivered d MapMessage (property_puts k) w v"
    by (simp add: exchanged_def delivered_def)
  show ?case
  proof (cases reply)
    case None
    with del show ?thesis by simp
  next
    case (Some z)
    obtain q cls where z: "z = (q, cls)" by force
    with 4 Some textual have q: "alive (log v) q" "cls = IsText"
      by (auto simp: exchanged_def) (metis option.distinct(1) option.inject)
    have "world_ok v" using del by (simp add: delivered_def)
    with Some z q 4(2) del show ?thesis
      by (auto intro!: sat_mono [OF sat_jread_late [where r = q]] intro: delivered_calm)
  qed
qed (simp_all add: property_puts_def del: key.simps)

lemma read_doubles_sat:
  assumes "world_ok v" and "late_ok (env v)" and "alive (log v) r"
  shows "sat (\<lambda>xs w'. calm v w' \<and> length xs = n) E (read_doubles r n v)"
  using assms
proof (induction n arbitrary: v)
  case 0
  then show ?case by (simp add: calm_refl)
next
  case (Suc n)
  have "sat (\<lambda>_ w'. calm v w' \<and> alive (log w') r) E (jread in_double (ReadBytesDouble r) v)"
    by (rule sat_jread_late) (use Suc.prems in simp_all)
  then show ?case
    unfolding read_doubles.simps sat_bindp
  proof (rule sat_mono, goal_cases)
    case (1 x u)
    then have "world_ok u" "late_ok (env u)" "alive (log u) r"
      using Suc.prems by (auto simp: calm_def)
    from Suc.IH [OF this] 1 show ?case
      by (auto elim!: sat_mono intro: calm_trans)
  qed
qed

text \<open>Every number of the context comes from the message, in the position the protocol gives it.\<close>

lemma fetch_sat:
  assumes r: "ready p d w" and late: "late_ok (env w)"
  shows "sat (\<lambda>x w'. delivered d PlainMessage [] w w' \<and>
        (fst x = status_OK \<longleftrightarrow> (\<exists>vs. snd x = Some (context_of vs) \<and> 39 \<le> length vs)) \<and>
        (fst x \<noteq> status_OK \<longrightarrow> x = (status_ERROR, None)))
     (\<lambda>e w'. throws_class TimeoutException e \<and> delivered d PlainMessage [] w w'
       \<or> throws_class CommunicationException e \<and> abandoned w w')
     (fetch p timeout w)"
  unfolding fetch_def sat_throw_spec
proof (rule request_sat [OF r _ late, where xs = "[]" and ys = "[]"], goal_cases)
  case (4 reply v)
  then have del: "delivered d PlainMessage [] w v"
    by (simp add: exchanged_def delivered_def)
  show ?case
  proof (cases reply)
    case None
    with del show ?thesis by simp
  next
    case (Some z)
    obtain q cls where z: "z = (q, cls)" by force
    with 4 Some have q: "alive (log v) q"
      by (auto simp: exchanged_def)
    have v: "world_ok v" using del by (simp add: delivered_def)
    have "sat (\<lambda>x w'. calm v w' \<and> (fst x = status_OK \<longleftrightarrow> (\<exists>vs. snd x = Some (context_of vs) \<and> 39 \<le> length vs)) \<and>
        (fst x \<noteq> status_OK \<longrightarrow> x = (status_ERROR, None))) (\<lambda>_ _. False) (buildTcsContext q cls v)"
    proof (cases "cls = IsBytes")
      case False
      with v show ?thesis by (simp add: buildTcsContext_def calm_refl sat_throw_spec)
    next
      case True
      have "sat (\<lambda>_ w'. calm v w' \<and> alive (log w') q) (\<lambda>_ _. False) (jread in_int (ReadInt q) v)"
        by (rule sat_jread_late) (use v 4(2) q in simp_all)
      then show ?thesis
        unfolding buildTcsContext_def sat_throw_spec using True
      proof (simp add: sat_bindp, elim sat_mono, goal_cases)
        case (1 n u)
        then have "world_ok u" "late_ok (env u)" "alive (log u) q"
          using 4(2) by (auto simp: calm_def)
        note rd = read_doubles_sat [OF this, of "nat (sint n)" "\<lambda>_ _. False"]
        have "sat (\<lambda>xs w'. calm v w' \<and> (\<exists>vs. context_of xs = context_of vs \<and> 39 \<le> length vs)) (\<lambda>_ _. False)
            (read_doubles q (nat (sint n)) u)" if "39 \<le> sint n"
          using rd
        proof (rule sat_mono, goal_cases)
          case (1 xs w')
          with that have "39 \<le> length xs" by simp
          with 1 \<open>calm v u \<and> alive (log u) q\<close> show ?case by (blast intro: calm_trans)
        qed simp
        with 1 show ?case
          by (auto simp: sat_bindp TCS_CTX_SIZE_def elim!: sat_mono)
      qed simp
    qed
    with Some z del show ?thesis
      by (auto elim!: sat_mono intro: delivered_calm)
  qed
qed simp_all

subsection \<open>Environments in which nothing fails\<close>

text \<open>A program that throws a \<open>CMSException\<close> only when a call fails, by its form.\<close>

definition unfailing :: "environment \<Rightarrow> bool" where
  "unfailing en \<longleftrightarrow> (\<forall>h. fails en h = None)"

definition steady :: "('a jms_scheme, 'r) prog \<Rightarrow> bool" where
  "steady m \<longleftrightarrow> (\<forall>w. unfailing (env w) \<longrightarrow> unfailing (env (snd (m w))) \<and> (\<forall>e. fst (m w) = Exn e \<longrightarrow> \<not> is_cms e))"

named_theorems steady_intros "programs that throw CMS exceptions only when a call fails"

lemma steady_simple [steady_intros]: "steady (ret x)" "steady undef" "steady (reads f)" "steady (set_msg p)"
  by (simp_all add: steady_def set_msg_def)

lemma steady_throw [steady_intros]: "\<not> is_cms e \<Longrightarrow> steady (throw e)"
  by (simp add: steady_def)

lemma steady_bindp [steady_intros]:
  assumes "steady m" and "\<And>x. steady (f x)"
  shows "steady (bindp m f)"
  unfolding steady_def
proof (intro allI impI)
  fix w :: "'a jms_scheme" assume "unfailing (env w)"
  with assms(1) have "unfailing (env (snd (m w)))" "\<And>e. fst (m w) = Exn e \<Longrightarrow> \<not> is_cms e"
    by (simp_all add: steady_def)
  with assms(2) show "unfailing (env (snd (bindp m f w))) \<and> (\<forall>e. fst (bindp m f w) = Exn e \<longrightarrow> \<not> is_cms e)"
    by (cases "m w" rule: res_cases) (auto simp: bindp_def steady_def)
qed

lemma steady_thenp [steady_intros]: "steady m \<Longrightarrow> steady k \<Longrightarrow> steady (thenp m k)"
  by (simp add: thenp_def steady_bindp)

lemma steady_jcall [steady_intros]: "steady (jcall c)"
  by (auto simp: steady_def jcall_def unfailing_def)

lemma steady_jdelete [steady_intros]: "steady (jdelete p)"
  by (simp add: steady_def jdelete_def)

lemma steady_calls [steady_intros]:
  "steady (jnew s ob h)" "steady (jput m x)" "steady (jread f c)" "steady (send pr m)" "steady (jreceive_timeout q t)"
  unfolding jnew_def jput_def jread_def send_def jreceive_timeout_def jreceive_def
  by (auto intro!: steady_intros)

lemma steady_jputs [steady_intros]: "steady (jputs m xs)"
  by (induction xs) (simp_all add: steady_intros del: ret_run)

lemma steady_exchange:
  "(\<And>m. steady (fill1 m)) \<Longrightarrow> (\<And>m. steady (fill2 m)) \<Longrightarrow> steady (exchange p kind fill1 fill2 timeout)"
  unfolding exchange_def by (intro steady_intros) simp_all

lemma sat_steady:
  "sat Q E (m w) \<Longrightarrow> steady m \<Longrightarrow> unfailing (env w) \<Longrightarrow> sat Q (\<lambda>e w'. E e w' \<and> \<not> is_cms e) (m w)"
  unfolding steady_def by (cases "m w" rule: res_cases) (auto dest: spec [of _ w])

end
