(* ===== verification/Messaging_Correct.thy ===== *)
theory Messaging_Correct
  imports Jms_Request
begin

section \<open>Correctness of the producers and of the requests\<close>

text \<open>
  The properties of the objects that send messages and requests, from the start of the program
  and for every behaviour of the messaging library that the hypotheses do not exclude.
\<close>

subsection \<open>Producers\<close>

lemma start_ok [simp]: "world_ok (start en)" "log (start en) = []" "env (start en) = en" "conn (start en) = None"
  by (simp_all add: start_def world_ok_def)

text \<open>Construction, and then calls: nothing is sent when the constructor throws.\<close>

lemma construct_run:
  assumes new: "sat (\<lambda>p w. ready p d w \<and> calm (start en) w)
      (\<lambda>e w. throws_class CommunicationException e \<and> calm (start en) w) (new (start en))"
    and calls: "\<And>p w. ready p d w \<Longrightarrow> sat (\<lambda>rs w'. ready p d w' \<and> length rs = length cs \<and>
      list_all (expected C) rs \<and> raw_at (log w') = raw_at (log w) \<and>
      sent (log w') = rev (map (to_dest d) (posted f cs rs)) @ sent (log w)) (\<lambda>_ _. False) (run p w)"
  shows "sat (\<lambda>rs w. length rs = length cs \<and> list_all (expected C) rs \<and> raw_at (log w) = [] \<and>
      sent (log w) = rev (map (to_dest d) (posted f cs rs)))
    (\<lambda>e w. throws_class CommunicationException e \<and> raw_at (log w) = [] \<and> sent (log w) = [])
    (bindp new run (start en))"
  unfolding sat_bindp
  by (rule sat_mono [OF new]) (auto simp: calm_def elim!: sat_mono [OF calls])

text \<open>
  Log messages, from the construction of the producer on: a message is sent for every call
  that returns and has a defined level, with this level and text, in the order of the calls;
  a call with another level sends nothing. A call that throws sends nothing, and only a
  \<open>CommunicationException\<close> is thrown. No message object is left undeleted, none is deleted
  twice, and a constructor that throws leaves nothing behind.
\<close>

theorem log_history:
  "sat (\<lambda>rs w. length rs = length cs \<and> list_all (expected (throws_class CommunicationException)) rs \<and>
      raw_at (log w) = [] \<and>
      sent (log w) = rev (map (to_dest (Topic (key GMP_SERVICES_LOG_DESTINATION))) (posted log_message cs rs)))
    (\<lambda>e w. throws_class CommunicationException e \<and> raw_at (log w) = [] \<and> sent (log w) = [])
    (bindp new_JmsLogProducer (\<lambda>p. run_calls (\<lambda>c. postLog p (fst c) (snd c)) cs) (start en))"
  by (rule construct_run [OF _ log_post.history]) (simp_all add: new_JmsLogProducer_def new_JmsProducer_def open_producer_sat list_all_iff del: key.simps)

text \<open>
  Observation events, likewise: the label must not be blank, or the call returns an error
  and sends nothing.
\<close>

theorem event_history:
  "sat (\<lambda>rs w. length rs = length cs \<and> list_all (expected (throws_class CommunicationException)) rs \<and>
      raw_at (log w) = [] \<and>
      sent (log w) = rev (map (to_dest (Topic (key GMP_DATA_OBSEVENT_DESTINATION))) (posted event_message cs rs)))
    (\<lambda>e w. throws_class CommunicationException e \<and> raw_at (log w) = [] \<and> sent (log w) = [])
    (bindp new_JmsObsEventProducer (\<lambda>p. run_calls (\<lambda>c. postEvent p (fst c) (snd c)) cs) (start en))"
  by (rule construct_run [OF _ event_post.history]) (simp_all add: new_JmsObsEventProducer_def new_JmsProducer_def open_producer_sat list_all_iff del: key.simps)

text \<open>
  File events, likewise: neither name may be blank, and the hint is sent for an
  intermediate file whose hint is not blank only.
\<close>

theorem file_history:
  "sat (\<lambda>rs w. length rs = length cs \<and> list_all (expected (throws_class CommunicationException)) rs \<and>
      raw_at (log w) = [] \<and>
      sent (log w) = rev (map (to_dest (Topic (key GMP_DATA_FILEEVENT_DESTINATION))) (posted file_message cs rs)))
    (\<lambda>e w. throws_class CommunicationException e \<and> raw_at (log w) = [] \<and> sent (log w) = [])
    (bindp new_JmsFileEventsProducer (\<lambda>p. run_calls (post_file p) cs) (start en))"
  by (rule construct_run [OF _ file_post.history]) (simp_all add: new_JmsFileEventsProducer_def new_JmsProducer_def open_producer_sat list_all_iff del: key.simps)



text \<open>
  Completion information, likewise: every call that returns has sent the response, with
  its error text if it is an error, and the action it belongs to; the exception is a
  \<open>PostException\<close>.
\<close>

theorem completion_history:
  "sat (\<lambda>rs w. length rs = length cs \<and> list_all (expected (throws_class PostException)) rs \<and>
      raw_at (log w) = [] \<and>
      sent (log w) = rev (map (to_dest (Queue (key GMP_COMPLETION_INFO))) (posted completion_message cs rs)))
    (\<lambda>e w. throws_class CommunicationException e \<and> raw_at (log w) = [] \<and> sent (log w) = [])
    (bindp new_CompletionInfoProducer (\<lambda>p. run_calls (\<lambda>c. postCompletionInfo p (fst c) (snd c)) cs) (start en))"
  by (rule construct_run [OF _ completion_post.history]) (simp_all add: new_CompletionInfoProducer_def open_producer_sat list_all_iff del: key.simps)

subsection \<open>Requests\<close>








subsection \<open>The connection\<close>

text \<open>The state in which the recovery starts: the old connection is stopped and forgotten.\<close>

definition disconnected :: "ptr \<Rightarrow> manager \<Rightarrow> manager" where
  "disconnected c s = s\<lparr>log := (StopConnection c, True) # log s, conn := None\<rparr>"

lemma onException_stop:
  assumes "conn s = Some c" and "alive (log s) c" and "fails (env s) (StopConnection c # map fst (log s)) = None"
  shows "onException n s = bindp (reconnect n) (\<lambda>connected. if \<not> connected then ret False else
     bindp (reads errorHandlersFunctions) (\<lambda>fs.
     thenp (run_functions fs)
    (bindp (reads errorHandlerObjects) (\<lambda>hs.
     thenp (run_objects hs) (ret True))))) (disconnected c s)"
  using assms by (simp add: onException_def disconnected_def jcall_def thenp_def bindp_def)

lemma recovery_succeeds_run:
  assumes "world_ok s" and "conn s = Some c" and "fails (env s) (StopConnection c # map fst (log s)) = None"
    and "\<forall>j < k. fst (startup (attempts j (disconnected c s))) \<noteq> Val ()"
    and "fst (startup (attempts k (disconnected c s))) = Val ()" and "k < n"
  shows "\<exists>t c'. onException n s = (Val True, t) \<and> conn t = Some c' \<and> (StartConnection c', True) \<in> set (log t) \<and>
     invoked t = invoked s @ map RunFunction (errorHandlersFunctions s) @ map RunObject (errorHandlerObjects s)"
proof -
  let ?d = "disconnected c s"
  have c: "alive (log s) c" using assms(1,2) by (simp add: world_ok_def)
  have ok: "world_ok ?d" using assms(1) c by (simp add: world_ok_def disconnected_def alive_def)
  let ?t = "attempts (Suc k) ?d"
  have r: "reconnect n ?d = (Val True, ?t)" using reconnect_succeeds [OF ok assms(4-6)] .
  from reconnect_sat [OF ok, of n] r have q: "quiet ?d ?t"
    and st: "\<exists>c'. conn ?t = Some c' \<and> (StartConnection c', True) \<in> set (log ?t)" by simp_all
  from q have "jms.more ?t = jms.more ?d" by (simp add: quiet_def)
  from manager_more [OF this] have m: "invoked ?t = invoked s" "errorHandlersFunctions ?t = errorHandlersFunctions s"
    "errorHandlerObjects ?t = errorHandlerObjects s" by (simp_all add: disconnected_def)
  show ?thesis
    using st unfolding onException_stop [OF assms(2) c assms(3)]
    by (auto simp: bindp_def thenp_def r m run_functions_run run_objects_run simp del: attempts.simps)
qed

text \<open>
  C20. Recovery: if the attempt to reconnect number \<open>k\<close> is the first that succeeds, more than \<open>k\<close>
  rounds of the loop are enough; the callback then returns with a started connection, and has
  invoked every registered handler once, in the order of registration's sets: all functions
  first, then all objects.
\<close>

theorem recovery_succeeds:
  assumes "world_ok s" and "conn s = Some c" and "fails (env s) (StopConnection c # map fst (log s)) = None"
    and "\<forall>j < k. fst (startup (attempts j (disconnected c s))) \<noteq> Val ()"
    and "fst (startup (attempts k (disconnected c s))) = Val ()" and "k < n"
  shows "\<exists>t c'. onException n s = (Val True, t) \<and> conn t = Some c' \<and> (StartConnection c', True) \<in> set (log t) \<and>
     invoked t = invoked s @ map RunFunction (errorHandlersFunctions s) @ map RunObject (errorHandlerObjects s)"
  by (rule recovery_succeeds_run [OF assms])

text \<open>The connection breaks and the first two attempts fail.\<close>

definition flaky_env :: environment where
  "flaky_env = quiet_env\<lparr>fails := \<lambda>h. case h of CreateFactory u x # h' \<Rightarrow>
     if length (filter (\<lambda>c. case c of CreateFactory u x \<Rightarrow> True | _ \<Rightarrow> False) h') \<in> {1, 2} then Some ''down'' else None | _ \<Rightarrow> None\<rparr>"

definition connected_manager :: manager where
  "connected_manager = snd (thenp (registerGmpErrorHandler_obj 9) (thenp (registerGmpErrorHandler_fun 5) (registerGmpErrorHandler_fun 2))
     (jms.extend (start flaky_env) (manager.fields [] [] [])))"

lemma connected_manager_eq: "connected_manager = \<lparr>env = flaky_env,
   log = [(SetExceptionListener 1, True), (StartConnection 1, True), (Create 0 Connection SharedPtr, True),
     (CreateFactory (broker_uri ''localhost'') SharedPtr, True)],
   conn = Some 1, msg = None, errorHandlersFunctions = [2, 5], errorHandlerObjects = [9], invoked = []\<rparr>"
  by (simp add: connected_manager_def registerGmpErrorHandler_obj_def registerGmpErrorHandler_fun_def Instance_def
      registerOperation_def registerHandler_def set_insert_def startup_def jfactory_def jnew_def jcall_def flaky_env_def
      quiet_env_def start_def jms.extend_def manager.fields_def gmp_hostname_def isEmpty_iff alive_def bindp_def thenp_def
      catchp_def throw_spec_def)

lemma recovery_succeeds_witness:
  "\<exists>t. onException 3 connected_manager = (Val True, t) \<and> invoked t = [RunFunction 2, RunFunction 5, RunObject 9]"
proof -
  have ok: "world_ok connected_manager" "conn connected_manager = Some 1"
      "fails (env connected_manager) (StopConnection 1 # map fst (log connected_manager)) = None"
    by (simp_all add: connected_manager_eq world_ok_def alive_def flaky_env_def quiet_env_def)
  have bad: "\<forall>j < 2. fst (startup (attempts j (disconnected 1 connected_manager))) \<noteq> Val ()"
    unfolding connected_manager_eq by code_simp
  have good: "fst (startup (attempts 2 (disconnected 1 connected_manager))) = Val ()"
    unfolding connected_manager_eq by code_simp
  from recovery_succeeds [OF ok bad good, of 3] show ?thesis
    by (auto simp: connected_manager_eq)
qed






end
