(* ===== verification/Command_Consumer.thy ===== *)
theory Command_Consumer
  imports Listeners
begin

section \<open>Receiving sequence commands\<close>

text \<open>
  \<open>ConfigurationImpl\<close> and \<open>SequenceCommandConsumer\<close> of \<open>src/commands\<close>: the configuration that a
  command carries, the selector by which the broker filters commands, and the callback that
  turns a message into a call of the application's handler and answers it.
\<close>

subsection \<open>Configurations\<close>

type_synonym configuration = "string \<rightharpoonup> string"

definition new_configuration :: configuration where
  "new_configuration = Map.empty"

text \<open>The lookup is \<open>operator[]\<close>: an unknown key is entered with an empty value.\<close>

definition getValue :: "string \<Rightarrow> (configuration, string) prog" where
  "getValue k = thenp (modifies (\<lambda>m. if m k = None then m(k \<mapsto> []) else m)) (reads (\<lambda>m. the (m k)))"

definition setValue :: "string \<Rightarrow> string \<Rightarrow> (configuration, unit) prog" where
  "setValue k v = modifies (\<lambda>m. m(k \<mapsto> v))"

text \<open>The order in which a hash table lists its keys is not known: the keys as a set.\<close>

definition getKeys :: "(configuration, string set) prog" where
  "getKeys = reads dom"

definition getSize :: "(configuration, nat) prog" where
  "getSize = reads (\<lambda>m. card (dom m))"

subsection \<open>Selectors\<close>

definition qt :: string where
  "qt = [CHR 0x27]"

text \<open>What the \<open>switch\<close> appends. There is no case for \<open>SET_START\<close>.\<close>

fun selector_names :: "activity_set \<Rightarrow> string" where
  "selector_names SET_PRESET = key GMP_ACTIVITY_PRESET @ qt"
| "selector_names SET_PRESET_START = key GMP_ACTIVITY_PRESET @ qt @ '','' @ qt
     @ key GMP_ACTIVITY_START @ qt @ '','' @ qt @ key GMP_ACTIVITY_PRESET_START @ qt"
| "selector_names SET_CANCEL = key GMP_ACTIVITY_CANCEL @ qt"
| "selector_names SET_PRESET_CANCEL = key GMP_ACTIVITY_PRESET @ qt @ '','' @ qt @ key GMP_ACTIVITY_CANCEL @ qt"
| "selector_names SET_START_CANCEL = key GMP_ACTIVITY_START @ qt @ '','' @ qt @ key GMP_ACTIVITY_CANCEL @ qt"
| "selector_names SET_PRESET_START_CANCEL = key GMP_ACTIVITY_PRESET @ qt @ '','' @ qt
     @ key GMP_ACTIVITY_START @ qt @ '','' @ qt @ key GMP_ACTIVITY_PRESET_START @ qt @ '','' @ qt
     @ key GMP_ACTIVITY_CANCEL @ qt"
| "selector_names SET_START = []"

definition buildSelector :: "activity_set \<Rightarrow> string" where
  "buildSelector activities = key GMP_ACTIVITY_PROP @ '' IN ('' @ qt @ selector_names activities @ '')''"

text \<open>
  Reading a selector of the form \<open>P IN ('a','b')\<close>, as the JMS specification defines it: a list
  of quoted strings, separated by commas, in parentheses.
\<close>

fun read_quoted :: "string \<Rightarrow> (string \<times> string) option" where
  "read_quoted [] = None"
| "read_quoted (c # cs) = (if c = CHR 0x27 then Some ([], cs)
     else map_option (\<lambda>(x, r). (c # x, r)) (read_quoted cs))"

lemma read_quoted_length: "read_quoted s = Some (x, r) \<Longrightarrow> length r < length s"
  by (induction s arbitrary: x r) (auto split: if_splits)

function read_values :: "string \<Rightarrow> string list option" where
  "read_values s = (case s of
     c # cs \<Rightarrow> if c \<noteq> CHR 0x27 then None else
       (case read_quoted cs of
          Some (x, d # rest) \<Rightarrow>
            if d = CHR '','' then map_option ((#) x) (read_values rest)
            else if d = CHR '')'' \<and> rest = [] then Some [x] else None
        | _ \<Rightarrow> None)
   | [] \<Rightarrow> None)"
  by pat_completeness auto
termination
  by (relation "measure length") (auto dest!: read_quoted_length)

declare read_values.simps [simp del]

definition selector_values :: "string \<Rightarrow> string \<Rightarrow> string list option" where
  "selector_values prop s = (let pre = prop @ '' IN ('' in
     if take (length pre) s = pre then read_values (drop (length pre) s) else None)"

text \<open>The activities each set stands for.\<close>

fun activities_of :: "activity_set \<Rightarrow> activity list" where
  "activities_of SET_PRESET = [PRESET]"
| "activities_of SET_START = [START]"
| "activities_of SET_PRESET_START = [PRESET, START, PRESET_START]"
| "activities_of SET_CANCEL = [CANCEL]"
| "activities_of SET_PRESET_CANCEL = [PRESET, CANCEL]"
| "activities_of SET_START_CANCEL = [START, CANCEL]"
| "activities_of SET_PRESET_START_CANCEL = [PRESET, START, PRESET_START, CANCEL]"

text \<open>Whether the broker passes a message with an activity to a consumer with a selector.\<close>

definition accepts :: "string \<Rightarrow> string \<Rightarrow> bool" where
  "accepts sel act = (case selector_values (key GMP_ACTIVITY_PROP) sel of
     None \<Rightarrow> False | Some vs \<Rightarrow> act \<in> set vs)"

lemma read_quoted_append: "CHR 0x27 \<notin> set x \<Longrightarrow> read_quoted (x @ CHR 0x27 # r) = Some (x, r)"
  by (induction x) auto

lemma read_values_one: "CHR 0x27 \<notin> set x \<Longrightarrow> read_values (CHR 0x27 # x @ CHR 0x27 # '')'') = Some [x]"
  by (subst read_values.simps) (simp add: read_quoted_append)

lemma read_values_more:
  "CHR 0x27 \<notin> set x \<Longrightarrow> read_values (CHR 0x27 # x @ CHR 0x27 # CHR '','' # r) = map_option ((#) x) (read_values r)"
  by (subst read_values.simps) (simp add: read_quoted_append)

lemma no_quote: "CHR 0x27 \<notin> set (activity_key a)"
  by (cases a) simp_all

lemma selector_values_prefix: "selector_values p (p @ '' IN ('' @ s) = read_values s"
  by (simp add: selector_values_def Let_def)

lemma buildSelector_values:
  assumes "s \<noteq> SET_START"
  shows "selector_values (key GMP_ACTIVITY_PROP) (buildSelector s) = Some (map activity_key (activities_of s))"
proof -
  have keys: "key GMP_ACTIVITY_PRESET = activity_key PRESET" "key GMP_ACTIVITY_START = activity_key START"
    "key GMP_ACTIVITY_PRESET_START = activity_key PRESET_START" "key GMP_ACTIVITY_CANCEL = activity_key CANCEL"
    by (simp_all only: activity_key.simps)
  show ?thesis
    unfolding buildSelector_def selector_values_prefix
    using assms
    by (cases s) (simp_all only: selector_names.simps keys qt_def append.simps append_assoc
        read_values_one read_values_more no_quote not_False_eq_True activities_of.simps
        list.map option.map activity_set.distinct simp_thms)
qed

lemma buildSelector_start: "selector_values (key GMP_ACTIVITY_PROP) (buildSelector SET_START) = None"
  unfolding buildSelector_def selector_values_prefix
  by (subst read_values.simps) (simp add: qt_def)

subsection \<open>Construction and destruction\<close>

text \<open>
  A consumer object. The smart pointer to the application's handler is a number; what the
  handler answers is a parameter of the callback.
\<close>

record consumer = listener +
  c_command :: sequence_command
  c_handler :: nat

definition init_consumer ::
  "sequence_command \<Rightarrow> string \<Rightarrow> activity_set \<Rightarrow> nat \<Rightarrow> (jms, consumer) prog" where
  "init_consumer cmd topic activities handler =
     bindp (open_listener topic (Some (buildSelector activities)) ''Trouble initializing sequence command producer: '')
       (\<lambda>l. ret \<lparr>c_session = c_session l, c_consumer = c_consumer l, c_command = cmd, c_handler = handler\<rparr>)"

definition create_consumer :: "sequence_command \<Rightarrow> activity_set \<Rightarrow> nat \<Rightarrow> (jms, consumer) prog" where
  "create_consumer ident activities handler = init_consumer ident (getTopic ident) activities handler"

definition create_consumer_prefix :: "string \<Rightarrow> activity_set \<Rightarrow> nat \<Rightarrow> (jms, consumer) prog" where
  "create_consumer_prefix pfx activities handler = init_consumer APPLY (getTopic_prefix pfx) activities handler"

definition destroy_consumer :: "consumer \<Rightarrow> ('a jms_scheme, unit) prog" where
  "destroy_consumer c = destroy_listener c"

subsection \<open>The callback\<close>

text \<open>
  What the application's handler does: it returns a response, a null pointer, or throws. The
  state of the client adds the dictionary of activities and the calls of handlers so far.
\<close>

datatype handler_result = Responds handler_response | RespondsNull | HandlerThrows exn

type_synonym handler_code = "nat \<Rightarrow> action_id \<Rightarrow> sequence_command \<Rightarrow> activity \<Rightarrow> configuration \<Rightarrow> handler_result"

record client = jms +
  act_map :: activity_map
  handled :: "(nat \<times> action_id \<times> sequence_command \<times> activity \<times> configuration) list"

fun read_config :: "ptr \<Rightarrow> string list \<Rightarrow> configuration \<Rightarrow> (client, configuration) prog" where
  "read_config m [] cfg = ret cfg"
| "read_config m (n # ns) cfg =
     bindp (jread in_text (GetString m n)) (\<lambda>v. read_config m ns (snd (setValue n v cfg)))"

definition call_handler :: "handler_code \<Rightarrow> nat \<Rightarrow> action_id \<Rightarrow> sequence_command \<Rightarrow> activity \<Rightarrow> configuration
    \<Rightarrow> (client, handler_response option) prog" where
  "call_handler code h a cmd act cfg =
     thenp (modifies (\<lambda>s. s\<lparr>handled := handled s @ [(h, a, cmd, act, cfg)]\<rparr>))
      (case code h a cmd act cfg of
         Responds r \<Rightarrow> ret (Some r)
       | RespondsNull \<Rightarrow> ret None
       | HandlerThrows e \<Rightarrow> throw e)"

definition send_reply :: "consumer \<Rightarrow> ptr \<Rightarrow> handler_response option \<Rightarrow> (client, unit) prog" where
  "send_reply c d response =
     bindp (jnew (c_session c) (Producer (Some d)) SharedPtr) (\<lambda>p.
     bindp (jnew (c_session c) MapMessage RawPtr) (\<lambda>reply.
     case response of
       None \<Rightarrow> undef
     | Some r \<Rightarrow>
         thenp (makeHandlerResponseMsg reply r)
        (thenp (jcall (Send p None reply))
        (thenp (jdelete reply)
        (jcall (CloseObj p))))))"

definition onMessage :: "handler_code \<Rightarrow> consumer \<Rightarrow> ptr \<Rightarrow> msg_class \<Rightarrow> (client, unit) prog" where
  "onMessage code c m cls = throw_spec (\<lambda>e. False) (catchp
     (if cls \<noteq> IsMap then undef else
      bindp (jread in_names (GetMapNames m)) (\<lambda>names.
      bindp (jread in_int (GetIntProperty m (key GMP_ACTIONID_PROP))) (\<lambda>actionId.
      bindp (jread in_text (GetStringProperty m (key GMP_ACTIVITY_PROP))) (\<lambda>s.
      bindp (on_part act_map (\<lambda>am w. w\<lparr>act_map := am\<rparr>) (getActivity s)) (\<lambda>act.
      bindp (read_config m names new_configuration) (\<lambda>config.
      bindp (call_handler code (c_handler c) actionId (c_command c) act config) (\<lambda>response.
      bindp (jread has_reply_to (GetReplyTo m)) (\<lambda>has_dest.
      if \<not> has_dest then ret () else
      bindp (reads (\<lambda>w. length (log w) - 1)) (\<lambda>d. send_reply c d response)))))))))
     is_cms (\<lambda>e. ret ()))"

subsection \<open>What the callback does\<close>

lemma client_more:
  assumes "jms.more s' = jms.more (s :: client)"
  shows "act_map s' = act_map s" "handled s' = handled s"
  using assms by (cases s; cases s'; simp)+

lemma read_config_sat:
  assumes "world_ok w" and "alive (log w) m"
  shows "sat (\<lambda>_ w'. quiet w w') (\<lambda>e w'. is_cms e \<and> quiet w w') (read_config m ns cfg w)"
  using assms
proof (induction ns arbitrary: w cfg)
  case Nil
  then show ?case by (simp add: quiet_refl)
next
  case (Cons n ns)
  show ?case
    unfolding read_config.simps sat_bindp
  proof (rule sat_mono [OF sat_jread [where m = m]], goal_cases)
    case (5 v u)
    then have "world_ok u" "alive (log u) m"
      using Cons.prems calm_ok [OF quiet_calm] calm_alive [OF quiet_calm] by blast+
    note IH = Cons.IH [OF this]
    show ?case
      by (rule sat_mono [OF IH]) (use 5 in \<open>auto intro: quiet_trans\<close>)
  qed (use Cons.prems in auto)
qed

text \<open>The reply: one message to the destination the command names, or none when a call fails.\<close>

lemma send_reply_sat:
  assumes w: "world_ok w" and s: "alive (log w) (c_session c)"
    and d: "alive (log w) d" "obj_at d (log w) = Some dest"
  shows "sat (\<lambda>_ w'. world_ok w' \<and> log_later (log w) (log w') \<and> jms.more w' = jms.more w \<and> env w' = env w \<and>
        raw_at (log w') = raw_at (log w) \<and> sent (log w') = (Some dest, Some MapMessage, response_puts r) # sent (log w))
     (\<lambda>e w'. is_cms e \<and> world_ok w' \<and> log_later (log w) (log w') \<and> jms.more w' = jms.more w \<and> env w' = env w \<and>
        (sent (log w') = sent (log w) \<or> sent (log w') = (Some dest, Some MapMessage, response_puts r) # sent (log w)))
     (send_reply c d (Some r) w)"
proof -
  let ?p = "length (log w)" and ?m = "Suc (length (log w))" and ?s = "c_session c"
  let ?l = "(Create ?s MapMessage RawPtr, True) # (Create ?s (Producer (Some d)) SharedPtr, True) # log w"
  have wf: "log_wf (log w)" using w by (simp add: world_ok_def)
  have fresh: "\<And>k. k \<ge> ?p \<Longrightarrow> \<not> deleted k (log w)"
    using log_wf_deleted [OF wf] by (auto simp: linorder_not_less [symmetric])
  have dl: "d < length (log w)" using d(1) by (simp add: alive_def)
  have cons: "contents ?m (log w) = []" using contents_late [OF wf] by simp
  have rt: "route ?p None (puts_log ?m xs @ ?l) = Some dest" for xs
    using d(2) dl by (simp add: route_def)
  note ok = w s d(1) fresh cons rt wf dl
  show ?thesis
    unfolding send_reply_def makeHandlerResponseMsg_puts option.case sat_bindp
    apply (rule sat_jnew)
      apply (use ok in simp)
     apply (use ok in \<open>auto simp: world_ok_def alive_def\<close>)
    apply (rule sat_jnew)
      apply (use ok in \<open>simp add: alive_def\<close>)
     apply (use ok in \<open>auto simp: world_ok_def alive_def\<close>)
    apply (subst sat_thenp, rule sat_jputs)
      apply (use ok in simp)
     apply (use ok in \<open>auto simp: alive_def\<close>)
    apply (subst sat_thenp, rule sat_jcall)
      apply (use ok in \<open>simp add: alive_def\<close>)
     apply (use ok in \<open>auto simp: alive_def\<close>)
    apply (simp only: sat_thenp sat_jdelete)
    apply (intro conjI sat_jcall)
       apply (use ok in \<open>simp add: alive_def\<close>)
      apply (use ok in \<open>simp add: alive_def\<close>)
     apply (use ok in \<open>auto simp: alive_def\<close>)
    done
qed

text \<open>
  A message is answered at most once and by the handler of the consumer, and nothing leaves
  the callback, whatever the messaging library does.
\<close>

definition callback_effect :: "handler_code \<Rightarrow> consumer \<Rightarrow> ptr \<Rightarrow> client \<Rightarrow> client \<Rightarrow> bool" where
  "callback_effect code c m w w' \<longleftrightarrow> env w' = env w \<and>
     (handled w' = handled w \<and> sent (log w') = sent (log w) \<or>
     (\<exists>a s cfg. let call = (c_handler c, a, c_command c, activity_of s, cfg) in
        handled w' = handled w @ [call] \<and>
        (sent (log w') = sent (log w) \<or>
         (\<exists>r. code (c_handler c) a (c_command c) (activity_of s) cfg = Responds r \<and>
            sent (log w') = (Some (ReplyTo m), Some MapMessage, response_puts r) # sent (log w)))))"

definition client_ok :: "client \<Rightarrow> bool" where
  "client_ok w \<longleftrightarrow> world_ok w \<and> activity_map_ok (act_map w)"

definition handler_safe :: "handler_code \<Rightarrow> bool" where
  "handler_safe code \<longleftrightarrow> (\<forall>h a cmd act cfg. \<exists>r. code h a cmd act cfg = Responds r)"

lemma quiet_facts:
  assumes "quiet w w'"
  shows "world_ok w'" "log_later (log w) (log w')" "sent (log w') = sent (log w)"
    "\<And>p. alive (log w) p \<Longrightarrow> alive (log w') p" "jms.more w' = jms.more w"
    "env w' = env w"
  using assms calm_alive [of w w'] by (auto simp: quiet_def calm_def)

text \<open>The part from the handler on.\<close>

lemma answer_sat:
  assumes w: "client_ok w" "alive (log w) m" "alive (log w) (c_session c)" and h: "handler_safe code"
  shows "sat (\<lambda>_ w'. client_ok w' \<and> log_later (log w) (log w') \<and> callback_effect code c m w w')
    (\<lambda>e w'. is_cms e \<and> client_ok w' \<and> log_later (log w) (log w') \<and> callback_effect code c m w w')
    (bindp (call_handler code (c_handler c) a (c_command c) (activity_of s) cfg) (\<lambda>response.
      bindp (jread has_reply_to (GetReplyTo m)) (\<lambda>has_dest.
      if \<not> has_dest then ret () else
      bindp (reads (\<lambda>w. length (log w) - 1)) (\<lambda>d. send_reply c d response))) w)"
proof -
  let ?call = "(c_handler c, a, c_command c, activity_of s, cfg)"
  from h obtain r where r: "code (c_handler c) a (c_command c) (activity_of s) cfg = Responds r"
    unfolding handler_safe_def by meson
  let ?w = "w\<lparr>handled := handled w @ [?call]\<rparr>"
  have ok: "world_ok ?w" "alive (log ?w) m" "alive (log ?w) (c_session c)" "activity_map_ok (act_map ?w)"
    using w by (simp_all add: client_ok_def world_ok_def)
  have eff: "callback_effect code c m w v" if "env v = env w" "handled v = handled ?w"
      "sent (log v) = sent (log w) \<or> sent (log v) = (Some (ReplyTo m), Some MapMessage, response_puts r) # sent (log w)" for v
  proof -
    from that(2) have "handled v = handled w @ [?call]" by simp
    with that(1,3) r show ?thesis unfolding callback_effect_def Let_def by blast
  qed
  have call: "call_handler code (c_handler c) a (c_command c) (activity_of s) cfg w = (Val (Some r), ?w)"
    by (simp add: call_handler_def r)
  show ?thesis
    unfolding sat_bindp call sat.simps
  proof (rule sat_mono [OF sat_jread [OF ok(1) _ _ ok(2)]], goal_cases)
    case (3 has v)
    then have q: "quiet ?w v" and lv: "log v = (GetReplyTo m, True) # log w" by simp_all
    note qf = quiet_facts [OF q] and cm = client_more [OF quiet_facts(5) [OF q]]
    have d: "alive (log v) (length (log v) - 1)" "obj_at (length (log v) - 1) (log v) = Some (ReplyTo m)"
      using lv alive_fresh [of "log w"] ok(1) by (auto simp: world_ok_def)
    show ?case
    proof (cases has)
      case False
      with qf cm ok eff [of v] show ?thesis by (simp add: client_ok_def)
    next
      case True
      have fin: "client_ok u \<and> log_later (log w) (log u) \<and> callback_effect code c m w u"
        if u: "world_ok u" "log_later (log v) (log u)" "jms.more u = jms.more v" "env u = env v"
          "sent (log u) = sent (log v) \<or> sent (log u) = (Some (ReplyTo m), Some MapMessage, response_puts r) # sent (log v)" for u
      proof (intro conjI eff)
        show "log_later (log w) (log u)" using qf(2) u(2) by (auto dest: log_later_trans)
      qed (use u client_more [OF u(3)] cm qf(3,6) ok(4) in \<open>simp_all add: client_ok_def\<close>)
      have "sat (\<lambda>_ w'. client_ok w' \<and> log_later (log w) (log w') \<and> callback_effect code c m w w')
        (\<lambda>e w'. is_cms e \<and> client_ok w' \<and> log_later (log w) (log w') \<and> callback_effect code c m w w')
        (send_reply c (length (log v) - 1) (Some r) v)"
        by (rule sat_mono [OF send_reply_sat [OF qf(1) qf(4) [OF ok(3)] d, of r]]) (use fin in blast)+
      with True show ?thesis by (simp add: sat_bindp)
    qed
  next
    case (4 e v)
    then have q: "quiet ?w v" by simp
    note qf = quiet_facts [OF q] and cm = client_more [OF quiet_facts(5) [OF q]]
    from 4 qf cm ok eff [of v] show ?case by (simp add: client_ok_def)
  qed simp_all
qed

text \<open>The reads before it change nothing that matters.\<close>

definition idle :: "client \<Rightarrow> client \<Rightarrow> bool" where
  "idle w v \<longleftrightarrow> client_ok v \<and> log_later (log w) (log v) \<and> handled v = handled w \<and> sent (log v) = sent (log w) \<and>
     env v = env w"

lemma idle_quiet: "client_ok w \<Longrightarrow> quiet w v \<Longrightarrow> idle w v"
  using client_more [of v w] by (auto simp: idle_def client_ok_def dest: quiet_facts)

lemma idle_alive: "idle w v \<Longrightarrow> alive (log w) p \<Longrightarrow> alive (log v) p"
  by (auto simp: idle_def intro: log_later_alive)

definition answered :: "handler_code \<Rightarrow> consumer \<Rightarrow> ptr \<Rightarrow> client \<Rightarrow> client \<Rightarrow> bool" where
  "answered code c m w v \<longleftrightarrow> client_ok v \<and> log_later (log w) (log v) \<and> callback_effect code c m w v"

lemma answered_idle: "idle w v \<Longrightarrow> answered code c m w v"
  by (simp add: answered_def idle_def callback_effect_def)

lemma answered_after: "idle w u \<Longrightarrow> answered code c m u v \<Longrightarrow> answered code c m w v"
  by (auto simp: answered_def idle_def callback_effect_def intro: log_later_trans)

text \<open>One statement of the callback followed by the rest of it.\<close>

lemma answered_bind:
  assumes "sat (\<lambda>x v. P x \<and> idle w v) (\<lambda>e v. is_cms e \<and> idle w v) (f w)"
    and "\<And>x v. P x \<Longrightarrow> idle w v \<Longrightarrow>
      sat (\<lambda>_. answered code c m v) (\<lambda>e v'. is_cms e \<and> answered code c m v v') (k x v)"
  shows "sat (\<lambda>_. answered code c m w) (\<lambda>e v'. is_cms e \<and> answered code c m w v') (bindp f k w)"
  unfolding sat_bindp
proof (rule sat_mono [OF assms(1)], goal_cases)
  case (1 x v)
  then have "idle w v" "P x" by simp_all
  from assms(2) [OF this(2,1)] show ?case
    by (rule sat_mono) (use \<open>idle w v\<close> in \<open>auto intro: answered_after\<close>)
qed (auto intro: answered_idle)

lemmas answered_read = answered_bind [where P = "\<lambda>_. True"]

lemma jread_idle:
  assumes "client_ok w" and "alive (log w) m" and "read_call c" and "pointers c = [m]"
  shows "sat (\<lambda>x v. True \<and> idle w v) (\<lambda>e v. is_cms e \<and> idle w v) (jread f c w)"
  by (rule sat_mono [OF sat_jread [OF _ assms(3,4,2)]])
    (use assms(1) in \<open>auto simp: client_ok_def [of w] intro: idle_quiet\<close>)

lemma getActivity_idle:
  assumes "client_ok w"
  shows "sat (\<lambda>a v. a = activity_of s \<and> idle w v) (\<lambda>e v. is_cms e \<and> idle w v)
    (on_part act_map (\<lambda>am w. w\<lparr>act_map := am\<rparr>) (getActivity s) w)"
  unfolding sat_on_part
  by (rule sat_mono [OF getActivity_run])
    (use assms in \<open>auto simp: client_ok_def idle_def world_ok_def\<close>)

lemma read_config_idle:
  assumes "client_ok w" and "alive (log w) m"
  shows "sat (\<lambda>x v. True \<and> idle w v) (\<lambda>e v. is_cms e \<and> idle w v) (read_config m ns cfg w)"
  by (rule sat_mono [OF read_config_sat])
    (use assms in \<open>auto simp: client_ok_def [of w] intro: idle_quiet\<close>)

lemma onMessage_sat:
  assumes w: "client_ok w" "alive (log w) m" "alive (log w) (c_session c)" and h: "handler_safe code"
  shows "sat (\<lambda>_. answered code c m w) (\<lambda>_ _. False) (onMessage code c m IsMap w)"
proof -
  have body: "sat (\<lambda>_. answered code c m w) (\<lambda>e v'. is_cms e \<and> answered code c m w v')
     (bindp (jread in_names (GetMapNames m)) (\<lambda>names.
      bindp (jread in_int (GetIntProperty m (key GMP_ACTIONID_PROP))) (\<lambda>actionId.
      bindp (jread in_text (GetStringProperty m (key GMP_ACTIVITY_PROP))) (\<lambda>s.
      bindp (on_part act_map (\<lambda>am w. w\<lparr>act_map := am\<rparr>) (getActivity s)) (\<lambda>act.
      bindp (read_config m names new_configuration) (\<lambda>config.
      bindp (call_handler code (c_handler c) actionId (c_command c) act config) (\<lambda>response.
      bindp (jread has_reply_to (GetReplyTo m)) (\<lambda>has_dest.
      if \<not> has_dest then ret () else
      bindp (reads (\<lambda>w. length (log w) - 1)) (\<lambda>d. send_reply c d response)))))))) w)"
  proof (rule answered_read, rule jread_idle [OF w(1,2)], goal_cases)
    case (3 names v1)
    then have v1: "client_ok v1" "alive (log v1) m" "alive (log v1) (c_session c)"
      using w idle_alive by (auto simp: idle_def)
    show ?case
    proof (rule answered_read, rule jread_idle [OF v1(1,2)], goal_cases)
      case (3 ident v2)
      then have v2: "client_ok v2" "alive (log v2) m" "alive (log v2) (c_session c)"
        using v1 idle_alive by (auto simp: idle_def)
      show ?case
      proof (rule answered_read, rule jread_idle [OF v2(1,2)], goal_cases)
        case (3 s v3)
        then have v3: "client_ok v3" "alive (log v3) m" "alive (log v3) (c_session c)"
          using v2 idle_alive by (auto simp: idle_def)
        show ?case
        proof (rule answered_bind [where P = "\<lambda>a. a = activity_of s"], rule getActivity_idle [OF v3(1)], goal_cases)
          case (1 act v4)
          then have v4: "client_ok v4" "alive (log v4) m" "alive (log v4) (c_session c)"
            using v3 idle_alive by (auto simp: idle_def)
          show ?case
          proof (rule answered_read, rule read_config_idle [OF v4(1,2)], goal_cases)
            case (1 config v5)
            then have v5: "client_ok v5" "alive (log v5) m" "alive (log v5) (c_session c)"
              using v4 idle_alive by (auto simp: idle_def)
            have "act = activity_of s" using \<open>act = activity_of s\<close> .
            with answer_sat [OF v5 h, of ident s config] show ?case
              by (auto simp: answered_def elim!: sat_mono)
          qed
        qed
      qed simp_all
    qed simp_all
  qed simp_all
  show ?thesis
    unfolding onMessage_def sat_throw_spec sat_catchp
    using body by (auto elim!: sat_mono)
qed

end
