(* ===== verification/Command_Util.thy ===== *)
theory Command_Util
  imports Command_Consumer
begin

section \<open>Registering handlers for sequence commands\<close>

text \<open>
  \<open>JmsCommandUtil\<close> with its \<open>ActivityHolder\<close>s, \<open>LogCommandUtil\<close> and \<open>CommandUtil\<close> of
  \<open>src/commands\<close>: consumers are owned by smart pointers in the holders, one holder per topic
  and one place per activity. A consumer whose last place is taken by another is destroyed.
\<close>

subsection \<open>ActivityHolder\<close>

type_synonym activity_holder = "activity \<rightharpoonup> consumer"

definition referenced :: "consumer \<Rightarrow> activity_holder \<Rightarrow> bool" where
  "referenced c h \<longleftrightarrow> list_ex (\<lambda>a. h a = Some c) Enum.enum"

definition registerConsumer_activity :: "activity \<Rightarrow> consumer \<Rightarrow> (activity_holder \<times> jms, unit) prog" where
  "registerConsumer_activity a c =
     bindp (reads (\<lambda>s. fst s a)) (\<lambda>old.
     thenp (modifies (\<lambda>s. ((fst s)(a \<mapsto> c), snd s)))
    (case old of
       None \<Rightarrow> ret ()
     | Some o' \<Rightarrow> bindp (reads (\<lambda>s. referenced o' (fst s))) (\<lambda>used.
         if used then ret () else on_part snd (\<lambda>w s. (fst s, w)) (destroy_consumer o'))))"

definition registerConsumer :: "activity_set \<Rightarrow> consumer \<Rightarrow> (activity_holder \<times> jms, unit) prog" where
  "registerConsumer activities c = (case activities of
     SET_PRESET \<Rightarrow> registerConsumer_activity PRESET c
   | SET_START \<Rightarrow> registerConsumer_activity START c
   | SET_PRESET_START \<Rightarrow> registerConsumer_activity PRESET_START c
   | SET_CANCEL \<Rightarrow> registerConsumer_activity CANCEL c
   | SET_PRESET_CANCEL \<Rightarrow>
       thenp (registerConsumer_activity PRESET c) (registerConsumer_activity CANCEL c)
   | SET_START_CANCEL \<Rightarrow>
       thenp (registerConsumer_activity START c) (registerConsumer_activity CANCEL c)
   | SET_PRESET_START_CANCEL \<Rightarrow>
       thenp (registerConsumer_activity PRESET c)
      (thenp (registerConsumer_activity CANCEL c) (registerConsumer_activity START c)))"

subsection \<open>JmsCommandUtil\<close>

record jms_command_util =
  cu_holders :: "string \<rightharpoonup> activity_holder"
  cu_producer :: producer

record command_service =
  cs_net :: jms
  cs_instance :: "jms_command_util option"

definition on_cs_net :: "(jms, 'a) prog \<Rightarrow> (command_service, 'a) prog" where
  "on_cs_net m = on_part cs_net (\<lambda>w s. s\<lparr>cs_net := w\<rparr>) m"

text \<open>\<open>LogCommandUtil\<close> writes to the log of the program and accepts everything.\<close>

definition log_subscribeSequenceCommand :: "sequence_command \<Rightarrow> activity_set \<Rightarrow> nat \<Rightarrow> int" where
  "log_subscribeSequenceCommand ident activities handler = status_OK"

definition log_subscribeApply :: "string \<Rightarrow> activity_set \<Rightarrow> nat \<Rightarrow> int" where
  "log_subscribeApply pfx activities handler = status_OK"

definition log_postCompletionInfo :: "action_id \<Rightarrow> handler_response \<Rightarrow> int" where
  "log_postCompletionInfo ident response = status_OK"

definition new_JmsCommandUtil :: "(jms, jms_command_util) prog" where
  "new_JmsCommandUtil = throw_spec (throws_class CommunicationException)
     (bindp new_CompletionInfoProducer (\<lambda>p. ret \<lparr>cu_holders = Map.empty, cu_producer = p\<rparr>))"

definition JmsCommandUtil_Instance :: "(command_service, jms_command_util) prog" where
  "JmsCommandUtil_Instance = throw_spec (throws_class CommunicationException)
     (bindp (reads cs_instance) (\<lambda>i. case i of
        Some u \<Rightarrow> ret u
      | None \<Rightarrow> bindp (on_cs_net new_JmsCommandUtil) (\<lambda>u.
          thenp (modifies (\<lambda>s. s\<lparr>cs_instance := Some u\<rparr>)) (ret u))))"

text \<open>The holder of a topic, made when there is none, takes the consumer.\<close>

definition store_consumer :: "string \<Rightarrow> activity_set \<Rightarrow> consumer \<Rightarrow> (command_service, unit) prog" where
  "store_consumer topic activities c = bindp (reads cs_instance) (\<lambda>i. case i of
     None \<Rightarrow> undef
   | Some u \<Rightarrow> (let h = (case cu_holders u topic of None \<Rightarrow> Map.empty | Some h \<Rightarrow> h) in
       on_part (\<lambda>s. (h, cs_net s))
         (\<lambda>p s. s\<lparr>cs_net := snd p, cs_instance := Some (u\<lparr>cu_holders := (cu_holders u)(topic \<mapsto> fst p)\<rparr>)\<rparr>)
         (registerConsumer activities c)))"

definition jms_subscribeSequenceCommand ::
  "sequence_command \<Rightarrow> activity_set \<Rightarrow> nat \<Rightarrow> (command_service, int) prog" where
  "jms_subscribeSequenceCommand ident activities handler = throw_spec (throws_class CommunicationException)
     (if log_subscribeSequenceCommand ident activities handler \<noteq> status_ERROR then
        bindp (on_cs_net (create_consumer ident activities handler)) (\<lambda>c.
        thenp (store_consumer (getTopic ident) activities c) (ret status_OK))
      else ret status_ERROR)"

definition jms_subscribeApply :: "string \<Rightarrow> activity_set \<Rightarrow> nat \<Rightarrow> (command_service, int) prog" where
  "jms_subscribeApply pfx activities handler = throw_spec (throws_class CommunicationException)
     (if log_subscribeApply pfx activities handler \<noteq> status_ERROR then
        bindp (on_cs_net (create_consumer_prefix pfx activities handler)) (\<lambda>c.
        thenp (store_consumer (getTopic_prefix pfx) activities c) (ret status_OK))
      else ret status_ERROR)"

definition jms_postCompletionInfo ::
  "jms_command_util \<Rightarrow> action_id \<Rightarrow> handler_response \<Rightarrow> (command_service, int) prog" where
  "jms_postCompletionInfo u ident response = throw_spec (throws_class PostException)
     (if log_postCompletionInfo ident response \<noteq> status_ERROR
      then on_cs_net (postCompletionInfo (cu_producer u) ident response)
      else ret status_ERROR)"

subsection \<open>CommandUtil\<close>

text \<open>The public functions; a null smart pointer is \<open>None\<close>.\<close>

datatype command_call =
    SubscribeSequenceCommand sequence_command activity_set "nat option"
  | SubscribeApply string activity_set "nat option"
  | PostCompletionInfo action_id "handler_response option"

definition subscribeSequenceCommand ::
  "sequence_command \<Rightarrow> activity_set \<Rightarrow> nat option \<Rightarrow> (command_service, int) prog" where
  "subscribeSequenceCommand ident activities handler = throw_spec (throws_class GiapiException) (case handler of
     None \<Rightarrow> ret status_ERROR
   | Some h \<Rightarrow> bindp JmsCommandUtil_Instance (\<lambda>u. jms_subscribeSequenceCommand ident activities h))"

definition subscribeApply :: "string \<Rightarrow> activity_set \<Rightarrow> nat option \<Rightarrow> (command_service, int) prog" where
  "subscribeApply pfx activities handler = throw_spec (throws_class GiapiException) (case handler of
     None \<Rightarrow> ret status_ERROR
   | Some h \<Rightarrow> bindp JmsCommandUtil_Instance (\<lambda>u. jms_subscribeApply pfx activities h))"

text \<open>The responses that completion information may have.\<close>

fun completes :: "handler_response \<Rightarrow> bool" where
  "completes h = (case getResponse h of
     COMPLETED \<Rightarrow> True
   | RESP_ERROR \<Rightarrow> getMessage h \<noteq> []
   | _ \<Rightarrow> False)"

definition CommandUtil_postCompletionInfo ::
  "action_id \<Rightarrow> handler_response option \<Rightarrow> (command_service, int) prog" where
  "CommandUtil_postCompletionInfo ident response = throw_spec (throws_class GiapiException) (case response of
     None \<Rightarrow> ret status_ERROR
   | Some r \<Rightarrow> if completes r
       then bindp JmsCommandUtil_Instance (\<lambda>u. jms_postCompletionInfo u ident r)
       else ret status_ERROR)"

fun command_step :: "command_call \<Rightarrow> (command_service, int) prog" where
  "command_step (SubscribeSequenceCommand ident activities h) = subscribeSequenceCommand ident activities h"
| "command_step (SubscribeApply pfx activities h) = subscribeApply pfx activities h"
| "command_step (PostCompletionInfo ident r) = CommandUtil_postCompletionInfo ident r"

subsection \<open>Construction of a consumer\<close>

definition consumes :: "consumer \<Rightarrow> string \<Rightarrow> activity_set \<Rightarrow> jms_log \<Rightarrow> bool" where
  "consumes c topic activities l \<longleftrightarrow> hears c topic (Some (buildSelector activities)) l"

lemma init_consumer_sat:
  assumes "world_ok w" "typed_listeners (log w)"
  shows "sat (\<lambda>c w'. subscribed c w w' \<and> consumes c topic activities (log w') \<and> c_command c = cmd \<and> c_handler c = h)
    (\<lambda>e w'. throws_class CommunicationException e \<and> calm w w' \<and> unheard (log w) (log w'))
    (init_consumer cmd topic activities h w)"
  unfolding init_consumer_def sat_bindp
  by (rule sat_mono [OF open_listener_sat [OF assms]])
    (auto simp: subscribed_def consumer_ready_def consumes_def hears_def)

subsection \<open>Registration\<close>

lemma referenced_iff: "referenced c h \<longleftrightarrow> c \<in> ran h"
proof -
  have "c \<in> ran h \<longleftrightarrow> (\<exists>a. h a = Some c)" by (auto simp: ran_def)
  also have "\<dots> \<longleftrightarrow> (\<exists>a \<in> {PRESET, START, PRESET_START, CANCEL}. h a = Some c)"
    using UNIV_activity by (metis UNIV_I)
  finally show ?thesis by (simp add: referenced_def enum_activity_def)
qed

text \<open>The consumers of other holders are \<open>O'\<close>; the new one is counted from its creation on.\<close>

lemma register_activity_sat:
  assumes s: "served_with F (insert c (ran h \<union> O')) w" and disj: "ran h \<inter> O' = {}" "c \<notin> O'"
  shows "sat (\<lambda>_ s. fst s = h(a \<mapsto> c) \<and> served_with F (insert c (ran (fst s) \<union> O')) (snd s) \<and> calm w (snd s))
    (\<lambda>_ _. False) (registerConsumer_activity a c (h, w))"
proof (cases "h a")
  case None
  then have "ran (h(a \<mapsto> c)) = insert c (ran h)" by (simp add: ran_map_upd)
  with None s show ?thesis
    by (simp add: registerConsumer_activity_def wp calm_refl) (simp add: served_with_def calm_refl)
next
  case (Some x)
  let ?h = "h(a \<mapsto> c)"
  have x: "x \<in> ran h" "x \<notin> O'" using Some disj by (auto simp: ran_def)
  have ran: "insert c (ran h) = insert c (insert x (ran ?h))"
    using Some by (auto simp: ran_def split: if_splits) (metis option.inject)
  show ?thesis
  proof (cases "x \<in> ran ?h")
    case True
    then have "insert c (ran ?h \<union> O') = insert c (ran h \<union> O')" using ran by auto
    with Some True s show ?thesis
      by (simp add: registerConsumer_activity_def wp referenced_iff) (simp add: served_with_def calm_refl)
  next
    case False
    have "c \<in> ran ?h" by (auto simp: ran_def)
    with False have "x \<noteq> c" by blast
    with False x ran have R: "insert c (ran h \<union> O') - {x} = insert c (ran ?h \<union> O')" by auto
    have "x \<in> insert c (ran h \<union> O')" using x by simp
    from destroy_listener_sat [OF s this] Some False show ?thesis
      unfolding R
      by (auto simp: registerConsumer_activity_def destroy_consumer_def wp referenced_iff quiet_calm elim!: sat_mono)
  qed
qed

text \<open>The places a set of activities takes.\<close>

fun held :: "activity_set \<Rightarrow> activity list" where
  "held SET_PRESET = [PRESET]"
| "held SET_START = [START]"
| "held SET_PRESET_START = [PRESET_START]"
| "held SET_CANCEL = [CANCEL]"
| "held SET_PRESET_CANCEL = [PRESET, CANCEL]"
| "held SET_START_CANCEL = [START, CANCEL]"
| "held SET_PRESET_START_CANCEL = [PRESET, CANCEL, START]"

fun register_all :: "activity list \<Rightarrow> consumer \<Rightarrow> (activity_holder \<times> jms, unit) prog" where
  "register_all [] c = ret ()"
| "register_all (a # as) c = thenp (registerConsumer_activity a c) (register_all as c)"

lemma registerConsumer_all: "registerConsumer activities c = register_all (held activities) c"
  by (cases activities) (simp_all add: registerConsumer_def del: ret_run)

definition place :: "activity list \<Rightarrow> consumer \<Rightarrow> activity_holder \<Rightarrow> activity_holder" where
  "place as c h = (\<lambda>a. if a \<in> set as then Some c else h a)"

lemma register_all_sat:
  assumes "served_with F (insert c (ran h \<union> O')) w" and "ran h \<inter> O' = {}" and "c \<notin> O'"
  shows "sat (\<lambda>_ s. fst s = place as c h \<and> served_with F (insert c (ran (fst s) \<union> O')) (snd s) \<and> calm w (snd s))
    (\<lambda>_ _. False) (register_all as c (h, w))"
  using assms
proof (induction as arbitrary: h w)
  case Nil
  then show ?case by (simp add: place_def) (simp add: served_with_def calm_refl)
next
  case (Cons a as)
  show ?case
    unfolding register_all.simps sat_thenp
  proof (rule sat_mono [OF register_activity_sat [OF Cons.prems]], goal_cases)
    case (1 u s)
    have "ran (h(a \<mapsto> c)) \<subseteq> insert c (ran h)" by (auto simp: ran_def)
    with Cons.prems(2,3) have "ran (h(a \<mapsto> c)) \<inter> O' = {}" by auto
    moreover have "place as c (h(a \<mapsto> c)) = place (a # as) c h" by (auto simp: place_def fun_eq_iff)
    moreover obtain v where s: "s = (h(a \<mapsto> c), v)" using 1 by (cases s) auto
    moreover have "served_with F (insert c (ran (h(a \<mapsto> c)) \<union> O')) v" "calm w v" using 1 s by simp_all
    ultimately have IH: "sat (\<lambda>_ s. fst s = place (a # as) c h \<and> served_with F (insert c (ran (fst s) \<union> O')) (snd s) \<and>
        calm v (snd s)) (\<lambda>_ _. False) (register_all as c s)"
      using Cons.IH [OF _ _ Cons.prems(3), of "h(a \<mapsto> c)" v] by metis
    show ?case by (rule sat_mono [OF IH]) (use \<open>calm w v\<close> in \<open>auto intro: calm_trans\<close>)
  qed simp
qed

subsection \<open>The service\<close>

definition new_command_service :: "environment \<Rightarrow> command_service" where
  "new_command_service en = \<lparr>cs_net = start en, cs_instance = None\<rparr>"

text \<open>The consumers the holders refer to, and those of all topics but one.\<close>

definition in_use :: "(string \<rightharpoonup> activity_holder) \<Rightarrow> consumer set" where
  "in_use hs = {x. \<exists>t h. hs t = Some h \<and> x \<in> ran h}"

definition in_use_but :: "string \<Rightarrow> (string \<rightharpoonup> activity_holder) \<Rightarrow> consumer set" where
  "in_use_but t hs = {x. \<exists>t' h. t' \<noteq> t \<and> hs t' = Some h \<and> x \<in> ran h}"

text \<open>Every consumer is in the holder of the topic it receives from.\<close>

definition topics_ok :: "(string \<rightharpoonup> activity_holder) \<Rightarrow> jms_log \<Rightarrow> bool" where
  "topics_ok hs l \<longleftrightarrow> (\<forall>t h x. hs t = Some h \<longrightarrow> x \<in> ran h \<longrightarrow> (\<exists>s. consumes x t s l))"

definition command_inv_with :: "ptr set \<Rightarrow> command_service \<Rightarrow> bool" where
  "command_inv_with F s \<longleftrightarrow> (case cs_instance s of
     None \<Rightarrow> served_with F ({} :: consumer set) (cs_net s)
   | Some u \<Rightarrow> ready (cu_producer u) (Queue (key GMP_COMPLETION_INFO)) (cs_net s) \<and>
       served_with F (in_use (cu_holders u)) (cs_net s) \<and> topics_ok (cu_holders u) (log (cs_net s)))"

abbreviation command_inv :: "command_service \<Rightarrow> bool" where
  "command_inv \<equiv> command_inv_with {}"

lemmas command_inv_def = command_inv_with_def [where F = "{}"]

definition command_later :: "command_service \<Rightarrow> command_service \<Rightarrow> bool" where
  "command_later s t \<longleftrightarrow> log_later (log (cs_net s)) (log (cs_net t)) \<and>
     raw_at (log (cs_net t)) = raw_at (log (cs_net s)) \<and> suffix (sent (log (cs_net s))) (sent (log (cs_net t))) \<and>
     env (cs_net t) = env (cs_net s)"

lemma in_use_split: "in_use hs = (case hs t of None \<Rightarrow> {} | Some h \<Rightarrow> ran h) \<union> in_use_but t hs"
  by (rule set_eqI, cases "hs t") (simp_all add: in_use_def in_use_but_def, metis option.distinct(1), metis option.inject)

lemma in_use_upd: "in_use (hs(t \<mapsto> h)) = ran h \<union> in_use_but t hs"
  by (rule set_eqI) (simp add: in_use_def in_use_but_def, metis option.inject)

lemma consumes_topic: "consumes x t s l \<Longrightarrow> consumes x t' s' l \<Longrightarrow> t = t'"
  unfolding consumes_def by (rule hears_topic)

lemma topics_disjoint:
  assumes "topics_ok hs l" and "hs t = Some h"
  shows "ran h \<inter> in_use_but t hs = {}"
proof -
  have "t' = t" if "x \<in> ran h" "hs t' = Some h'" "x \<in> ran h'" for x t' h'
    using assms that consumes_topic unfolding topics_ok_def by blast
  with assms(2) show ?thesis by (auto simp: in_use_but_def)
qed

lemma consumes_calm: "consumes x t s l \<Longrightarrow> log_later l l' \<Longrightarrow> consumes x t s l'"
  unfolding consumes_def by (rule hears_later)

lemma topics_ok_calm: "topics_ok hs l \<Longrightarrow> log_later l l' \<Longrightarrow> topics_ok hs l'"
  unfolding topics_ok_def by (blast intro: consumes_calm)

lemma command_inv_new [inv_intros]: "command_inv (new_command_service en)"
  by (simp add: command_inv_with_def new_command_service_def served_with_def typed_listeners_def start_def world_ok_def)

lemma command_later_calm: "calm (cs_net s) (cs_net t) \<Longrightarrow> command_later s t"
  by (simp add: command_later_def calm_def)

lemma command_later_refl [simp]: "command_later s s"
  by (simp add: command_later_def)

lemma command_later_trans: "command_later a b \<Longrightarrow> command_later b c \<Longrightarrow> command_later a c"
  by (auto simp: command_later_def intro: log_later_trans suffix_order.trans)

lemma command_inv_served:
  "command_inv_with F s \<Longrightarrow> \<exists>R :: consumer set. served_with F R (cs_net s)"
  by (auto simp: command_inv_with_def split: option.splits)

lemma Instance_sat_command:
  assumes "command_inv_with F s"
  shows "sat (\<lambda>u t. cs_instance t = Some u \<and> command_inv_with F t \<and> calm (cs_net s) (cs_net t) \<and>
        (cs_instance s = Some u \<and> t = s \<or> cs_instance s = None \<and> cu_holders u = Map.empty))
     (\<lambda>e t. throws_class CommunicationException e \<and> command_inv_with F t \<and> calm (cs_net s) (cs_net t) \<and> cs_instance t = cs_instance s)
     (JmsCommandUtil_Instance s)"
proof (cases "cs_instance s")
  case (Some u)
  moreover have "world_ok (cs_net s)" using command_inv_served [OF assms] by (auto simp: served_with_def)
  ultimately show ?thesis using assms by (simp add: JmsCommandUtil_Instance_def wp calm_refl)
next
  case None
  with assms have s: "served_with F ({} :: consumer set) (cs_net s)" by (simp add: command_inv_with_def)
  then have w: "world_ok (cs_net s)" "typed_listeners (log (cs_net s))" by (simp_all add: served_with_def)
  have dest: "Queue (key GMP_COMPLETION_INFO) = Topic n \<or> Queue (key GMP_COMPLETION_INFO) = Queue (key GMP_COMPLETION_INFO)" for n
    by simp
  have "sat (\<lambda>p v. ready p (Queue (key GMP_COMPLETION_INFO)) v \<and> calm (cs_net s) v \<and> served_with F ({} :: consumer set) v)
      (\<lambda>e v. throws_class CommunicationException e \<and> calm (cs_net s) v \<and> served_with F ({} :: consumer set) v) (new_CompletionInfoProducer (cs_net s))"
    unfolding new_CompletionInfoProducer_def
    by (rule sat_mono [OF sat_conj [OF open_producer_sat [OF w(1) dest] open_producer_unheard [OF w dest]]])
      (auto simp: unheard_def intro: served_calm [OF s])
  with None show ?thesis
    by (auto simp: JmsCommandUtil_Instance_def wp on_cs_net_def new_JmsCommandUtil_def command_inv_with_def in_use_def
        topics_ok_def elim!: sat_mono)
qed

definition holder_of :: "string \<Rightarrow> jms_command_util \<Rightarrow> activity_holder" where
  "holder_of t u = (case cu_holders u t of None \<Rightarrow> Map.empty | Some h \<Rightarrow> h)"

lemma store_consumer_sat:
  assumes s: "command_inv_with F s" "cs_instance s = Some u"
    and c: "subscribed c (cs_net s) w" "consumes c topic activities (log w)"
  shows "sat (\<lambda>_ t. command_inv_with F t \<and> calm (cs_net s) (cs_net t) \<and>
      cs_instance t = Some (u\<lparr>cu_holders := (cu_holders u)(topic \<mapsto> place (held activities) c (holder_of topic u))\<rparr>) \<and>
      consumes c topic activities (log (cs_net t)))
    (\<lambda>_ _. False) (store_consumer topic activities c (s\<lparr>cs_net := w\<rparr>))"
proof -
  let ?hs = "cu_holders u" and ?h = "holder_of topic u"
  let ?h' = "place (held activities) c ?h" and ?O = "in_use_but topic (cu_holders u)"
  from s have inv: "ready (cu_producer u) (Queue (key GMP_COMPLETION_INFO)) (cs_net s)" "served_with F (in_use ?hs) (cs_net s)"
    "topics_ok ?hs (log (cs_net s))" by (simp_all add: command_inv_with_def)
  have used: "in_use ?hs = ran ?h \<union> ?O"
    by (subst in_use_split [of _ topic]) (simp add: holder_of_def split: option.splits)
  note new = served_subscribed [OF inv(2) c(1) c(2) [unfolded consumes_def]]
  have srv: "served_with F (insert c (ran ?h \<union> ?O)) w" and fresh: "c \<notin> ?O" using new used by auto
  have disj: "ran ?h \<inter> ?O = {}"
    using topics_disjoint [OF inv(3)] by (auto simp: holder_of_def split: option.splits)
  have "c \<in> ran ?h'" by (cases activities) (auto simp: place_def ran_def)
  then have ins: "insert c (ran ?h' \<union> ?O) = in_use (?hs(topic \<mapsto> ?h'))" by (auto simp: in_use_upd)
  have ran': "x = c \<or> x \<in> ran ?h" if "x \<in> ran ?h'" for x
    using that by (auto simp: place_def ran_def split: if_splits)
  have fin: "command_inv_with F t \<and> calm (cs_net s) (cs_net t) \<and> consumes c topic activities (log (cs_net t))"
    if t: "t = s\<lparr>cs_net := v, cs_instance := Some (u\<lparr>cu_holders := ?hs(topic \<mapsto> ?h')\<rparr>)\<rparr>"
      and v: "served_with F (insert c (ran ?h' \<union> ?O)) v" "calm w v" for t v
  proof -
    have cal: "calm (cs_net s) v" using c(1) v(2) by (auto simp: subscribed_def intro: calm_trans)
    then have later: "log_later (log (cs_net s)) (log v)" "world_ok v" by (simp_all add: calm_def)
    have cv: "consumes c topic activities (log v)"
      using c(2) v(2) by (auto simp: calm_def intro: consumes_calm)
    have hold: "\<exists>s'. consumes x topic s' (log v)" if "x \<in> ran ?h" for x
      using that inv(3) later(1) unfolding topics_ok_def holder_of_def
      by (cases "cu_holders u topic") (simp_all, metis consumes_calm)
    have "topics_ok (?hs(topic \<mapsto> ?h')) (log v)"
      unfolding topics_ok_def
    proof (intro allI impI)
      fix t' h x assume "(?hs(topic \<mapsto> ?h')) t' = Some h" "x \<in> ran h"
      then show "\<exists>s'. consumes x t' s' (log v)"
        using ran' [of x] cv hold topics_ok_calm [OF inv(3) later(1)]
        by (cases "t' = topic") (auto simp: topics_ok_def)
    qed
    with inv(1) v(1) ins later cal cv show ?thesis
      by (auto simp: t command_inv_with_def intro: ready_later)
  qed
  note fin' = fin [OF refl, simplified]
  show ?thesis
    unfolding registerConsumer_all store_consumer_def holder_of_def [symmetric]
    using s(2) register_all_sat [OF srv disj fresh, of "held activities"]
    by (auto simp: wp registerConsumer_all holder_of_def [symmetric] elim!: sat_mono simp: fin')
qed

text \<open>A subscription: the new consumer takes the places of its activities, or nothing changes.\<close>

definition enrolled :: "string \<Rightarrow> activity_set \<Rightarrow> sequence_command \<Rightarrow> nat \<Rightarrow> jms_command_util \<Rightarrow> command_service \<Rightarrow> bool" where
  "enrolled topic activities cmd h u t \<longleftrightarrow> (\<exists>c. c_command c = cmd \<and> c_handler c = h \<and>
     consumes c topic activities (log (cs_net t)) \<and>
     cs_instance t = Some (u\<lparr>cu_holders := (cu_holders u)(topic \<mapsto> place (held activities) c (holder_of topic u))\<rparr>))"

lemma subscribe_sat:
  assumes s: "command_inv_with F s" "cs_instance s = Some u"
  shows "sat (\<lambda>r t. r = status_OK \<and> command_inv_with F t \<and> calm (cs_net s) (cs_net t) \<and> enrolled topic activities cmd h u t)
    (\<lambda>e t. throws_class CommunicationException e \<and> command_inv_with F t \<and> calm (cs_net s) (cs_net t) \<and> cs_instance t = Some u)
    (bindp (on_cs_net (init_consumer cmd topic activities h)) (\<lambda>c.
       thenp (store_consumer topic activities c) (ret status_OK)) s)"
proof -
  from s obtain R :: "consumer set" where R: "served_with F R (cs_net s)" using command_inv_served by blast
  then have w: "world_ok (cs_net s)" "typed_listeners (log (cs_net s))" by (simp_all add: served_with_def)
  show ?thesis
    unfolding sat_bindp on_cs_net_def sat_on_part
  proof (rule sat_mono [OF init_consumer_sat [OF w]], goal_cases)
    case (1 c v)
    then have c: "subscribed c (cs_net s) v" "consumes c topic activities (log v)" "c_command c = cmd" "c_handler c = h"
      by simp_all
    show ?case
      unfolding sat_thenp
      by (rule sat_mono [OF store_consumer_sat [OF s c(1,2)]]) (use c(3,4) in \<open>auto simp: enrolled_def\<close>)
  next
    case (2 e v)
    then have v: "calm (cs_net s) v" "listening (log v) = listening (log (cs_net s))"
      by (simp_all add: unheard_def)
    have "command_inv_with F (s\<lparr>cs_net := v\<rparr>)"
      using s v served_calm [OF _ v] unfolding command_inv_with_def
      by (auto simp: calm_def intro: ready_later topics_ok_calm)
    with 2 v s(2) show ?case by simp
  qed
qed

lemma not_error [simp]: "log_subscribeSequenceCommand i a h \<noteq> status_ERROR" "log_subscribeApply p a h \<noteq> status_ERROR"
    "log_postCompletionInfo k r \<noteq> status_ERROR"
  by (simp_all add: log_subscribeSequenceCommand_def log_subscribeApply_def log_postCompletionInfo_def)

text \<open>What each public call promises.\<close>

definition before :: "command_service \<Rightarrow> jms_command_util \<Rightarrow> bool" where
  "before s u \<longleftrightarrow> cs_instance s = Some u \<or> cs_instance s = None \<and> cu_holders u = Map.empty"

lemma with_instance_sat:
  assumes s: "command_inv_with F s"
    and k: "\<And>u t. cs_instance t = Some u \<Longrightarrow> command_inv_with F t \<Longrightarrow> calm (cs_net s) (cs_net t) \<Longrightarrow> before s u \<Longrightarrow>
      sat Q (\<lambda>e v. throws_class CommunicationException e \<and> E v) (k u t)"
    and E: "\<And>t. command_inv_with F t \<Longrightarrow> calm (cs_net s) (cs_net t) \<Longrightarrow> cs_instance t = cs_instance s \<Longrightarrow> E t"
  shows "sat Q (\<lambda>e v. throws_class GiapiException e \<and> E v)
    (throw_spec (throws_class GiapiException) (bindp JmsCommandUtil_Instance k) s)"
  unfolding sat_throw_spec sat_bindp
proof (rule sat_mono [OF Instance_sat_command [OF s]], goal_cases)
  case (1 u t)
  then have "before s u" unfolding before_def by metis
  with 1 have "sat Q (\<lambda>e v. throws_class CommunicationException e \<and> E v) (k u t)" by (intro k) simp_all
  then show ?case by (rule sat_mono) (simp_all add: throws_giapi [of CommunicationException])
next
  case (2 e t)
  with E [of t] show ?case by (simp add: throws_giapi [of CommunicationException])
qed

lemma subscribeSequenceCommand_sat:
  assumes "command_inv_with F s"
  shows "sat (\<lambda>r t. r = status_OK \<and> command_inv_with F t \<and> calm (cs_net s) (cs_net t) \<and>
        (\<exists>u. before s u \<and> enrolled (getTopic ident) activities ident h u t))
     (\<lambda>e t. throws_class GiapiException e \<and> command_inv_with F t \<and> calm (cs_net s) (cs_net t) \<and>
        (cs_instance t = cs_instance s \<or> (\<exists>u. before s u \<and> cs_instance t = Some u)))
     (subscribeSequenceCommand ident activities (Some h) s)"
  unfolding subscribeSequenceCommand_def option.case
proof (rule with_instance_sat [OF assms], goal_cases)
  case (1 u t)
  show ?case
    unfolding jms_subscribeSequenceCommand_def create_consumer_def sat_throw_spec
    by (simp, rule sat_mono [OF subscribe_sat [OF 1(2,1)]])
      (use 1 in \<open>auto intro: calm_trans simp: before_def\<close>)
qed simp

lemma subscribeApply_sat:
  assumes "command_inv_with F s"
  shows "sat (\<lambda>r t. r = status_OK \<and> command_inv_with F t \<and> calm (cs_net s) (cs_net t) \<and>
        (\<exists>u. before s u \<and> enrolled (getTopic_prefix pfx) activities APPLY h u t))
     (\<lambda>e t. throws_class GiapiException e \<and> command_inv_with F t \<and> calm (cs_net s) (cs_net t) \<and>
        (cs_instance t = cs_instance s \<or> (\<exists>u. before s u \<and> cs_instance t = Some u)))
     (subscribeApply pfx activities (Some h) s)"
  unfolding subscribeApply_def option.case
proof (rule with_instance_sat [OF assms], goal_cases)
  case (1 u t)
  show ?case
    unfolding jms_subscribeApply_def create_consumer_prefix_def sat_throw_spec
    by (simp, rule sat_mono [OF subscribe_sat [OF 1(2,1)]])
      (use 1 in \<open>auto intro: calm_trans simp: before_def\<close>)
qed simp

subsection \<open>Completion information\<close>

lemma mutes_postCompletionInfo: "mutes (postCompletionInfo p ident r)"
  unfolding postCompletionInfo_def makeHandlerResponseMsg_puts by (intro mute_intros)

lemma CommandUtil_postCompletionInfo_sat:
  assumes "command_inv_with F s"
  shows "sat (\<lambda>r t. command_inv_with F t \<and> command_later s t \<and> r = (if completes h then status_OK else status_ERROR) \<and>
        sent (log (cs_net t)) = (if completes h then [to_dest (Queue (key GMP_COMPLETION_INFO)) (the (completion_message (ident, h)))] else [])
          @ sent (log (cs_net s)))
     (\<lambda>e t. throws_class GiapiException e \<and> command_inv_with F t \<and> command_later s t \<and>
        sent (log (cs_net t)) = sent (log (cs_net s)))
     (CommandUtil_postCompletionInfo ident (Some h) s)"
proof (cases "completes h")
  case False
  with assms show ?thesis by (simp add: CommandUtil_postCompletionInfo_def wp)
next
  case True
  have "sat (\<lambda>r t. command_inv_with F t \<and> command_later s t \<and> r = status_OK \<and>
        sent (log (cs_net t)) = to_dest (Queue (key GMP_COMPLETION_INFO)) (the (completion_message (ident, h))) # sent (log (cs_net s)))
     (\<lambda>e t. throws_class GiapiException e \<and> command_inv_with F t \<and> command_later s t \<and>
        sent (log (cs_net t)) = sent (log (cs_net s)))
     (throw_spec (throws_class GiapiException) (bindp JmsCommandUtil_Instance (\<lambda>u. jms_postCompletionInfo u ident h)) s)"
  proof (rule with_instance_sat [OF assms], goal_cases)
    case (1 u t)
    let ?d = "Queue (key GMP_COMPLETION_INFO)"
    have t: "ready (cu_producer u) ?d (cs_net t)" "served_with F (in_use (cu_holders u)) (cs_net t)"
      "topics_ok (cu_holders u) (log (cs_net t))"
      using 1(1,2) by (simp_all add: command_inv_with_def)
    have inv: "command_inv_with F (t\<lparr>cs_net := v\<rparr>)"
      if v: "world_ok v" "log_later (log (cs_net t)) (log v)" "unheard (log (cs_net t)) (log v)" for v
    proof -
      have "typed_listeners (log v)" using t(2) v(3) by (auto simp: served_with_def intro: typed_unheard)
      moreover have "consumer_ready x v \<and> obj_at (c_session x) (log v) = Some Session" if "x \<in> in_use (cu_holders u)" for x
        using t(2) that v by (auto simp: served_with_def log_later_obj_at alive_less consumer_ready_def intro: log_later_alive)
      ultimately have "served_with F (in_use (cu_holders u)) v"
        using t(2) v by (auto simp: served_with_def unheard_def)
      with 1(1) t v show ?thesis
        by (auto simp: command_inv_with_def intro: ready_later topics_ok_calm)
    qed
    have s: "log_later (log (cs_net s)) (log (cs_net t))" "sent (log (cs_net t)) = sent (log (cs_net s))"
      "raw_at (log (cs_net t)) = raw_at (log (cs_net s))" "env (cs_net t) = env (cs_net s)"
      using 1(3) by (simp_all add: calm_def)
    note post = sat_mutes [OF postCompletionInfo_sat [OF t(1)] mutes_postCompletionInfo, of ident h]
    show ?case
      unfolding jms_postCompletionInfo_def sat_throw_spec on_cs_net_def
      by (simp add: sat_on_part, rule sat_mono [OF post])
        (use s in \<open>auto simp: post_code_def delivered_def calm_def command_later_def to_dest_def suffix_Cons
          intro!: inv log_later_trans [OF s(1)] throws_post\<close>)
  qed (auto intro: command_later_calm simp: calm_def)
  with True show ?thesis by (simp add: CommandUtil_postCompletionInfo_def)
qed

lemma command_step_sat:
  assumes "command_inv_with F s"
  shows "sat (\<lambda>r t. command_inv_with F t \<and> command_later s t)
    (\<lambda>e t. throws_class GiapiException e \<and> command_inv_with F t \<and> command_later s t) (command_step c s)"
proof (cases c)
  case (SubscribeSequenceCommand ident activities h)
  show ?thesis
  proof (cases h)
    case None
    with assms SubscribeSequenceCommand show ?thesis by (simp add: subscribeSequenceCommand_def wp)
  next
    case (Some h')
    with SubscribeSequenceCommand show ?thesis
      by (auto intro: sat_mono [OF subscribeSequenceCommand_sat [OF assms, of ident activities h']] command_later_calm)
  qed
next
  case (SubscribeApply pfx activities h)
  show ?thesis
  proof (cases h)
    case None
    with assms SubscribeApply show ?thesis by (simp add: subscribeApply_def wp)
  next
    case (Some h')
    with SubscribeApply show ?thesis
      by (auto intro: sat_mono [OF subscribeApply_sat [OF assms, of pfx activities h']] command_later_calm)
  qed
next
  case (PostCompletionInfo ident r)
  with assms CommandUtil_postCompletionInfo_sat [OF assms, of "the r" ident] show ?thesis
    by (cases r) (auto simp: CommandUtil_postCompletionInfo_def [of _ None] wp elim!: sat_mono)
qed

text \<open>The whole of the command interface is a safe machine that throws only GIAPI exceptions.\<close>

interpretation commands: safe_machine command_step "command_inv_with F" command_later "throws_class GiapiException" for F
  by unfold_locales (auto intro: command_later_trans command_step_sat)

end
