(* ===== verification/Command_Correct.thy ===== *)
theory Command_Correct
  imports Command_Util
begin

section \<open>Correctness of the sequence commands\<close>

text \<open>
  The properties of the names of the protocol, the selectors, the callback that answers a command,
  and the registration of handlers.
\<close>

subsection \<open>Names\<close>

text \<open>
  The topics of the sequence commands and of the apply prefixes are all different: a consumer
  of one never receives the commands of another.
\<close>

theorem topics_distinct:
  "(getTopic a = getTopic b) = (a = b) \<and> (getTopic_prefix p = getTopic_prefix q) = (p = q) \<and>
   getTopic_prefix p \<noteq> getTopic a"
proof (intro conjI)
  show "(getTopic a = getTopic b) = (a = b)"
    by (cases a; cases b) (simp_all add: names_simps)
  show "getTopic_prefix p \<noteq> getTopic a"
    by (cases a) (simp_all add: names_simps)
qed (simp add: names_simps)

text \<open>
  The dictionary of activities: a lookup always delivers one of the four activities, the one
  of this name for the four names and \<open>PRESET\<close> for every other string, and keeps this true for
  the lookups to come, although it enters unknown strings.
\<close>

theorem getActivity_total:
  "\<exists>rs am. run_calls getActivity names new_activityMap = (Val rs, am) \<and>
     rs = map (\<lambda>s. Val (activity_of s)) names \<and> activity_map_ok am"
proof -
  have "\<exists>am'. run_calls getActivity names am = (Val (map (\<lambda>s. Val (activity_of s)) names), am') \<and> activity_map_ok am'"
    if "activity_map_ok am" for am
    using that
  proof (induction names arbitrary: am)
    case (Cons s names)
    from satD [OF getActivity_run [OF Cons.prems, of s]]
    obtain am1 where one: "getActivity s am = (Val (activity_of s), am1)" "activity_map_ok am1" by auto
    from Cons.IH [OF one(2)] one(1) show ?case by (auto simp: bindp_def)
  qed simp
  from this [OF activity_map_ok_new] show ?thesis by auto
qed

subsection \<open>Selectors\<close>

text \<open>
  C24. The selector of a set of activities is read by the broker as the list of exactly these
  activities, for every set but one: that of \<open>SET_START\<close> is malformed.
\<close>

theorem selector_correct:
  "selector_values (key GMP_ACTIVITY_PROP) (buildSelector s) =
     (if s = SET_START then None else Some (map activity_key (activities_of s)))"
  using buildSelector_values [of s] buildSelector_start by (cases "s = SET_START") (simp_all del: key.simps)

subsection \<open>The callback\<close>


definition sample_client :: client where
  "sample_client = \<lparr>env = quiet_env\<lparr>has_reply_to := \<lambda>h. True\<rparr>,
     log = [(Create 1 MapMessage SharedPtr, True), (Create 0 Session SharedPtr, True), (CreateFactory [] SharedPtr, True)],
     conn = None, msg = None, act_map = new_activityMap, handled = []\<rparr>"

definition sample_consumer :: consumer where
  "sample_consumer = \<lparr>c_session = 1, c_consumer = 0, c_command = DATUM, c_handler = 7\<rparr>"


text \<open>
  A handler that throws anything but a \<open>CMSException\<close> ends the process: the callback must
  not throw, and catches nothing else.
\<close>

theorem handler_exception_terminates:
  assumes "\<not> is_cms e"
  shows "fst (onMessage (\<lambda>h a cmd act cfg. HandlerThrows e) sample_consumer 2 IsMap sample_client) = Terminated"
  using assms
  by (simp add: onMessage_def sample_client_def sample_consumer_def jread_def jcall_def alive_def quiet_env_def
      bindp_def thenp_def catchp_def throw_spec_def on_part_def getActivity_def new_activityMap_def activity_cast_def
      call_handler_def)

lemma handler_exception_terminates_witness:
  "fst (onMessage (\<lambda>h a cmd act cfg. HandlerThrows OutOfRange) sample_consumer 2 IsMap sample_client) = Terminated"
  by (rule handler_exception_terminates) simp

subsection \<open>Registration\<close>

definition consumers_of :: "command_service \<Rightarrow> consumer set" where
  "consumers_of s = (case cs_instance s of None \<Rightarrow> {} | Some u \<Rightarrow> in_use (cu_holders u))"

text \<open>
  C27. From the start of the program, for every history of calls of \<open>CommandUtil\<close> and whatever
  the messaging library does: the process is never ended and no bad pointer used, only GIAPI
  exceptions are thrown, no raw object is left behind, and the consumers that listen are
  those the holders refer to: a handler that was replaced for all its activities has been
  closed, one that still has an activity has not.
\<close>

theorem command_history_safe:
  "\<exists>rs s. run_calls command_step calls (new_command_service en) = (Val rs, s) \<and> length rs = length calls \<and>
     list_all (expected (throws_class GiapiException)) rs \<and> raw_at (log (cs_net s)) = [] \<and>
     set (listening (log (cs_net s))) = c_consumer ` consumers_of s"
proof -
  from satD [OF commands.run_safe [OF command_inv_new [of en], of calls]]
  obtain rs s where r: "run_calls command_step calls (new_command_service en) = (Val rs, s)" "length rs = length calls"
    "list_all (expected (throws_class GiapiException)) rs" "command_inv s" "command_later (new_command_service en) s"
    by auto
  from r(4) have "served (consumers_of s) (cs_net s)"
    by (auto simp: command_inv_def consumers_of_def split: option.splits)
  with r show ?thesis by (auto simp: served_def command_later_def new_command_service_def start_def)
qed








text \<open>
  C31. Completion information is posted exactly for the responses \<open>COMPLETED\<close> and \<open>ERROR\<close> with a
  message, as one message to the queue of the GMP; every other response, a null one too, is
  answered with an error and nothing is sent.
\<close>

theorem completion_contract:
  assumes "command_inv s"
  shows "CommandUtil_postCompletionInfo ident None s = (Val status_ERROR, s) \<and>
    sat (\<lambda>r t. command_inv t \<and> r = (if completes h then status_OK else status_ERROR) \<and>
        sent (log (cs_net t)) = (if completes h
          then [(Some (Queue (key GMP_COMPLETION_INFO)), Some MapMessage, response_puts h @ [IntProperty (key GMP_ACTIONID_PROP) ident])]
          else []) @ sent (log (cs_net s)))
     (\<lambda>e t. throws_class GiapiException e \<and> command_inv t \<and> sent (log (cs_net t)) = sent (log (cs_net s)))
     (CommandUtil_postCompletionInfo ident (Some h) s)"
proof
  show "CommandUtil_postCompletionInfo ident None s = (Val status_ERROR, s)"
    by (simp add: CommandUtil_postCompletionInfo_def throw_spec_def)
qed (rule sat_mono [OF CommandUtil_postCompletionInfo_sat [OF assms]], simp_all add: to_dest_def del: completes.simps)

lemma completion_contract_witness:
  "sat (\<lambda>r t. r = status_ERROR) (\<lambda>e t. throws_class GiapiException e)
     (CommandUtil_postCompletionInfo 3 (Some (createError [])) (new_command_service quiet_env))"
  by (rule sat_mono [OF conjunct2 [OF completion_contract [OF command_inv_new]]]) (simp_all add: getResponse_def getMessage_def createError_def)

end
