(* ===== verification/Properties_Parser.thy ===== *)
theory Properties_Parser
  imports Giapi_Prog
begin

section \<open>The format of the properties file\<close>

text \<open>
  The class \<open>Properties\<close> of log4cxx, by which \<open>PropertiesUtil\<close> reads its file: the parser of
  \<open>apache-log4cxx-0.11.0/src/main/cpp/properties.cpp\<close>, a machine that looks at one character at a
  time, and the table it fills. A character is one of the decoded contents of the file.
\<close>

subsection \<open>The table\<close>

type_synonym property_map = "string \<rightharpoonup> string"

definition setProperty :: "string \<Rightarrow> string \<Rightarrow> property_map \<Rightarrow> property_map" where
  "setProperty k v m = m(k \<mapsto> v)"

definition Properties_get :: "string \<Rightarrow> property_map \<Rightarrow> string" where
  "Properties_get k m = (case m k of None \<Rightarrow> [] | Some v \<Rightarrow> v)"

subsection \<open>The machine\<close>

datatype lexem_type =
    BEGIN
  | KEY
  | KEY_ESCAPE
  | KEY_CONTINUE
  | KEY_CONTINUE2
  | DELIMITER
  | ELEMENT
  | ELEMENT_ESCAPE
  | ELEMENT_CONTINUE
  | ELEMENT_CONTINUE2
  | COMMENT

record property_parser =
  lexemType :: lexem_type
  pkey :: string
  pelement :: string
  table :: property_map

abbreviation "TAB \<equiv> CHR 0x09"
abbreviation "NL \<equiv> CHR 0x0A"
abbreviation "CR \<equiv> CHR 0x0D"
abbreviation "BSL \<equiv> CHR 0x5C"

text \<open>The character that an escape stands for, unless it continues the line.\<close>

definition unescape :: "char \<Rightarrow> char" where
  "unescape c = (if c = CHR ''t'' then TAB else if c = CHR ''n'' then NL else if c = CHR ''r'' then CR else c)"

text \<open>
  One turn of the loop: the character is looked at, and the next one is fetched when the second
  component is true.
\<close>

fun parse_char :: "char \<Rightarrow> property_parser \<Rightarrow> property_parser \<times> bool" where
  "parse_char c p = (case lexemType p of
     BEGIN \<Rightarrow>
       if c \<in> {CHR '' '', TAB, NL, CR} then (p, True)
       else if c = CHR ''#'' \<or> c = CHR ''!'' then (p\<lparr>lexemType := COMMENT\<rparr>, True)
       else (p\<lparr>lexemType := KEY\<rparr>, False)
   | KEY \<Rightarrow>
       if c = BSL then (p\<lparr>lexemType := KEY_ESCAPE\<rparr>, True)
       else if c \<in> {TAB, CHR '' '', CHR '':'', CHR ''=''} then (p\<lparr>lexemType := DELIMITER\<rparr>, True)
       else if c = NL \<or> c = CR then (p\<lparr>table := setProperty (pkey p) [] (table p), pkey := [], lexemType := BEGIN\<rparr>, True)
       else (p\<lparr>pkey := pkey p @ [c]\<rparr>, True)
   | KEY_ESCAPE \<Rightarrow>
       if c = NL then (p\<lparr>lexemType := KEY_CONTINUE\<rparr>, True)
       else if c = CR then (p\<lparr>lexemType := KEY_CONTINUE2\<rparr>, True)
       else (p\<lparr>pkey := pkey p @ [unescape c], lexemType := KEY\<rparr>, True)
   | KEY_CONTINUE \<Rightarrow>
       if c \<in> {CHR '' '', TAB} then (p, True) else (p\<lparr>lexemType := KEY\<rparr>, False)
   | KEY_CONTINUE2 \<Rightarrow>
       if c = NL then (p\<lparr>lexemType := KEY_CONTINUE\<rparr>, True) else (p\<lparr>lexemType := KEY_CONTINUE\<rparr>, False)
   | DELIMITER \<Rightarrow>
       if c \<in> {TAB, CHR '' '', CHR '':'', CHR ''=''} then (p, True) else (p\<lparr>lexemType := ELEMENT\<rparr>, False)
   | ELEMENT \<Rightarrow>
       if c = BSL then (p\<lparr>lexemType := ELEMENT_ESCAPE\<rparr>, True)
       else if c = NL \<or> c = CR
       then (p\<lparr>table := setProperty (pkey p) (pelement p) (table p), pkey := [], pelement := [], lexemType := BEGIN\<rparr>, True)
       else (p\<lparr>pelement := pelement p @ [c]\<rparr>, True)
   | ELEMENT_ESCAPE \<Rightarrow>
       if c = NL then (p\<lparr>lexemType := ELEMENT_CONTINUE\<rparr>, True)
       else if c = CR then (p\<lparr>lexemType := ELEMENT_CONTINUE2\<rparr>, True)
       else (p\<lparr>pelement := pelement p @ [unescape c], lexemType := ELEMENT\<rparr>, True)
   | ELEMENT_CONTINUE \<Rightarrow>
       if c \<in> {CHR '' '', TAB} then (p, True) else (p\<lparr>lexemType := ELEMENT\<rparr>, False)
   | ELEMENT_CONTINUE2 \<Rightarrow>
       if c = NL then (p\<lparr>lexemType := ELEMENT_CONTINUE\<rparr>, True) else (p\<lparr>lexemType := ELEMENT_CONTINUE\<rparr>, False)
   | COMMENT \<Rightarrow> (if c = NL \<or> c = CR then p\<lparr>lexemType := BEGIN\<rparr> else p, True))"

declare parse_char.simps [simp del]

text \<open>A turn that does not fetch a character leads to a state that will.\<close>

fun turns_left :: "lexem_type \<Rightarrow> nat" where
  "turns_left KEY_CONTINUE2 = 2"
| "turns_left ELEMENT_CONTINUE2 = 2"
| "turns_left BEGIN = 1"
| "turns_left KEY_CONTINUE = 1"
| "turns_left DELIMITER = 1"
| "turns_left ELEMENT_CONTINUE = 1"
| "turns_left _ = 0"

lemma parse_char_turns: "parse_char c p = (q, False) \<Longrightarrow> turns_left (lexemType q) < turns_left (lexemType p)"
  by (auto simp: parse_char.simps split: lexem_type.splits if_splits)

function parse_loop :: "char \<Rightarrow> string \<Rightarrow> property_parser \<Rightarrow> property_parser" where
  "parse_loop c inp p = (case parse_char c p of (q, fetch) \<Rightarrow>
     if fetch then (case inp of [] \<Rightarrow> q | d # rest \<Rightarrow> parse_loop d rest q)
     else parse_loop c inp q)"
  by pat_completeness auto

termination
  by (relation "measures [\<lambda>(c, xs, p). length xs, \<lambda>(c, xs, p). turns_left (lexemType p)]")
    (auto dest: parse_char_turns [OF sym])

declare parse_loop.simps [simp del]

definition parse :: "string \<Rightarrow> property_map \<Rightarrow> property_map" where
  "parse inp m = (case inp of [] \<Rightarrow> m
   | c # cs \<Rightarrow> (let p = parse_loop c cs \<lparr>lexemType = BEGIN, pkey = [], pelement = [], table = m\<rparr> in
       if pkey p \<noteq> [] then setProperty (pkey p) (pelement p) (table p) else table p))"

text \<open>Reading a file forgets what was in the table.\<close>

definition Properties_load :: "string \<Rightarrow> property_map \<Rightarrow> property_map" where
  "Properties_load contents m = parse contents Map.empty"

subsection \<open>The machine on a text\<close>

fun feed :: "property_parser \<Rightarrow> string \<Rightarrow> property_parser" where
  "feed p [] = p"
| "feed p (c # cs) = parse_loop c cs p"

definition starts :: "property_map \<Rightarrow> property_parser" where
  "starts m = \<lparr>lexemType = BEGIN, pkey = [], pelement = [], table = m\<rparr>"

definition finish :: "property_parser \<Rightarrow> property_map" where
  "finish p = (if pkey p \<noteq> [] then setProperty (pkey p) (pelement p) (table p) else table p)"

lemma parse_feed: "parse inp m = finish (feed (starts m) inp)"
  by (cases inp) (simp_all add: parse_def finish_def starts_def Let_def)

lemma parse_loop_append: "parse_loop c (xs @ ys) p = feed (parse_loop c xs p) ys"
proof (induction c xs p rule: parse_loop.induct)
  case (1 c inp p)
  obtain q fetch where q: "parse_char c p = (q, fetch)" by force
  show ?case
  proof (cases fetch)
    case True
    with q 1(1) show ?thesis
      by (cases inp; cases ys) (auto simp: parse_loop.simps [of c "[]"] parse_loop.simps [of c "_ # _"])
  next
    case False
    with q 1(2) show ?thesis by (simp add: parse_loop.simps [of c _ p])
  qed
qed

lemma feed_append [simp]: "feed p (xs @ ys) = feed (feed p xs) ys"
  by (cases xs) (simp_all add: parse_loop_append)

text \<open>What one character does: fetched, or looked at again in another state.\<close>

lemma feed_fetch: "parse_char c p = (q, True) \<Longrightarrow> feed p (c # cs) = feed q cs"
  by (cases cs) (simp_all add: parse_loop.simps [of c])

lemma feed_again: "parse_char c p = (q, False) \<Longrightarrow> feed p (c # cs) = feed q (c # cs)"
  by (simp add: parse_loop.simps [of c _ p])

subsection \<open>What is written is read back\<close>

text \<open>A way to write any text as a key or as a value.\<close>

definition escape :: "char \<Rightarrow> string" where
  "escape c = (if c = TAB then [BSL, CHR ''t''] else if c = NL then [BSL, CHR ''n''] else if c = CR then [BSL, CHR ''r'']
     else if c \<in> {CHR '' '', CHR '':'', CHR ''='', CHR ''#'', CHR ''!'', BSL} then [BSL, c] else [c])"

datatype file_line = BlankLine string | CommentLine string | Setting string string

definition one_line :: "string \<Rightarrow> string" where
  "one_line = filter (\<lambda>c. c \<noteq> NL \<and> c \<noteq> CR)"

fun write_line :: "file_line \<Rightarrow> string" where
  "write_line (BlankLine s) = filter (\<lambda>c. c = CHR '' '' \<or> c = TAB) s @ [NL]"
| "write_line (CommentLine s) = CHR ''#'' # one_line s @ [NL]"
| "write_line (Setting k v) = concat (map escape k) @ [CHR '' '', CHR ''='', CHR '' ''] @ concat (map escape v) @ [NL]"

fun settings :: "file_line list \<Rightarrow> (string \<times> string) list" where
  "settings (Setting k v # ls) = (k, v) # settings ls"
| "settings (_ # ls) = settings ls"
| "settings [] = []"

lemmas feed_simps = feed_fetch feed_again

lemma escape_key:
  assumes "lexemType p = KEY"
  shows "feed p (escape c) = p\<lparr>pkey := pkey p @ [c]\<rparr>"
  using assms by (auto simp: escape_def parse_char.simps unescape_def feed_simps simp del: feed.simps(2))

lemma escape_element:
  assumes "lexemType p = ELEMENT"
  shows "feed p (escape c) = p\<lparr>pelement := pelement p @ [c]\<rparr>"
  using assms by (auto simp: escape_def parse_char.simps unescape_def feed_simps simp del: feed.simps(2))

lemma key_read:
  "lexemType p = KEY \<Longrightarrow> feed p (concat (map escape k)) = p\<lparr>pkey := pkey p @ k\<rparr>"
  by (induction k arbitrary: p) (simp_all add: escape_key)

lemma element_read:
  "lexemType p = ELEMENT \<Longrightarrow> feed p (concat (map escape v)) = p\<lparr>pelement := pelement p @ v\<rparr>"
  by (induction v arbitrary: p) (simp_all add: escape_element)

text \<open>The first character of an escaped text is none that is skipped, and ends nothing.\<close>

lemma escape_head:
  assumes "escape c = d # ds"
  shows "d \<notin> {CHR '' '', TAB, NL, CR, CHR ''#'', CHR ''!'', CHR '':'', CHR ''=''}"
  using assms by (auto simp: escape_def split: if_splits)

lemma escape_cons: obtains d ds where "escape c = d # ds"
  by (cases "escape c") (auto simp: escape_def split: if_splits)

lemma begin_key: "feed (starts m) (escape c @ xs) = feed ((starts m)\<lparr>lexemType := KEY\<rparr>) (escape c @ xs)"
proof -
  obtain d ds where d: "escape c = d # ds" by (rule escape_cons)
  then have "parse_char d (starts m) = ((starts m)\<lparr>lexemType := KEY\<rparr>, False)"
    using escape_head [OF d] by (simp add: parse_char.simps starts_def)
  then show ?thesis unfolding d by (simp only: append_Cons feed_again)
qed

lemma begin_element:
  assumes "lexemType p = DELIMITER"
  shows "feed p (concat (map escape v) @ [NL]) = feed (p\<lparr>lexemType := ELEMENT\<rparr>) (concat (map escape v) @ [NL])"
proof -
  obtain d ds where d: "concat (map escape v) @ [NL] = d # ds" "d \<notin> {CHR '' '', TAB, CHR '':'', CHR ''=''}"
  proof (cases v)
    case (Cons c cs)
    obtain d ds where e: "escape c = d # ds" by (rule escape_cons)
    with Cons escape_head [OF e] show ?thesis by (intro that [of d]) auto
  qed (use that in auto)
  then have "parse_char d p = (p\<lparr>lexemType := ELEMENT\<rparr>, False)"
    using assms by (simp add: parse_char.simps)
  then show ?thesis unfolding d(1) by (simp only: feed_again)
qed

lemma setting_read:
  "feed (starts m) (concat (map escape k) @ [CHR '' '', CHR ''='', CHR '' ''] @ concat (map escape v) @ [NL]) = starts (m(k \<mapsto> v))"
proof -
  let ?p = "(starts m)\<lparr>pkey := k\<rparr>"
  have "feed (starts m) (concat (map escape k) @ [CHR '' '', CHR ''='', CHR '' '']) = ?p\<lparr>lexemType := DELIMITER\<rparr>"
  proof (cases k)
    case Nil
    then show ?thesis by (simp add: feed_simps parse_char.simps starts_def del: feed.simps(2))
  next
    case (Cons c cs)
    have "feed (starts m) (concat (map escape k)) = feed ((starts m)\<lparr>lexemType := KEY\<rparr>) (concat (map escape k))"
      unfolding Cons by (simp add: begin_key del: feed_append)
    also have "\<dots> = ?p\<lparr>lexemType := KEY\<rparr>"
      by (subst key_read) (simp_all add: starts_def)
    finally show ?thesis by (simp add: feed_simps parse_char.simps del: feed.simps(2))
  qed
  moreover have "feed (?p\<lparr>lexemType := DELIMITER\<rparr>) (concat (map escape v) @ [NL]) = starts (m(k \<mapsto> v))"
    by (subst begin_element) (simp_all add: element_read feed_simps parse_char.simps starts_def setProperty_def del: feed.simps(2))
  ultimately show ?thesis by (metis feed_append)
qed

lemma comment_read:
  "NL \<notin> set cs \<Longrightarrow> CR \<notin> set cs \<Longrightarrow> lexemType p = COMMENT \<Longrightarrow> feed p (cs @ [NL]) = p\<lparr>lexemType := BEGIN\<rparr>"
  by (induction cs) (auto simp: feed_simps parse_char.simps simp del: feed.simps(2) feed_append)

lemma blank_read: "set cs \<subseteq> {CHR '' '', TAB, NL, CR} \<Longrightarrow> feed (starts m) cs = starts m"
  by (induction cs) (auto simp: feed_simps parse_char.simps starts_def simp del: feed.simps(2) feed_append)

lemma line_read:
  "feed (starts m) (write_line l) = starts (m ++ map_of (settings [l]))"
proof (cases l)
  case (BlankLine cs)
  have "feed (starts m) (write_line l) = starts m"
    unfolding BlankLine write_line.simps by (rule blank_read) auto
  with BlankLine show ?thesis by simp
next
  case (CommentLine cs)
  have "parse_char (CHR ''#'') (starts m) = ((starts m)\<lparr>lexemType := COMMENT\<rparr>, True)"
    by (simp add: parse_char.simps starts_def)
  with CommentLine show ?thesis
    by (auto simp: feed_fetch comment_read one_line_def simp del: feed.simps(2) feed_append) (simp add: starts_def)
qed (use setting_read in simp)

lemma settings_cons: "settings (l # ls) = settings [l] @ settings ls"
  by (cases l) simp_all

lemma settings_one: "rev (settings [l]) = settings [l]"
  by (cases l) simp_all

lemma file_read:
  "feed (starts m) (concat (map write_line ls)) = starts (m ++ map_of (rev (settings ls)))"
proof (induction ls arbitrary: m)
  case (Cons l ls)
  have "map_of (rev (settings (l # ls))) = map_of (settings [l]) ++ map_of (rev (settings ls))"
    by (subst settings_cons) (simp add: settings_one)
  with Cons show ?case
    by (simp add: line_read del: write_line.simps)
qed simp

lemma parse_written: "parse (concat (map write_line ls)) m = m ++ map_of (rev (settings ls))"
  unfolding parse_feed file_read by (simp add: finish_def starts_def)

end
