(* ===== verification/Properties_File.thy ===== *)
theory Properties_File
  imports Connection_Manager Properties_Parser
begin

section \<open>The properties file\<close>

text \<open>
  \<open>util/PropertiesUtil\<close>: the singleton with the properties of the configuration file. What is in a
  file is a parameter: for its name it delivers the decoded contents, or nothing when the file
  cannot be opened or read.
\<close>

type_synonym file_system = "string \<Rightarrow> string option"

record properties_util =
  properties :: property_map

definition new_PropertiesUtil :: properties_util where
  "new_PropertiesUtil = \<lparr>properties = Map.empty\<rparr>"

definition load_properties :: "file_system \<Rightarrow> string \<Rightarrow> (properties_util, unit) prog" where
  "load_properties files fileName = (case files fileName of
     None \<Rightarrow> ret ()
   | Some content \<Rightarrow> modifies (\<lambda>s. s\<lparr>properties := Properties_load content (properties s)\<rparr>))"

text \<open>The name of the file, from the environment variable \<open>GMP_CONFIGURATION\<close>.\<close>

definition config_file :: "string option \<Rightarrow> string" where
  "config_file configName = (let fileName = (case configName of None \<Rightarrow> [] | Some n \<Rightarrow> n) in
     if isEmpty fileName then ''gmp.properties'' else fileName)"

text \<open>Every access to the singleton reads the file.\<close>

definition PropertiesUtil_Instance :: "file_system \<Rightarrow> string option \<Rightarrow> (properties_util, unit) prog" where
  "PropertiesUtil_Instance files configName = load_properties files (config_file configName)"

definition PropertiesUtil_getProperty :: "string \<Rightarrow> (properties_util, string) prog" where
  "PropertiesUtil_getProperty propName = reads (\<lambda>s. Properties_get propName (properties s))"

subsection \<open>Histories of lookups\<close>

text \<open>A lookup, as the other classes do it; the files and the variable may change in between.\<close>

record lookup =
  lk_files :: file_system
  lk_variable :: "string option"
  lk_key :: string

definition lookup_step :: "lookup \<Rightarrow> (properties_util, string) prog" where
  "lookup_step c = thenp (PropertiesUtil_Instance (lk_files c) (lk_variable c)) (PropertiesUtil_getProperty (lk_key c))"

definition contents_read :: "lookup \<Rightarrow> string option" where
  "contents_read c = lk_files c (config_file (lk_variable c))"

text \<open>The table after some lookups, the latest first: that of the last file that could be read.\<close>

fun table_of :: "lookup list \<Rightarrow> property_map" where
  "table_of [] = Map.empty"
| "table_of (c # past) = (case contents_read c of None \<Rightarrow> table_of past | Some t \<Rightarrow> Properties_load t Map.empty)"

definition property_value :: "lookup list \<Rightarrow> string \<Rightarrow> string" where
  "property_value past k = Properties_get k (table_of past)"

lemma lookup_run:
  "properties s = table_of past \<Longrightarrow> \<exists>t. lookup_step c s = (Val (property_value (c # past) (lk_key c)), t) \<and>
    properties t = table_of (c # past)"
  by (auto simp: lookup_step_def PropertiesUtil_Instance_def load_properties_def PropertiesUtil_getProperty_def contents_read_def
    property_value_def Properties_load_def thenp_def bindp_def split: option.split)

fun answers_to :: "lookup list \<Rightarrow> lookup list \<Rightarrow> string list" where
  "answers_to past [] = []"
| "answers_to past (c # cs) = property_value (c # past) (lk_key c) # answers_to (c # past) cs"

lemma lookups_run:
  "properties s = table_of past \<Longrightarrow> \<exists>t. run_calls lookup_step cs s = (Val (map Val (answers_to past cs)), t)"
proof (induction cs arbitrary: s past)
  case Nil
  then show ?case by simp
next
  case (Cons c cs)
  from lookup_run [OF Cons.prems, of c] obtain t where
    t: "lookup_step c s = (Val (property_value (c # past) (lk_key c)), t)" "properties t = table_of (c # past)" by blast
  from Cons.IH [OF t(2)] t(1) show ?case by (auto simp: bindp_def)
qed

lemma nth_answers_to:
  "i < length cs \<Longrightarrow> answers_to past cs ! i = property_value (rev (take (Suc i) cs) @ past) (lk_key (cs ! i))"
  by (induction past cs arbitrary: i rule: answers_to.induct) (auto simp: nth_Cons split: nat.split)

lemma length_answers_to [simp]: "length (answers_to past cs) = length cs"
  by (induction past cs rule: answers_to.induct) auto

text \<open>
  While the file stays as it is, all lookups of a property deliver the same: what the other
  theories use is the function \<open>file_property\<close> of the environment.
\<close>

lemma property_value_stable:
  "contents_read c = Some t \<Longrightarrow> property_value (c # past) k = Properties_get k (Properties_load t Map.empty)"
  by (simp add: property_value_def)

text \<open>Without a file that can be read the host of the broker is this computer.\<close>

lemma hostname_default:
  assumes "\<And>k. file_property en k = property_value [c] k" and "contents_read c = None"
  shows "gmp_hostname en = ''localhost''"
  using assms by (simp add: gmp_hostname_def property_value_def Properties_get_def isEmpty_iff)

text \<open>The broker is the one the last setting of the file names.\<close>

lemma hostname_set:
  assumes "\<And>k. file_property en k = property_value [c] k"
    and "contents_read c = Some (concat (map write_line ls))" and "map_of (rev (settings ls)) ''gmp.hostname'' = Some h"
  shows "gmp_hostname en = (if isEmpty h then ''localhost'' else h)"
  using assms
  by (simp add: gmp_hostname_def property_value_def Properties_get_def Properties_load_def parse_written Let_def)

end
