(* ===== verification/Util_Correct.thy ===== *)
theory Util_Correct
  imports Properties_File
begin

section \<open>Correctness of the utilities\<close>

text \<open>The properties of the timer and of the file with the settings.\<close>





text \<open>
  Stopping a timer that does not run, or reading one that has not been stopped, ends the
  process: what is thrown is a pointer, which the exception specification does not allow, so
  no caller can catch the error that the interface documents.
\<close>

theorem timer_misuse_terminates:
  "fst (stopTimer now new_timer) = Terminated \<and>
   fst (getElapsedTime u (snd (startTimer now' t))) = Terminated \<and>
   fst (catchp (stopTimer now) (\<lambda>_. True) h new_timer) = Terminated"
  by (cases now') (simp_all add: stopTimer_def startTimer_def getElapsedTime_def new_timer_def
      bindp_def thenp_def throw_spec_def catchp_def)

text \<open>
  C26. Every history of lookups in the properties file, whatever happens to the file and to the
  variable with its name meanwhile: a lookup always returns, with the value in the last file that
  could be read so far, and with the empty string when this file does not have the property or none
  could be read.
\<close>

theorem property_lookups:
  "\<exists>t. run_calls lookup_step cs new_PropertiesUtil =
     (Val (map (\<lambda>i. Val (property_value (rev (take (Suc i) cs)) (lk_key (cs ! i)))) [0..<length cs]), t)"
proof -
  have "properties new_PropertiesUtil = table_of []"
    by (simp add: new_PropertiesUtil_def)
  moreover have "map Val (answers_to [] cs) = map (\<lambda>i. Val (property_value (rev (take (Suc i) cs)) (lk_key (cs ! i)))) [0..<length cs]"
    by (rule nth_equalityI) (simp_all add: nth_answers_to)
  ultimately show ?thesis using lookups_run [of new_PropertiesUtil "[]" cs] by simp
qed

lemma property_lookups_run:
  "fst (run_calls lookup_step
     [\<lparr>lk_files = (\<lambda>f. if f = ''gmp.properties'' then Some ''gmp.hostname = gmp1'' else None),
       lk_variable = Some '' '', lk_key = ''gmp.hostname''\<rparr>,
      \<lparr>lk_files = (\<lambda>f. None), lk_variable = Some ''other'', lk_key = ''gmp.hostname''\<rparr>,
      \<lparr>lk_files = (\<lambda>f. Some ''#nothing''), lk_variable = None, lk_key = ''gmp.hostname''\<rparr>] new_PropertiesUtil) =
   Val [Val ''gmp1'', Val ''gmp1'', Val []]"
  by code_simp

text \<open>
  C9. Every list of settings can be written into a properties file, with comments and blank lines
  in between, and the parser reads exactly these settings back, the later ones before the earlier:
  any text is possible as a name and as a value.
\<close>

theorem written_settings_read_back:
  "Properties_load (concat (map write_line ls)) m = map_of (rev (settings ls))"
  by (simp add: Properties_load_def parse_written)

text \<open>
  Where the parser differs from its documentation: of several signs after a name only one is
  documented to be ignored, and a character given by its number is not recognized.
\<close>

lemma parser_deviates:
  "Properties_get ''k'' (Properties_load ''k==v'' Map.empty) = ''v''"
  "Properties_get ''k'' (Properties_load (''k='' @ [BSL] @ ''u0041'') Map.empty) = ''u0041''"
  by code_simp+

end
