(* ===== verification/Epics_Item.thy ===== *)
theory Epics_Item
  imports Giapi_Prog
begin

section \<open>EPICS status items\<close>

text \<open>
  \<open>EpicsStatusItemImpl\<close>: a block of raw bytes with a type and a number of elements, and the
  functions that read one element of it. The block is what \<open>malloc\<close> and \<open>memcpy\<close> make of the
  caller's buffer; a read beyond it is undefined behaviour.
\<close>

subsection \<open>Values in memory\<close>

text \<open>The bytes of a value, the least significant first, and the value of such bytes.\<close>

fun bytes_of :: "nat \<Rightarrow> 'a::len word \<Rightarrow> u8 list" where
  "bytes_of 0 w = []"
| "bytes_of (Suc k) w = ucast w # bytes_of k (drop_bit 8 w)"

fun word_of :: "u8 list \<Rightarrow> 'a::len word" where
  "word_of [] = 0"
| "word_of (b # bs) = ucast b OR push_bit 8 (word_of bs)"

lemma length_bytes_of [simp]: "length (bytes_of k w) = k"
  by (induction k arbitrary: w) simp_all

lemma bit_word_of_bytes_of:
  fixes w :: "'a::len word"
  shows "n < LENGTH('a) \<Longrightarrow> bit (word_of (bytes_of k w) :: 'a word) n \<longleftrightarrow> n < 8 * k \<and> bit w n"
proof (induction k arbitrary: w n)
  case 0
  then show ?case by simp
next
  case (Suc k)
  show ?case
  proof (cases "n < 8")
    case True
    with Suc.prems show ?thesis by (simp add: bit_simps)
  next
    case False
    then have n: "n - 8 < LENGTH('a)" "8 + (n - 8) = n" using Suc.prems by simp_all
    have "bit (word_of (bytes_of (Suc k) w) :: 'a word) n \<longleftrightarrow> bit (word_of (bytes_of k (drop_bit 8 w)) :: 'a word) (n - 8)"
      using False Suc.prems by (auto simp: bit_simps)
    also have "\<dots> \<longleftrightarrow> n - 8 < 8 * k \<and> bit w n"
      using Suc.IH [OF n(1), of "drop_bit 8 w"] n(2) by (auto simp: bit_simps)
    finally show ?thesis using False by auto
  qed
qed

lemma word_of_bytes_of:
  assumes "LENGTH('a::len) = 8 * k"
  shows "word_of (bytes_of k w) = (w :: 'a word)"
  by (rule bit_word_eqI) (use assms in \<open>simp add: bit_word_of_bytes_of\<close>)

text \<open>The element of an array of fixed-size values.\<close>

lemma array_element:
  assumes "i < length xs" and "\<And>x. x \<in> set xs \<Longrightarrow> length (f x) = k"
  shows "take k (drop (i * k) (concat (map f xs))) = f (xs ! i)"
  using assms
proof (induction xs arbitrary: i)
  case Nil
  then show ?case by simp
next
  case (Cons x xs)
  then show ?case by (cases i) (simp_all add: add.commute)
qed

lemma array_length:
  "(\<And>x. x \<in> set xs \<Longrightarrow> length (f x) = k) \<Longrightarrow> length (concat (map f xs)) = length xs * k"
  by (induction xs) simp_all

text \<open>C strings one after the other, each with its NUL.\<close>

definition chars_of :: "string \<Rightarrow> u8 list" where
  "chars_of s = map of_char s"

definition string_of :: "u8 list \<Rightarrow> string" where
  "string_of bs = map (\<lambda>b. char_of (unat b)) bs"

definition c_block :: "string list \<Rightarrow> u8 list" where
  "c_block ss = concat (map (\<lambda>s. chars_of (c_string s) @ [0]) ss)"

lemma unat_of_char [simp]: "unat (of_char c :: u8) = of_char c"
proof -
  have "unat (of_char c :: u8) = unat (of_nat (of_char c) :: u8)" by (simp only: of_nat_of_char)
  also have "\<dots> = of_char c" by (simp add: unat_of_nat)
  finally show ?thesis .
qed

lemma of_char_zero: "(of_char c :: u8) = 0 \<longleftrightarrow> c = CHR 0x00"
proof
  assume "(of_char c :: u8) = 0"
  then have "(of_char c :: nat) = 0" by (metis unat_0 unat_of_char)
  then have "c = char_of (0 :: nat)" by (metis char_of_char)
  then show "c = CHR 0x00" by (simp add: char_of_def)
qed simp

lemma chars_of_no_nul: "0 \<notin> set (chars_of (c_string s))"
  using c_string_no_nul [of s] by (force simp: chars_of_def of_char_zero dest: sym)

lemma string_of_chars_of [simp]: "string_of (chars_of s) = s"
  by (simp add: chars_of_def string_of_def comp_def)

lemma c_block_simps [simp]:
  "c_block [] = []"
  "c_block (s # ss) = chars_of (c_string s) @ 0 # c_block ss"
  by (simp_all add: c_block_def)

lemma c_block_append: "c_block (ss @ ts) = c_block ss @ c_block ts"
  by (simp add: c_block_def)

subsection \<open>The item\<close>

record epics_item =
  ei_name :: string
  ei_type :: item_type
  ei_count :: i32
  ei_data :: "u8 list"
  ei_size :: i32

text \<open>
  \<open>create\<close>: memory for \<open>size\<close> bytes, copied from the buffer. A negative size asks for more
  memory than there is and copies to a null pointer; a size beyond the buffer reads past it.
\<close>

definition EpicsStatusItemImpl_create ::
  "string \<Rightarrow> item_type \<Rightarrow> i32 \<Rightarrow> u8 list \<Rightarrow> i32 \<Rightarrow> ('s, epics_item) prog" where
  "EpicsStatusItemImpl_create name ty count data sz =
     (if 0 \<le> sint sz \<and> nat (sint sz) \<le> length data
      then ret \<lparr>ei_name = name, ei_type = ty, ei_count = count, ei_data = take (nat (sint sz)) data, ei_size = sz\<rparr>
      else undef)"

definition ei_getName :: "epics_item \<Rightarrow> string" where
  "ei_getName it = ei_name it"

definition ei_getType :: "epics_item \<Rightarrow> item_type" where
  "ei_getType it = ei_type it"

definition ei_getCount :: "epics_item \<Rightarrow> i32" where
  "ei_getCount it = ei_count it"

definition ei_getData :: "epics_item \<Rightarrow> u8 list" where
  "ei_getData it = ei_data it"

subsection \<open>Access to one element\<close>

definition validateIndex :: "i32 \<Rightarrow> (epics_item, unit) prog" where
  "validateIndex index = throw_spec (throws_class InvalidOperation) (bindp (reads ei_count) (\<lambda>n.
     if sint index \<ge> sint n \<or> sint index < 0
     then throw (gexn InvalidOperation ''Index out of range to get element from EPICS status item'')
     else ret ()))"

text \<open>\<open>((T *) _data)[index]\<close> for a type of \<open>k\<close> bytes.\<close>

definition load :: "nat \<Rightarrow> i32 \<Rightarrow> (epics_item, u8 list) prog" where
  "load k index = bindp (reads ei_data) (\<lambda>d. let p = nat (sint index) * k in
     if p + k \<le> length d then ret (take k (drop p d)) else undef)"

definition getDataAsInt :: "i32 \<Rightarrow> (epics_item, i32) prog" where
  "getDataAsInt index = throw_spec (throws_class InvalidOperation) (bindp (reads ei_type) (\<lambda>ty.
     if ty \<noteq> T_INT then throw (gexn InvalidOperation ''EPICS status item does not contain integer data'') else
     thenp (validateIndex index) (bindp (load 4 index) (\<lambda>bs. ret (word_of bs)))))"

definition getDataAsFloat :: "i32 \<Rightarrow> (epics_item, f32) prog" where
  "getDataAsFloat index = throw_spec (throws_class InvalidOperation) (bindp (reads ei_type) (\<lambda>ty.
     if ty \<noteq> T_FLOAT then throw (gexn InvalidOperation ''EPICS status item does not contain float data'') else
     thenp (validateIndex index) (bindp (load 4 index) (\<lambda>bs. ret (word_of bs)))))"

definition getDataAsDouble :: "i32 \<Rightarrow> (epics_item, f64) prog" where
  "getDataAsDouble index = throw_spec (throws_class InvalidOperation) (bindp (reads ei_type) (\<lambda>ty.
     if ty \<noteq> T_DOUBLE then throw (gexn InvalidOperation ''EPICS status item does not contain double data'') else
     thenp (validateIndex index) (bindp (load 8 index) (\<lambda>bs. ret (word_of bs)))))"

definition getDataAsByte :: "i32 \<Rightarrow> (epics_item, u8) prog" where
  "getDataAsByte index = throw_spec (throws_class InvalidOperation) (bindp (reads ei_type) (\<lambda>ty.
     if ty \<noteq> T_BYTE then throw (gexn InvalidOperation ''EPICS status item does not contain byte data'') else
     thenp (validateIndex index) (bindp (load 1 index) (\<lambda>bs. ret (word_of bs)))))"

text \<open>\<open>strlen\<close> from a position, and the loop that skips the strings before the one asked for.\<close>

definition strlen_at :: "nat \<Rightarrow> (epics_item, nat) prog" where
  "strlen_at p = bindp (reads ei_data) (\<lambda>d.
     if 0 \<in> set (drop p d) then ret (length (takeWhile (\<lambda>b. b \<noteq> 0) (drop p d))) else undef)"

fun skip_strings :: "nat \<Rightarrow> nat \<Rightarrow> (epics_item, nat) prog" where
  "skip_strings 0 curpos = ret curpos"
| "skip_strings (Suc n) curpos = bindp (strlen_at curpos) (\<lambda>l. skip_strings n (curpos + l + 1))"

definition getDataAsString :: "i32 \<Rightarrow> (epics_item, string) prog" where
  "getDataAsString index = throw_spec (throws_class InvalidOperation) (bindp (reads ei_type) (\<lambda>ty.
     if ty \<noteq> T_STRING then throw (gexn InvalidOperation ''EPICS status item does not contain string data'') else
     thenp (validateIndex index)
    (bindp (skip_strings (nat (sint index)) 0) (\<lambda>p.
     bindp (strlen_at p) (\<lambda>l. bindp (reads ei_data) (\<lambda>d. ret (string_of (take l (drop p d)))))))))"

subsection \<open>What the getters deliver\<close>

lemma validateIndex_run:
  "validateIndex index it =
     (if 0 \<le> sint index \<and> sint index < sint (ei_count it) then (Val (), it)
      else (Exn (gexn InvalidOperation ''Index out of range to get element from EPICS status item''), it))"
  by (auto simp: validateIndex_def throw_spec_def)

text \<open>
  An item over an array: its block holds the bytes of the elements, and the count is theirs.
\<close>

definition holds_array :: "item_type \<Rightarrow> nat \<Rightarrow> ('b \<Rightarrow> u8 list) \<Rightarrow> 'b list \<Rightarrow> epics_item \<Rightarrow> bool" where
  "holds_array ty k f xs it \<longleftrightarrow> ei_type it = ty \<and> sint (ei_count it) = int (length xs) \<and>
     ei_data it = concat (map f xs) \<and> (\<forall>x \<in> set xs. length (f x) = k)"

lemma load_array:
  assumes "holds_array ty k f xs it" and "0 \<le> sint index" and "sint index < sint (ei_count it)"
  shows "load k index it = (Val (f (xs ! nat (sint index))), it)"
proof -
  let ?i = "nat (sint index)"
  from assms have i: "?i < length xs" and k: "\<And>x. x \<in> set xs \<Longrightarrow> length (f x) = k"
    and d: "ei_data it = concat (map f xs)" by (auto simp: holds_array_def)
  have "?i * k + k \<le> length (ei_data it)"
    using mult_le_mono1 [of "Suc ?i" "length xs" k] i by (simp add: d array_length [OF k])
  then show ?thesis
    by (simp add: load_def Let_def bindp_def) (simp add: d array_element [OF i k])
qed

text \<open>What a getter of elements of some type promises on such an item.\<close>

definition element :: "'b list \<Rightarrow> i32 \<Rightarrow> epics_item \<Rightarrow> 'b res \<times> epics_item" where
  "element xs index it = (if 0 \<le> sint index \<and> sint index < int (length xs) then (Val (xs ! nat (sint index)), it)
     else (Exn (gexn InvalidOperation ''Index out of range to get element from EPICS status item''), it))"

lemma getter_array:
  assumes it: "holds_array ty k f xs it" and g: "\<And>x. x \<in> set xs \<Longrightarrow> g (f x) = x"
  shows "throw_spec (throws_class InvalidOperation) (bindp (reads ei_type) (\<lambda>ty'.
     if ty' \<noteq> ty then throw e else thenp (validateIndex index) (bindp (load k index) (\<lambda>bs. ret (g bs))))) it
   = element xs index it"
proof (cases "0 \<le> sint index \<and> sint index < int (length xs)")
  case True
  with it have i: "0 \<le> sint index" "sint index < sint (ei_count it)" by (simp_all add: holds_array_def)
  have "xs ! nat (sint index) \<in> set xs" using True by (simp add: nat_less_iff)
  from g [OF this] show ?thesis
    using it i load_array [OF it i] True
    by (simp add: throw_spec_def thenp_def bindp_def validateIndex_run element_def holds_array_def)
next
  case False
  with it show ?thesis
    by (auto simp: throw_spec_def thenp_def bindp_def validateIndex_run element_def holds_array_def)
qed

lemma getDataAsInt_array: "holds_array T_INT 4 (bytes_of 4) xs it \<Longrightarrow> getDataAsInt i it = element xs i it"
  unfolding getDataAsInt_def by (erule getter_array, rule word_of_bytes_of, simp)

lemma getDataAsFloat_array: "holds_array T_FLOAT 4 (bytes_of 4) xs it \<Longrightarrow> getDataAsFloat i it = element xs i it"
  unfolding getDataAsFloat_def by (erule getter_array, rule word_of_bytes_of, simp)

lemma getDataAsDouble_array: "holds_array T_DOUBLE 8 (bytes_of 8) xs it \<Longrightarrow> getDataAsDouble i it = element xs i it"
  unfolding getDataAsDouble_def by (erule getter_array, rule word_of_bytes_of, simp)

lemma getDataAsByte_array: "holds_array T_BYTE 1 (bytes_of 1) xs it \<Longrightarrow> getDataAsByte i it = element xs i it"
  unfolding getDataAsByte_def by (erule getter_array, rule word_of_bytes_of, simp)

text \<open>Strings: the loop arrives at the string asked for.\<close>

lemma takeWhile_block [simp]:
  "takeWhile (\<lambda>b. b \<noteq> 0) (chars_of (c_string s) @ 0 # r) = chars_of (c_string s)"
  using chars_of_no_nul [of s] by (subst takeWhile_append2) auto

lemma strlen_at_block:
  assumes "ei_data it = c_block ss @ chars_of (c_string s) @ 0 # r"
  shows "strlen_at (length (c_block ss)) it = (Val (length (chars_of (c_string s))), it)"
  using assms by (simp add: strlen_at_def bindp_def)

lemma skip_strings_block:
  assumes "ei_data it = c_block (ss @ ts)" and "n \<le> length ts"
  shows "skip_strings n (length (c_block ss)) it = (Val (length (c_block (ss @ take n ts))), it)"
  using assms
proof (induction n arbitrary: ss ts)
  case 0
  then show ?case by simp
next
  case (Suc n)
  then obtain s ts' where ts: "ts = s # ts'" by (cases ts) auto
  with Suc.prems(1) have "strlen_at (length (c_block ss)) it = (Val (length (chars_of (c_string s))), it)"
    by (intro strlen_at_block) (simp add: c_block_append)
  moreover have "skip_strings n (length (c_block (ss @ [s]))) it = (Val (length (c_block ((ss @ [s]) @ take n ts'))), it)"
    using Suc.prems ts by (intro Suc.IH) simp_all
  ultimately show ?case
    by (simp add: ts bindp_def c_block_append)
qed

definition holds_strings :: "string list \<Rightarrow> epics_item \<Rightarrow> bool" where
  "holds_strings ss it \<longleftrightarrow> ei_type it = T_STRING \<and> sint (ei_count it) = int (length ss) \<and> ei_data it = c_block ss"

lemma getDataAsString_block:
  assumes it: "holds_strings ss it"
  shows "getDataAsString index it = element (map c_string ss) index it"
proof (cases "0 \<le> sint index \<and> sint index < int (length ss)")
  case False
  with it show ?thesis
    by (auto simp: getDataAsString_def throw_spec_def thenp_def bindp_def validateIndex_run element_def holds_strings_def)
next
  case True
  let ?i = "nat (sint index)"
  from True have i: "?i < length ss" by (simp add: nat_less_iff)
  have d: "ei_data it = c_block (take ?i ss) @ chars_of (c_string (ss ! ?i)) @ 0 # c_block (drop (Suc ?i) ss)"
    using it i by (metis c_block_append c_block_simps(2) holds_strings_def id_take_nth_drop append_Cons append_assoc)
  have "skip_strings ?i (length (c_block [])) it = (Val (length (c_block ([] @ take ?i ss))), it)"
    by (rule skip_strings_block) (use it i in \<open>simp_all add: holds_strings_def\<close>)
  then show ?thesis
    using it True strlen_at_block [OF d]
    by (simp add: getDataAsString_def throw_spec_def thenp_def bindp_def validateIndex_run element_def holds_strings_def)
      (simp add: d it [unfolded holds_strings_def, THEN conjunct2, THEN conjunct2, symmetric] i)
qed

text \<open>Every other type is refused.\<close>

lemma getters_refuse:
  "ei_type it \<noteq> T_INT \<Longrightarrow> \<exists>m. getDataAsInt i it = (Exn (gexn InvalidOperation m), it)"
  "ei_type it \<noteq> T_FLOAT \<Longrightarrow> \<exists>m. getDataAsFloat i it = (Exn (gexn InvalidOperation m), it)"
  "ei_type it \<noteq> T_DOUBLE \<Longrightarrow> \<exists>m. getDataAsDouble i it = (Exn (gexn InvalidOperation m), it)"
  "ei_type it \<noteq> T_BYTE \<Longrightarrow> \<exists>m. getDataAsByte i it = (Exn (gexn InvalidOperation m), it)"
  "ei_type it \<noteq> T_STRING \<Longrightarrow> \<exists>m. getDataAsString i it = (Exn (gexn InvalidOperation m), it)"
  by (auto simp: getDataAsInt_def getDataAsFloat_def getDataAsDouble_def getDataAsByte_def getDataAsString_def
      throw_spec_def)

end
