(* ===== verification/Epics_Builder.thy ===== *)
theory Epics_Builder
  imports Epics_Item Listeners
begin

section \<open>Building EPICS items from messages\<close>

text \<open>
  \<open>JmsEpicsFactory\<close> and the six builders. Each builder reads the name and the number of elements
  when it is constructed and the elements when it is asked for the item.
\<close>

subsection \<open>The base class\<close>

record epics_builder =
  eb_message :: ptr
  eb_name :: string
  eb_nElements :: i32

definition new_JmsEpicsBuilder :: "ptr \<Rightarrow> ('a jms_scheme, epics_builder) prog" where
  "new_JmsEpicsBuilder bm =
     bindp (jread in_text (ReadUTF bm)) (\<lambda>name.
     bindp (jread in_int (ReadInt bm)) (\<lambda>n.
     ret \<lparr>eb_message = bm, eb_name = name, eb_nElements = n\<rparr>))"

subsection \<open>Builders of numbers\<close>

text \<open>
  The loop of the builders for \<open>short\<close>, \<open>int\<close>, \<open>float\<close> and \<open>double\<close>: element \<open>i\<close> is copied to
  position \<open>i * sizeof(T)\<close> of the local buffer. A copy beyond the buffer is undefined behaviour.
\<close>

definition copy_to :: "nat \<Rightarrow> u8 list \<Rightarrow> u8 list \<Rightarrow> ('s, u8 list) prog" where
  "copy_to p bs buf = (if p + length bs \<le> length buf
     then ret (take p buf @ bs @ drop (p + length bs) buf) else undef)"

fun copy_values :: "('s, u8 list) prog \<Rightarrow> nat \<Rightarrow> nat list \<Rightarrow> u8 list \<Rightarrow> ('s, u8 list) prog" where
  "copy_values rd k [] buf = ret buf"
| "copy_values rd k (i # is) buf = bindp rd (\<lambda>bs. bindp (copy_to (i * k) bs buf) (copy_values rd k is))"

text \<open>
  Their bodies differ in the type, its size and the function that reads an element. The local
  buffer is \<open>new char[_nElements]\<close>, so its length is the number of elements, not of bytes; its
  contents are not initialised, and no byte is used that was not written.
\<close>

definition build_numbers ::
  "item_type \<Rightarrow> nat \<Rightarrow> (ptr \<Rightarrow> ('a jms_scheme, u8 list) prog) \<Rightarrow> epics_builder \<Rightarrow> ('a jms_scheme, epics_item) prog" where
  "build_numbers ty k rd b = (let n = eb_nElements b in
     if sint n < 0 then throw BadAlloc else
     bindp (copy_values (rd (eb_message b)) k [0..<nat (sint n)] (replicate (nat (sint n)) 0)) (\<lambda>buf.
     EpicsStatusItemImpl_create (eb_name b) ty n buf (n * of_nat k)))"

definition Short_getEpicsStatusItem :: "epics_builder \<Rightarrow> ('a jms_scheme, epics_item) prog" where
  "Short_getEpicsStatusItem = build_numbers T_SHORT 2
     (\<lambda>m. bindp (jread in_int (ReadShort m)) (\<lambda>v. ret (bytes_of 2 (ucast v :: u16))))"

definition Int_getEpicsStatusItem :: "epics_builder \<Rightarrow> ('a jms_scheme, epics_item) prog" where
  "Int_getEpicsStatusItem = build_numbers T_INT 4
     (\<lambda>m. bindp (jread in_int (ReadInt m)) (\<lambda>v. ret (bytes_of 4 v)))"

definition Float_getEpicsStatusItem :: "epics_builder \<Rightarrow> ('a jms_scheme, epics_item) prog" where
  "Float_getEpicsStatusItem = build_numbers T_FLOAT 4
     (\<lambda>m. bindp (jread in_int (ReadFloat m)) (\<lambda>v. ret (bytes_of 4 v)))"

definition Double_getEpicsStatusItem :: "epics_builder \<Rightarrow> ('a jms_scheme, epics_item) prog" where
  "Double_getEpicsStatusItem = build_numbers T_DOUBLE 8
     (\<lambda>m. bindp (jread in_double (ReadBytesDouble m)) (\<lambda>v. ret (bytes_of 8 v)))"

subsection \<open>Bytes and strings\<close>

definition Byte_getEpicsStatusItem :: "epics_builder \<Rightarrow> ('a jms_scheme, epics_item) prog" where
  "Byte_getEpicsStatusItem b = (let n = eb_nElements b in
     if sint n < 0 then throw BadAlloc else
     bindp (jread in_block (ReadBlock (eb_message b) (sint n))) (\<lambda>block.
     EpicsStatusItemImpl_create (eb_name b) T_BYTE n (map block [0..<nat (sint n)]) n))"

text \<open>Every string is appended to the data with its NUL, as far as its first NUL.\<close>

fun append_strings :: "ptr \<Rightarrow> nat \<Rightarrow> u8 list \<Rightarrow> ('a jms_scheme, u8 list) prog" where
  "append_strings m 0 data = ret data"
| "append_strings m (Suc n) data = bindp (jread in_text (ReadUTF m)) (\<lambda>val.
     append_strings m n (data @ chars_of (c_string val) @ [0]))"

definition String_getEpicsStatusItem :: "epics_builder \<Rightarrow> ('a jms_scheme, epics_item) prog" where
  "String_getEpicsStatusItem b =
     bindp (append_strings (eb_message b) (nat (sint (eb_nElements b))) []) (\<lambda>data.
     EpicsStatusItemImpl_create (eb_name b) T_STRING (eb_nElements b) data (of_nat (length data)))"

subsection \<open>The factory\<close>

datatype builder_kind = ShortBuilder | IntBuilder | DoubleBuilder | FloatBuilder | StringBuilder | ByteBuilder

definition kind_of :: "u8 \<Rightarrow> builder_kind option" where
  "kind_of t = (if t = 1 then Some ShortBuilder else if t = 5 then Some IntBuilder
     else if t = 6 then Some DoubleBuilder else if t = 2 then Some FloatBuilder
     else if t = 0 then Some StringBuilder else if t = 4 then Some ByteBuilder else None)"

fun getEpicsStatusItem :: "builder_kind \<Rightarrow> epics_builder \<Rightarrow> ('a jms_scheme, epics_item) prog" where
  "getEpicsStatusItem ShortBuilder b = Short_getEpicsStatusItem b"
| "getEpicsStatusItem IntBuilder b = Int_getEpicsStatusItem b"
| "getEpicsStatusItem DoubleBuilder b = Double_getEpicsStatusItem b"
| "getEpicsStatusItem FloatBuilder b = Float_getEpicsStatusItem b"
| "getEpicsStatusItem StringBuilder b = String_getEpicsStatusItem b"
| "getEpicsStatusItem ByteBuilder b = Byte_getEpicsStatusItem b"

text \<open>
  The message is cloned to be read. What the handler of the factory catches becomes a null
  pointer; it does not guard the construction of the item.
\<close>

definition choose_builder :: "ptr \<Rightarrow> ('a jms_scheme, (builder_kind \<times> epics_builder) option) prog" where
  "choose_builder c = catchp
     (thenp (jcall (ResetMsg c))
     (bindp (jread in_int (ReadByte c)) (\<lambda>t.
      case kind_of (ucast t) of
        None \<Rightarrow> ret None
      | Some k \<Rightarrow> bindp (new_JmsEpicsBuilder c) (\<lambda>b. ret (Some (k, b))))))
     is_cms (\<lambda>e. ret None)"

definition buildEpicsStatusItem :: "ptr \<Rightarrow> ('a jms_scheme, epics_item option) prog" where
  "buildEpicsStatusItem m =
     bindp (jnew m BytesMessage RawPtr) (\<lambda>c.
     bindp (choose_builder c) (\<lambda>builder.
     bindp (case builder of None \<Rightarrow> ret None
        | Some (k, b) \<Rightarrow> bindp (getEpicsStatusItem k b) (\<lambda>i. ret (Some i))) (\<lambda>item.
     thenp (jdelete c) (ret item))))"

subsection \<open>Numbers overflow\<close>

text \<open>
  A buffer of as many bytes as there are elements is too short for any element of more than one
  byte: no program that reads them gets past the loop.
\<close>

definition never_val :: "('s, 'a) prog \<Rightarrow> bool" where
  "never_val m \<longleftrightarrow> (\<forall>s x. fst (m s) \<noteq> Val x)"

lemma never_val_bindp: "never_val m \<Longrightarrow> never_val (bindp m f)"
  unfolding never_val_def
proof (intro allI)
  fix s x assume *: "\<forall>s x. fst (m s) \<noteq> Val x"
  show "fst (bindp m f s) \<noteq> Val x"
    using * by (cases "m s" rule: res_cases) (auto simp: bindp_def dest: spec [of _ s])
qed

lemma never_val_bindp_later: "(\<And>x. never_val (f x)) \<Longrightarrow> never_val (bindp m f)"
  unfolding never_val_def
proof (intro allI)
  fix s x assume *: "\<And>x. \<forall>s y. fst (f x s) \<noteq> Val y"
  show "fst (bindp m f s) \<noteq> Val x"
    using * by (cases "m s" rule: res_cases) (auto simp: bindp_def)
qed

text \<open>The values read have \<open>k\<close> bytes.\<close>

definition reads_size :: "nat \<Rightarrow> ('s, u8 list) prog \<Rightarrow> bool" where
  "reads_size k rd \<longleftrightarrow> (\<forall>s bs s'. rd s = (Val bs, s') \<longrightarrow> length bs = k)"

lemma copy_values_overflow:
  assumes "reads_size k rd" and "i \<in> set is" and "length buf < i * k + k"
  shows "never_val (copy_values rd k is buf)"
  using assms(2,3)
proof (induction "is" arbitrary: buf)
  case Nil
  then show ?case by simp
next
  case (Cons j js)
  have "fst (copy_values rd k (j # js) buf s) \<noteq> Val y" for s y
  proof (cases "rd s" rule: res_cases)
    case (1 bs s')
    then have l: "length bs = k" using assms(1) unfolding reads_size_def by blast
    show ?thesis
    proof (cases "j * k + k \<le> length buf")
      case False
      with 1 l show ?thesis by (simp add: bindp_def copy_to_def)
    next
      case True
      let ?buf = "take (j * k) buf @ bs @ drop (j * k + k) buf"
      have "j \<noteq> i" using True Cons.prems(2) by auto
      then have "never_val (copy_values rd k js ?buf)"
        using Cons.prems True l by (intro Cons.IH) auto
      with 1 l True show ?thesis by (simp add: bindp_def copy_to_def never_val_def)
    qed
  qed (simp_all add: bindp_def)
  then show ?case by (simp add: never_val_def)
qed

lemma build_numbers_overflow:
  assumes "reads_size k (rd (eb_message b))" and "1 < k" and "0 < sint (eb_nElements b)"
  shows "never_val (build_numbers ty k rd b)"
proof -
  let ?n = "nat (sint (eb_nElements b))"
  have "never_val (copy_values (rd (eb_message b)) k [0..<?n] (replicate ?n 0))"
  proof (rule copy_values_overflow [OF assms(1), where i = "?n - 1"])
    have "?n < Suc (?n - 1) * k" using assms(2,3) by simp
    then show "length (replicate ?n 0) < (?n - 1) * k + k" by simp
  qed (use assms(3) in auto)
  with assms(3) show ?thesis
    by (simp add: build_numbers_def Let_def never_val_bindp)
qed

lemma reads_size_bytes: "reads_size k (bindp m (\<lambda>v. ret (bytes_of k (f v :: 'a::len word))))"
  unfolding reads_size_def
proof (intro allI impI)
  fix s bs s' assume "bindp m (\<lambda>v. ret (bytes_of k (f v))) s = (Val bs, s')"
  then show "length bs = k" by (cases "m s" rule: res_cases) (auto simp: bindp_def)
qed

fun numeric :: "builder_kind \<Rightarrow> bool" where
  "numeric StringBuilder = False"
| "numeric ByteBuilder = False"
| "numeric _ = True"

lemma numeric_never_val:
  assumes "numeric k" and "0 < sint (eb_nElements b)"
  shows "never_val (getEpicsStatusItem k b)"
  using assms
  by (cases k) (auto simp: Short_getEpicsStatusItem_def Int_getEpicsStatusItem_def Float_getEpicsStatusItem_def
      Double_getEpicsStatusItem_def intro!: build_numbers_overflow reads_size_bytes reads_size_bytes [where f = "\<lambda>v. v"])

text \<open>What holds of the value a program returns, if it returns one.\<close>

definition returns :: "('a \<Rightarrow> 's \<Rightarrow> bool) \<Rightarrow> 'a res \<times> 's \<Rightarrow> bool" where
  "returns Q r \<longleftrightarrow> (\<forall>x s. r = (Val x, s) \<longrightarrow> Q x s)"

lemma returns_simps [simp]: "returns Q (Val x, s) \<longleftrightarrow> Q x s" "returns Q (Exn e, s)" "returns Q (Terminated, s)" "returns Q (Undef, s)"
  by (simp_all add: returns_def)

lemma returns_bindp: "returns Q (bindp m f s) \<longleftrightarrow> returns (\<lambda>x s'. returns Q (f x s')) (m s)"
  by (cases "m s" rule: res_cases) (simp_all add: bindp_def)

lemma returns_thenp: "returns Q (thenp m k s) \<longleftrightarrow> returns (\<lambda>_ s'. returns Q (k s')) (m s)"
  by (simp add: thenp_def returns_bindp)

lemma returns_catchp:
  "returns Q (m s) \<Longrightarrow> (\<And>e s'. returns Q (h e s')) \<Longrightarrow> returns Q (catchp m C h s)"
  by (cases "m s" rule: res_cases) (simp_all add: catchp_def)

lemma returns_mono: "returns Q r \<Longrightarrow> (\<And>x s. Q x s \<Longrightarrow> Q' x s) \<Longrightarrow> returns Q' r"
  by (auto simp: returns_def)

lemma returns_jcall: "Q () (w\<lparr>log := (c, True) # log w\<rparr>) \<Longrightarrow> returns Q (jcall c w)"
  by (simp add: jcall_def split: option.split)

lemma returns_jread:
  "Q (f (env w) (c # map fst (log w))) (w\<lparr>log := (c, True) # log w\<rparr>) \<Longrightarrow> returns Q (jread f c w)"
  by (simp add: jread_def returns_thenp returns_jcall)

lemma returns_never: "never_val m \<Longrightarrow> returns Q (m s)"
  by (cases "m s" rule: res_cases) (auto simp: never_val_def dest: spec [of _ s])

text \<open>
  An environment whose messages announce a type and a number of elements: the first byte, and
  the number that follows the name.
\<close>

definition announces :: "environment \<Rightarrow> i32 \<Rightarrow> i32 \<Rightarrow> bool" where
  "announces en t n \<longleftrightarrow> (\<forall>p h. in_int en (ReadByte p # h) = t) \<and>
     (\<forall>p h. in_int en (ReadInt p # ReadUTF p # h) = n)"

lemma choose_builder_announced:
  assumes "announces (env w) t n"
  shows "returns (\<lambda>x w'. \<forall>k b. x = Some (k, b) \<longrightarrow> kind_of (ucast t) = Some k \<and> eb_nElements b = n) (choose_builder c w)"
  using assms unfolding choose_builder_def
  by (intro returns_catchp)
    (auto simp: returns_thenp returns_bindp new_JmsEpicsBuilder_def announces_def split: option.split
      intro!: returns_jcall returns_jread)

lemma buildEpicsStatusItem_overflow:
  assumes "announces (env w) t n" and "kind_of (ucast t) = Some k" and "numeric k" and "0 < sint n"
  shows "returns (\<lambda>x w'. x = None) (buildEpicsStatusItem m w)"
  unfolding buildEpicsStatusItem_def jnew_def returns_bindp
  apply (simp add: returns_thenp)
  apply (rule returns_jcall)
  apply (rule returns_mono [OF choose_builder_announced [where t = t and n = n]])
   apply (use assms(1) in simp)
  using assms(2-4)
  by (auto simp: returns_bindp jdelete_def split: option.split intro!: returns_never [OF numeric_never_val])

subsection \<open>Strings arrive\<close>

lemma sint_count: "n < 2 ^ 31 \<Longrightarrow> sint (of_nat n :: i32) = int n"
  by (simp add: signed_of_nat signed_take_bit_int_eq_self)

text \<open>
  An environment whose messages carry a name and strings, and in which nothing fails. The
  strings are delivered one per read of the message.
\<close>

definition utf_reads :: "ptr \<Rightarrow> jms_call list \<Rightarrow> nat" where
  "utf_reads p h = length (filter (\<lambda>c. c = ReadUTF p) h)"

definition carries_strings :: "environment \<Rightarrow> string \<Rightarrow> string list \<Rightarrow> bool" where
  "carries_strings en name vals \<longleftrightarrow> announces en 0 (of_nat (length vals)) \<and> (\<forall>h. fails en h = None) \<and>
     (\<forall>p h. utf_reads p h \<le> length vals \<longrightarrow> in_text en (ReadUTF p # h) = (name # vals) ! utf_reads p h)"

lemma utf_reads_simps [simp]:
  "utf_reads p [] = 0"
  "utf_reads p (c # h) = (if c = ReadUTF p then Suc (utf_reads p h) else utf_reads p h)"
  by (simp_all add: utf_reads_def)

lemma utf_reads_late: "log_wf l \<Longrightarrow> length l \<le> p \<Longrightarrow> utf_reads p (map fst l) = 0"
  by (induction l rule: log_wf.induct) auto

lemma jcall_unfailing:
  "fails (env w) (c # map fst (log w)) = None \<Longrightarrow> list_all (alive (log w)) (pointers c) \<Longrightarrow>
   jcall c w = (Val (), w\<lparr>log := (c, True) # log w\<rparr>)"
  by (simp add: jcall_def)

lemma jread_unfailing:
  "fails (env w) (c # map fst (log w)) = None \<Longrightarrow> list_all (alive (log w)) (pointers c) \<Longrightarrow>
   jread f c w = (Val (f (env w) (c # map fst (log w))), w\<lparr>log := (c, True) # log w\<rparr>)"
  by (simp add: jread_def thenp_def bindp_def jcall_unfailing)

definition utf_log :: "ptr \<Rightarrow> nat \<Rightarrow> jms_log" where
  "utf_log m n = replicate n (ReadUTF m, True)"

lemma append_strings_run:
  assumes "carries_strings (env w) name vals" and "alive (log w) m"
    and "utf_reads m (map fst (log w)) = Suc j" and "j + n \<le> length vals"
  shows "append_strings m n data w = (Val (data @ c_block (take n (drop j vals))), w\<lparr>log := utf_log m n @ log w\<rparr>)"
  using assms
proof (induction n arbitrary: j data w)
  case 0
  then show ?case by (simp add: utf_log_def)
next
  case (Suc n)
  let ?w = "w\<lparr>log := (ReadUTF m, True) # log w\<rparr>"
  have f: "fails (env w) h = None" for h using Suc.prems(1) by (simp add: carries_strings_def)
  have v: "in_text (env w) (ReadUTF m # map fst (log w)) = vals ! j"
    using Suc.prems by (auto simp: carries_strings_def)
  have j: "j < length vals" using Suc.prems(4) by simp
  have "append_strings m n (data @ chars_of (c_string (vals ! j)) @ [0]) ?w =
    (Val ((data @ chars_of (c_string (vals ! j)) @ [0]) @ c_block (take n (drop (Suc j) vals))),
     ?w\<lparr>log := utf_log m n @ log ?w\<rparr>)"
    using Suc.prems by (intro Suc.IH) (auto simp: alive_def)
  moreover have "take (Suc n) (drop j vals) = vals ! j # take n (drop (Suc j) vals)"
    using j by (metis Cons_nth_drop_Suc take_Suc_Cons)
  moreover have "utf_log m n @ (ReadUTF m, True) # log w = utf_log m (Suc n) @ log w"
    by (simp add: utf_log_def replicate_app_Cons_same)
  ultimately show ?case
    using Suc.prems(2) by (simp add: bindp_def jread_unfailing f v)
qed

lemma utf_log_facts [simp]:
  "length (utf_log m n @ l) = n + length l"
  "deleted p (utf_log m n @ l) = deleted p l"
  "raw_at (utf_log m n @ l) = raw_at l"
  "sent (utf_log m n @ l) = sent l"
  by (induction n) (simp_all add: utf_log_def)

lemma log_wf_utf [simp]: "m < length l \<Longrightarrow> log_wf (utf_log m n @ l) = log_wf l"
  by (induction n) (simp_all add: utf_log_def)

lemma log_later_utf [simp]: "log_later l l' \<Longrightarrow> log_later l (utf_log m n @ l')"
  by (induction n) (simp_all add: utf_log_def)

lemma buildEpicsStatusItem_strings:
  assumes w: "world_ok w" "alive (log w) m" and c: "carries_strings (env w) name vals"
    and bounds: "length vals < 2 ^ 31" "length (c_block vals) < 2 ^ 31"
  shows "sat (\<lambda>x w'. (\<exists>it. x = Some it \<and> ei_name it = name \<and> holds_strings vals it) \<and>
      quiet w w') (\<lambda>_ _. False) (buildEpicsStatusItem m w)"
proof -
  let ?c = "length (log w)" and ?n = "of_nat (length vals) :: i32"
  let ?w1 = "w\<lparr>log := (Create m BytesMessage RawPtr, True) # log w\<rparr>"
  let ?w2 = "w\<lparr>log := (ReadInt ?c, True) # (ReadUTF ?c, True) # (ReadByte ?c, True) # (ResetMsg ?c, True) # log ?w1\<rparr>"
  let ?b = "\<lparr>eb_message = ?c, eb_name = name, eb_nElements = ?n\<rparr>"
  have f: "fails (env w) h = None" for h using c by (simp add: carries_strings_def)
  have wf: "log_wf (log w)" using w by (simp add: world_ok_def)
  have al: "\<not> deleted ?c (log w)" using wf by (rule alive_fresh)
  have u: "utf_reads ?c (map fst (log w)) = 0" by (rule utf_reads_late [OF wf]) simp
  have n: "sint ?n = int (length vals)"
    using bounds(1) by (rule sint_count)
  have new: "jnew m BytesMessage RawPtr w = (Val ?c, ?w1)"
    using w f by (simp add: jnew_def thenp_def bindp_def jcall_unfailing)
  have name: "in_text (env w) (ReadUTF ?c # ReadByte ?c # ResetMsg ?c # map fst (log ?w1)) = name"
    using c u by (auto simp: carries_strings_def)
  have "choose_builder ?c ?w1 = (Val (Some (StringBuilder, ?b)), ?w2)"
    using c f al name
    by (simp add: choose_builder_def new_JmsEpicsBuilder_def catchp_def thenp_def bindp_def jcall_unfailing
        jread_unfailing carries_strings_def announces_def kind_of_def)
  moreover have "append_strings ?c (length vals) [] ?w2 = (Val (c_block vals), ?w2\<lparr>log := utf_log ?c (length vals) @ log ?w2\<rparr>)"
    using append_strings_run [of ?w2 name vals ?c 0 "length vals" "[]"] c al u by (simp add: alive_def)
  moreover have "sint (of_nat (length (c_block vals)) :: i32) = int (length (c_block vals))"
    using bounds(2) by (rule sint_count)
  ultimately show ?thesis
    using al w wf alive_less [OF w(2)] by (simp add: buildEpicsStatusItem_def wp new String_getEpicsStatusItem_def n
        EpicsStatusItemImpl_create_def holds_strings_def quiet_def calm_def alive_def)
qed

end
