(* ===== verification/Epics_Manager.thy ===== *)
theory Epics_Manager
  imports Epics_Builder Jms_Request
begin

section \<open>Subscriptions to EPICS channels\<close>

text \<open>
  \<open>JmsEpicsConfiguration\<close>, \<open>EpicsConsumer\<close>, \<open>JmsEpicsManager\<close> and \<open>JmsEpicsFetcher\<close>: the channels
  one may subscribe to are asked for once; each channel has at most one consumer, and a consumer
  that leaves the map of the manager is destroyed.
\<close>

subsection \<open>The authorized channels\<close>

text \<open>
  The names of the reply. The reply is cast without a check, so that anything but a
  \<open>MapMessage\<close> is undefined behaviour.
\<close>

definition requestChannels :: "ptr \<Rightarrow> int \<Rightarrow> ('a jms_scheme, string list) prog" where
  "requestChannels session timeout =
     throw_spec (\<lambda>e. throws_class CommunicationException e \<or> throws_class TimeoutException e) (
     thenp (set_msg None)
    (catchp
       (bindp (jnew session (Queue (key GMP_GEMINI_EPICS_REQUEST_DESTINATION)) SharedPtr) (\<lambda>d.
        bindp (jnew session (Producer (Some d)) SharedPtr) (\<lambda>p.
        bindp (jnew session PlainMessage RawPtr) (\<lambda>m.
        thenp (set_msg (Some m))
       (thenp (jput m (BoolProperty (key GMP_GEMINI_EPICS_CHANNEL_PROPERTY) True))
       (bindp (jnew session TempQueue RawPtr) (\<lambda>q.
        bindp (jnew session (Consumer q None) SharedPtr) (\<lambda>c.
        thenp (jcall (SetReplyTo m q))
       (thenp (jcall (Send p None m))
       (thenp (jcall (CloseObj p))
       (bindp (jreceive_timeout c timeout) (\<lambda>reply.
        thenp (jcall (CloseObj c))
       (thenp (jcall (DestroyQueue q))
       (thenp (jdelete q)
       (thenp (jdelete m)
       (case reply of
          Some (r, cls) \<Rightarrow> if cls = IsMap then jread in_names (GetMapNames r) else undef
        | None \<Rightarrow> throw (gexn TimeoutException ''Time out trying to get valid Epics Channel names '')))))))))))))))))
       is_cms (\<lambda>e. thenp delete_msg (throw (gexn PostException
         (''Problem getting valid epics channel : '' @ exn_text e))))))"

text \<open>\<open>JmsEpicsConfiguration::init\<close> with its timeout of a second.\<close>

definition init_configuration :: "ptr \<Rightarrow> ('a jms_scheme, string list) prog" where
  "init_configuration session =
     throw_spec (\<lambda>e. throws_class CommunicationException e \<or> throws_class TimeoutException e)
       (requestChannels session 1000)"

subsection \<open>Consumers of channels\<close>

record epics_consumer = listener +
  ec_channel :: string
  ec_handler :: nat

definition new_EpicsConsumer :: "string \<Rightarrow> nat \<Rightarrow> (jms, epics_consumer) prog" where
  "new_EpicsConsumer channelName handler =
     bindp (open_listener (getEpicsChannelTopic channelName) None ''Trouble initializing EPICS consumer: '')
       (\<lambda>l. ret \<lparr>c_session = c_session l, c_consumer = c_consumer l, ec_channel = channelName, ec_handler = handler\<rparr>)"

definition destroy_EpicsConsumer :: "epics_consumer \<Rightarrow> ('a jms_scheme, unit) prog" where
  "destroy_EpicsConsumer c = destroy_listener c"

text \<open>
  The callback. What the handler of the application does is a parameter: it returns, or throws.
  The state of the client records the items handlers were given, null pointers included.
\<close>

record epics_client = jms +
  channel_changes :: "(nat \<times> epics_item option) list"

definition channelChanged :: "(nat \<Rightarrow> epics_item option \<Rightarrow> exn option) \<Rightarrow> nat \<Rightarrow> epics_item option \<Rightarrow> (epics_client, unit) prog" where
  "channelChanged code h item =
     thenp (modifies (\<lambda>s. s\<lparr>channel_changes := channel_changes s @ [(h, item)]\<rparr>))
       (case code h item of None \<Rightarrow> ret () | Some e \<Rightarrow> throw e)"

definition epics_onMessage ::
  "(nat \<Rightarrow> epics_item option \<Rightarrow> exn option) \<Rightarrow> epics_consumer \<Rightarrow> ptr \<Rightarrow> msg_class \<Rightarrow> (epics_client, unit) prog" where
  "epics_onMessage code c m cls = throw_spec (\<lambda>e. False) (
     if cls = IsBytes
     then bindp (buildEpicsStatusItem m) (\<lambda>item. channelChanged code (ec_handler c) item)
     else ret ())"

subsection \<open>The manager\<close>

record epics_manager =
  em_session :: ptr
  em_channels :: "string set"
  em_consumers :: "string \<rightharpoonup> epics_consumer"

type_synonym epics_service = "epics_manager \<times> jms"

definition on_epics_net :: "(jms, 'a) prog \<Rightarrow> (epics_service, 'a) prog" where
  "on_epics_net m = on_part snd (\<lambda>w s. (fst s, w)) m"

text \<open>
  The constructor: a timeout of the request for the channels is tolerated, they are asked for
  again by the next subscription.
\<close>

definition new_JmsEpicsManager :: "(jms, epics_manager) prog" where
  "new_JmsEpicsManager = throw_spec (throws_class CommunicationException) (with_members (
     catchp
       (bindp (catchp
          (thenp Instance
          (bindp createSession (\<lambda>s.
           thenp (modifies (\<lambda>w. w\<lparr>m_session := Some s\<rparr>))
          (init_configuration s))))
          (throws_class TimeoutException) (\<lambda>e. ret [])) (\<lambda>names.
        bindp (reads m_session) (\<lambda>s. case s of
          None \<Rightarrow> undef
        | Some s \<Rightarrow> ret \<lparr>em_session = s, em_channels = set names, em_consumers = Map.empty\<rparr>)))
       is_cms (\<lambda>e. thenp (close_quietly m_session) (throw (gexn CommunicationException
         (''Trouble initializing request producer :'' @ exn_text e))))))"

definition isInitialized :: "epics_manager \<Rightarrow> bool" where
  "isInitialized m \<longleftrightarrow> em_channels m \<noteq> {}"

definition hasChannel :: "string \<Rightarrow> epics_manager \<Rightarrow> bool" where
  "hasChannel name m \<longleftrightarrow> name \<in> em_channels m"

text \<open>
  What the map does with an entry that is replaced or erased: the only smart pointer to the old
  consumer goes away.
\<close>

definition drop_consumer :: "epics_consumer option \<Rightarrow> (epics_service, unit) prog" where
  "drop_consumer c = (case c of None \<Rightarrow> ret () | Some x \<Rightarrow> on_epics_net (destroy_EpicsConsumer x))"

definition put_consumer :: "string \<Rightarrow> epics_consumer option \<Rightarrow> (epics_service, unit) prog" where
  "put_consumer name c =
     bindp (reads (\<lambda>s. em_consumers (fst s) name)) (\<lambda>old.
     thenp (modifies (\<lambda>s. ((fst s)\<lparr>em_consumers := (em_consumers (fst s))(name := c)\<rparr>, snd s)))
       (drop_consumer old))"

definition subscribeEpicsStatus :: "string \<Rightarrow> nat \<Rightarrow> (epics_service, int) prog" where
  "subscribeEpicsStatus name handler = throw_spec (throws_class GiapiException) (
     bindp (reads (\<lambda>s. isInitialized (fst s))) (\<lambda>initialized.
     thenp (if initialized then ret () else
       bindp (reads (\<lambda>s. em_session (fst s))) (\<lambda>session.
       bindp (on_epics_net (init_configuration session)) (\<lambda>names.
       modifies (\<lambda>s. ((fst s)\<lparr>em_channels := em_channels (fst s) \<union> set names\<rparr>, snd s)))))
    (bindp (reads (\<lambda>s. hasChannel name (fst s))) (\<lambda>found.
     if found then
       bindp (on_epics_net (new_EpicsConsumer name handler)) (\<lambda>c.
       thenp (put_consumer name (Some c)) (ret status_OK))
     else ret status_ERROR))))"

definition unsubscribeEpicsStatus :: "string \<Rightarrow> (epics_service, int) prog" where
  "unsubscribeEpicsStatus name = throw_spec (throws_class GiapiException) (
     bindp (reads (\<lambda>s. hasChannel name (fst s))) (\<lambda>found.
     if found then thenp (put_consumer name None) (ret status_OK) else ret status_ERROR))"

datatype epics_call = Subscribe string nat | Unsubscribe string

fun epics_step :: "epics_call \<Rightarrow> (epics_service, int) prog" where
  "epics_step (Subscribe name h) = subscribeEpicsStatus name h"
| "epics_step (Unsubscribe name) = unsubscribeEpicsStatus name"

subsection \<open>The latest value of a channel\<close>

definition new_JmsEpicsFetcher :: "(jms, producer) prog" where
  "new_JmsEpicsFetcher = new_JmsProducer (key GMP_GEMINI_EPICS_GET_DESTINATION)"

definition getChannel :: "producer \<Rightarrow> string \<Rightarrow> int \<Rightarrow> (jms, epics_item option) prog" where
  "getChannel p name timeout = throw_spec (throws_class GiapiException) (
     thenp (set_msg None)
    (catchp
       (bindp (exchange p PlainMessage
          (\<lambda>m. jput m (StringProperty (key GMP_GEMINI_EPICS_CHANNEL_PROPERTY) name)) (\<lambda>m. ret ()) timeout) (\<lambda>reply.
        case reply of
          Some (r, cls) \<Rightarrow> if cls \<noteq> IsBytes then throw (gexn GiapiException ''Incorrect reply from the GMP'')
            else buildEpicsStatusItem r
        | None \<Rightarrow> throw (gexn TimeoutException ''Time out while waiting for Epics Get'')))
       is_cms (\<lambda>e. thenp delete_msg (throw (gexn CommunicationException
         (''Problem fetching the TCS Context '' @ exn_text e))))))"

subsection \<open>What the request for the channels does\<close>

text \<open>
  The answers the code relies on: the reply to a request for the names is a map, if there is one,
  and the names in it can be read.
\<close>

definition names_ok :: "environment \<Rightarrow> bool" where
  "names_ok en \<longleftrightarrow> (\<forall>h. request_puts h = [BoolProperty (key GMP_GEMINI_EPICS_CHANNEL_PROPERTY) True] \<longrightarrow>
       arrives en h = None \<or> arrives en h = Some IsMap) \<and>
     (\<forall>p h. fails en (GetMapNames p # h) = None)"

text \<open>
  The request leaves the world in order and the listeners alone. It is sent at most once, and at
  most the temporary queue stays behind.
\<close>

definition asked :: "'a jms_scheme \<Rightarrow> 'b jms_scheme \<Rightarrow> bool" where
  "asked w w' \<longleftrightarrow> world_ok w' \<and> log_later (log w) (log w') \<and> env w' = env w \<and> unheard (log w) (log w') \<and>
     (\<exists>xs. length xs \<le> 1 \<and> raw_at (log w') = xs @ raw_at (log w)) \<and>
     (sent (log w') = sent (log w) \<or>
      sent (log w') = (Some (Queue (key GMP_GEMINI_EPICS_REQUEST_DESTINATION)), Some PlainMessage,
        [BoolProperty (key GMP_GEMINI_EPICS_CHANNEL_PROPERTY) True]) # sent (log w))"

lemma sat_jreceive_timeout:
  assumes "alive (log w) c"
    and "\<And>t x. E (CMSExn t) (w\<lparr>log := (Receive c x, False) # log w\<rparr>)"
    and "\<And>reply x. (\<forall>r cls. reply = Some (r, cls) \<longrightarrow> r = length (log w) \<and>
        arrives (env w) (Receive c x # map fst (log w)) = Some cls) \<Longrightarrow>
      Q reply (w\<lparr>log := (Receive c x, True) # log w\<rparr>)"
  shows "sat Q E (jreceive_timeout c timeout w)"
  using assms unfolding jreceive_timeout_def jreceive_def
  by (auto simp: wp intro!: sat_jcall assms(3))

text \<open>Between a failure and the handler: the request may still be there.\<close>

definition torn :: "'a jms_scheme \<Rightarrow> 'a jms_scheme \<Rightarrow> bool" where
  "torn w v \<longleftrightarrow> msg v = None \<and> asked w v \<or>
     (\<exists>m xs. msg v = Some m \<and> world_ok v \<and> log_later (log w) (log v) \<and> env v = env w \<and> unheard (log w) (log v) \<and>
        raw_at (log v) = xs @ m # raw_at (log w) \<and> length xs \<le> 1 \<and> m \<notin> set xs \<and> length (log w) \<le> m \<and>
        alive (log v) m \<and> (\<forall>c. conn v = Some c \<longrightarrow> c \<noteq> m) \<and>
        (sent (log v) = sent (log w) \<or>
         sent (log v) = (Some (Queue (key GMP_GEMINI_EPICS_REQUEST_DESTINATION)), Some PlainMessage,
           [BoolProperty (key GMP_GEMINI_EPICS_CHANNEL_PROPERTY) True]) # sent (log w)))"

lemma torn_delete:
  assumes "torn w v"
  shows "sat (\<lambda>_ v'. asked w v') (\<lambda>_ _. False) (delete_msg v)"
proof -
  from assms consider "msg v = None" "asked w v" | m xs where "msg v = Some m" "world_ok v" "log_later (log w) (log v)"
      "env v = env w" "unheard (log w) (log v)" "raw_at (log v) = xs @ m # raw_at (log w)" "length xs \<le> 1" "m \<notin> set xs"
      "length (log w) \<le> m" "alive (log v) m" "\<forall>c. conn v = Some c \<longrightarrow> c \<noteq> m"
      "sent (log v) = sent (log w) \<or>
         sent (log v) = (Some (Queue (key GMP_GEMINI_EPICS_REQUEST_DESTINATION)), Some PlainMessage,
           [BoolProperty (key GMP_GEMINI_EPICS_CHANNEL_PROPERTY) True]) # sent (log w)"
    by (auto simp: torn_def)
  then show ?thesis
  proof cases
    case 1
    then show ?thesis by (simp add: wp)
  next
    case 2
    then have "filter (\<lambda>q. q \<noteq> m) xs = xs" by (auto simp: filter_id_conv)
    moreover have "unheard (log w) ((Delete m, True) # log v)" using 2(5) by (simp add: unheard_call)
    ultimately show ?thesis
      using 2 by (auto simp: wp asked_def world_ok_def alive_def intro!: exI [of _ xs])
  qed
qed

lemma tornI:
  assumes "log_wf l" "\<And>c. conn w = Some c \<Longrightarrow> alive (log w) c" "log_later (log w) l" "unheard (log w) l"
    "raw_at l = xs @ m # raw_at (log w)" "length xs \<le> 1" "m \<notin> set xs" "alive l m" "length (log w) \<le> m"
    "sent l = sent (log w) \<or>
         sent l = (Some (Queue (key GMP_GEMINI_EPICS_REQUEST_DESTINATION)), Some PlainMessage,
           [BoolProperty (key GMP_GEMINI_EPICS_CHANNEL_PROPERTY) True]) # sent (log w)"
  shows "torn w (w\<lparr>msg := Some m, log := l\<rparr>)"
  using assms by (fastforce simp: torn_def world_ok_def intro: log_later_alive dest: alive_less)

lemma failed_call [simp]:
  "raw_at ((c, False) # l) = raw_at l" "sent ((c, False) # l) = sent l"
  by (cases c; simp)+

lemma askedI:
  assumes "log_wf l" "log_later (log w) l" "unheard (log w) l" "raw_at l = raw_at (log w)"
    "sent l = sent (log w) \<or>
      sent l = (Some (Queue (key GMP_GEMINI_EPICS_REQUEST_DESTINATION)), Some PlainMessage,
        [BoolProperty (key GMP_GEMINI_EPICS_CHANNEL_PROPERTY) True]) # sent (log w)"
    "\<And>c. conn w = Some c \<Longrightarrow> alive (log w) c"
  shows "asked w (w\<lparr>msg := m, log := l\<rparr>)"
  using assms by (auto simp: asked_def world_ok_def simp del: key.simps intro: log_later_alive)

lemma asked_call:
  assumes "asked w v" and "c = GetMapNames r" and "r < length (log v)"
  shows "asked w (v\<lparr>log := (c, True) # log v\<rparr>)"
  using assms by (auto simp: asked_def world_ok_def unheard_call alive_def simp del: key.simps)

lemma requestChannels_sat:
  assumes w: "world_ok w" "typed_listeners (log w)" "names_ok (env w)"
    and s: "alive (log w) s"
  shows "sat (\<lambda>_ w'. asked w w') (\<lambda>e w'. (throws_class CommunicationException e \<or> throws_class TimeoutException e) \<and> \<not> is_cms e \<and> asked w w')
    (requestChannels s timeout w)"
proof -
  let ?l = "log w" and ?d = "length (log w)"
  let ?p = "Suc ?d" and ?m = "Suc (Suc ?d)" and ?q = "Suc (Suc (Suc (Suc ?d)))" and ?c = "Suc (Suc (Suc (Suc (Suc ?d))))"
  let ?flag = "BoolProperty (key GMP_GEMINI_EPICS_CHANNEL_PROPERTY) True"
  let ?dest = "Queue (key GMP_GEMINI_EPICS_REQUEST_DESTINATION)"
  let ?l1 = "(Create s ?dest SharedPtr, True) # ?l"
  let ?l2 = "(Create s (Producer (Some ?d)) SharedPtr, True) # ?l1"
  let ?l3 = "(Create s PlainMessage RawPtr, True) # ?l2"
  let ?l4 = "(Put ?m ?flag, True) # ?l3"
  let ?l5 = "(Create s TempQueue RawPtr, True) # ?l4"
  let ?l6 = "(Create s (Consumer ?q None) SharedPtr, True) # ?l5"
  let ?l7 = "(SetReplyTo ?m ?q, True) # ?l6"
  let ?l8 = "(Send ?p None ?m, True) # ?l7"
  let ?l9 = "(CloseObj ?p, True) # ?l8"
  let ?w = "w\<lparr>msg := None\<rparr>"
  have ok: "log_wf ?l" "\<And>c. conn w = Some c \<Longrightarrow> alive ?l c" using w by (simp_all add: world_ok_def)
  have sl: "s < ?d" "\<not> deleted s ?l" using s by (simp_all add: alive_def)
  have fresh: "\<And>k. k \<ge> ?d \<Longrightarrow> \<not> deleted k ?l"
    using log_wf_deleted [OF ok(1)] by (auto simp: linorder_not_less [symmetric])
  have base: "\<And>k. k \<ge> ?d \<Longrightarrow> k \<notin> set (raw_at ?l)" using raw_at_less by fastforce
  have cons: "contents ?m ?l = []" using contents_late [OF ok(1)] by simp
  have u: "unheard ?l ?l1" "unheard ?l ?l2" "unheard ?l ?l3" "unheard ?l ?l4" "unheard ?l ?l5" "unheard ?l ?l6"
      "unheard ?l ?l7" "unheard ?l ?l8"
    by (simp_all add: unheard_call)
  have cl: "unheard ?l ((CloseObj k, b) # l')" if "unheard ?l l'" "?d \<le> k" for l' k b
    using unheard_close [OF w(2) that(1)] that(2) by simp
  note facts = ok(1) sl fresh
  note [simp del] = key.simps
  let ?good = "\<lambda>l'. log_wf l' \<and> log_later ?l l' \<and> unheard ?l l' \<and> alive l' ?m \<and>
      (sent l' = sent ?l \<or> sent l' = (Some ?dest, Some PlainMessage, [?flag]) # sent ?l) \<and>
      (\<exists>xs. raw_at l' = xs @ ?m # raw_at ?l \<and> length xs \<le> 1 \<and> ?m \<notin> set xs)"
  have bad: "torn w (w\<lparr>msg := Some ?m, log := (x, False) # l'\<rparr>)"
    if g: "?good l'" and x: "\<forall>p. x \<noteq> SetListener p" "\<forall>p. x = CloseObj p \<longrightarrow> ?d \<le> p"
      "\<forall>k \<in> set (pointers x). k < length l'" for x l'
  proof -
    from g obtain xs where xs: "raw_at l' = xs @ ?m # raw_at ?l" "length xs \<le> 1" "?m \<notin> set xs" by blast
    have "unheard ?l ((x, False) # l')"
      using g x(1,2) cl by (cases x) (auto intro: unheard_call)
    with g x xs ok show ?thesis
      by (intro tornI [where xs = xs]) (auto simp: alive_def)
  qed
  have good: "?good l'" if l': "l' \<in> {?l3, ?l4, ?l5, ?l6, ?l7, ?l8}" for l'
  proof -
    have "log_wf l'" using l' facts(1,2) by auto
    moreover have "log_later ?l l'" using l' by auto
    moreover have "unheard ?l l'" using l' u by blast
    moreover have "alive l' ?m" using l' fresh by auto
    moreover have "sent l' = sent ?l \<or> sent l' = (Some ?dest, Some PlainMessage, [?flag]) # sent ?l"
      using l' cons by (auto simp: route_def)
    moreover have "\<exists>xs. raw_at l' = xs @ ?m # raw_at ?l \<and> length xs \<le> 1 \<and> ?m \<notin> set xs"
      using l' by (auto intro: exI [of _ "[]"] exI [of _ "[?q]"])
    ultimately show ?thesis by simp
  qed
  have more: "?good ((x, True) # l')" if "?good l'" "x = DestroyQueue ?q \<or> x = CloseObj ?p \<or> x = CloseObj ?c \<or> (\<exists>t. x = Receive ?c t)"
      "length ?l8 \<le> length l'" for x l'
    using that cl by (auto simp: unheard_call dest: alive_not_deleted)
  have early: "torn w (w\<lparr>msg := None, log := (x, False) # l'\<rparr>)"
    if l': "l' \<in> {?l, ?l1, ?l2}" and x: "\<And>p. x \<noteq> SetListener p" "\<And>p. x \<noteq> CloseObj p"
      "\<forall>k \<in> set (pointers x). k < length l'" for x l'
  proof -
    have "log_wf l'" using l' facts(1,2) by auto
    moreover have "log_later ?l l'" "sent l' = sent ?l" "raw_at l' = raw_at ?l" using l' by auto
    moreover have "unheard ?l l'" using l' u by auto
    ultimately have "asked w (w\<lparr>msg := None, log := (x, False) # l'\<rparr>)"
      using x ok(2) by (intro askedI) (auto intro: unheard_call)
    then show ?thesis by (simp add: torn_def)
  qed
  have tail: "sat (\<lambda>_ v. asked w v)
     (\<lambda>e v. is_cms e \<and> torn w v \<or> throws_class TimeoutException e \<and> \<not> is_cms e \<and> asked w v)
     (thenp (jcall (CloseObj ?p))
       (bindp (jreceive_timeout ?c timeout) (\<lambda>reply.
        thenp (jcall (CloseObj ?c))
       (thenp (jcall (DestroyQueue ?q))
       (thenp (jdelete ?q)
       (thenp (jdelete ?m)
       (case reply of
          Some (r, cls) \<Rightarrow> if cls = IsMap then jread in_names (GetMapNames r) else undef
        | None \<Rightarrow> throw (gexn TimeoutException ''Time out trying to get valid Epics Channel names ''))))))) (w\<lparr>msg := Some ?m, log := ?l8\<rparr>))"
  proof -
    let ?l10 = "\<lambda>x. (Receive ?c x, True) # ?l9"
    let ?l12 = "\<lambda>x. (DestroyQueue ?q, True) # (CloseObj ?c, True) # ?l10 x"
    let ?l14 = "\<lambda>x. (Delete ?m, True) # (Delete ?q, True) # ?l12 x"
    have g9: "?good ?l9" by (rule more [OF good]) simp_all
    have g10: "?good (?l10 x)" for x by (rule more [OF g9]) auto
    have g11: "?good ((CloseObj ?c, True) # ?l10 x)" for x by (rule more [OF g10]) simp_all
    have g12: "?good (?l12 x)" for x by (rule more [OF g11]) simp_all
    have u14: "unheard ?l (?l14 x)" for x using g12 [of x] by (simp add: unheard_call)
    have s14: "sent (?l14 x) = (Some ?dest, Some PlainMessage, [?flag]) # sent ?l" for x
      using cons by (simp add: route_def)
    have r14: "raw_at (?l14 x) = raw_at ?l" for x by simp
    have wf14: "log_wf (?l14 x)" "log_later ?l (?l14 x)" for x using g12 [of x] by auto
    have fin: "asked w (w\<lparr>msg := Some ?m, log := ?l14 x\<rparr>)" for x
      by (rule askedI [OF wf14 u14 _ _ ok(2)]) (use r14 s14 in blast)+
    have fin': "asked w (w\<lparr>msg := Some ?m, log := (GetMapNames r, True) # ?l14 x\<rparr>)" if "r < length (?l14 x)" for r x
      using asked_call [OF fin refl, of r x] that by simp
    have last: "sat (\<lambda>_ v. asked w v)
       (\<lambda>e v. is_cms e \<and> torn w v \<or> throws_class TimeoutException e \<and> \<not> is_cms e \<and> asked w v)
       ((case reply of
          Some (r, cls) \<Rightarrow> if cls = IsMap then jread in_names (GetMapNames r) else undef
        | None \<Rightarrow> throw (gexn TimeoutException ''Time out trying to get valid Epics Channel names ''))
          (w\<lparr>msg := Some ?m, log := ?l14 x\<rparr>))"
      if reply: "\<forall>r cls. reply = Some (r, cls) \<longrightarrow> r = length ?l9 \<and> arrives (env w) (map fst (?l10 x)) = Some cls" for reply x
    proof (cases reply)
      case None
      with fin show ?thesis by simp
    next
      case (Some z)
      obtain r cls where z: "z = (r, cls)" by force
      with Some reply have r: "r = length ?l9" "arrives (env w) (map fst (?l10 x)) = Some cls" by blast+
      have "request_puts (map fst (?l10 x)) = [?flag]"
        using puts_to_late [OF ok(1), of ?m] by (simp add: request_puts_def)
      with w(3) r(2) have "cls = IsMap" unfolding names_ok_def by (metis option.distinct(1) option.inject)
      moreover have "alive (?l14 x) r" using r(1) fresh by simp
      moreover have "r < length (?l14 x)" using r(1) by simp
      ultimately show ?thesis
        using w(3) fin' [of r x] by (simp add: Some z jread_def jcall_def wp names_ok_def)
    qed
    show ?thesis
      apply (subst sat_thenp, rule sat_jcall)
        apply (use fresh in simp)
       apply (use bad [OF good, of ?l8] in simp)
      apply (subst sat_bindp, rule sat_jreceive_timeout)
        apply (use fresh in simp)
       apply (use bad [OF g9] in simp)
      apply (subst sat_thenp, rule sat_jcall)
        apply (use fresh in simp)
       apply (use bad [OF g10] in simp)
      apply (subst sat_thenp, rule sat_jcall)
        apply (use fresh in simp)
       apply (use bad [OF g11] in simp)
      apply (simp only: sat_thenp sat_jdelete)
      apply (intro conjI)
        apply (use fresh in simp)
       apply (use fresh in simp)
      apply (use last in simp)
      done
  qed
  have body: "sat (\<lambda>_ v. asked w v)
     (\<lambda>e v. is_cms e \<and> torn w v \<or> throws_class TimeoutException e \<and> \<not> is_cms e \<and> asked w v)
       (bindp (jnew s ?dest SharedPtr) (\<lambda>d.
        bindp (jnew s (Producer (Some d)) SharedPtr) (\<lambda>p.
        bindp (jnew s PlainMessage RawPtr) (\<lambda>m.
        thenp (set_msg (Some m))
       (thenp (jput m ?flag)
       (bindp (jnew s TempQueue RawPtr) (\<lambda>q.
        bindp (jnew s (Consumer q None) SharedPtr) (\<lambda>c.
        thenp (jcall (SetReplyTo m q))
       (thenp (jcall (Send p None m))
       (thenp (jcall (CloseObj p))
       (bindp (jreceive_timeout c timeout) (\<lambda>reply.
        thenp (jcall (CloseObj c))
       (thenp (jcall (DestroyQueue q))
       (thenp (jdelete q)
       (thenp (jdelete m)
       (case reply of
          Some (r, cls) \<Rightarrow> if cls = IsMap then jread in_names (GetMapNames r) else undef
        | None \<Rightarrow> throw (gexn TimeoutException ''Time out trying to get valid Epics Channel names '')))))))))))))))) ?w)"
    apply (subst sat_bindp, rule sat_jnew)
      apply (use facts in \<open>simp add: alive_def\<close>)
     apply (use early [of ?l] facts in simp)
    apply (subst sat_bindp, rule sat_jnew)
      apply (use facts in \<open>simp add: alive_def\<close>)
     apply (use early [of ?l1] facts in simp)
    apply (subst sat_bindp, rule sat_jnew)
      apply (use facts in \<open>simp add: alive_def\<close>)
     apply (use early [of ?l2] facts in simp)
    apply (subst sat_thenp, subst sat_set_msg, subst sat_thenp, rule sat_jput)
      apply (use facts in \<open>simp add: alive_def\<close>)
     apply (use bad [OF good, of ?l3] facts in simp)
    apply (subst sat_bindp, rule sat_jnew)
      apply (use facts in \<open>simp add: alive_def\<close>)
     apply (use bad [OF good, of ?l4] facts in simp)
    apply (subst sat_bindp, rule sat_jnew)
      apply (use facts in \<open>simp add: alive_def\<close>)
     apply (use bad [OF good, of ?l5] facts in simp)
    apply (subst sat_thenp, rule sat_jcall)
      apply (use facts in \<open>simp add: alive_def\<close>)
     apply (use bad [OF good, of ?l6] facts in simp)
    apply (subst sat_thenp, rule sat_jcall)
      apply (use facts in \<open>simp add: alive_def\<close>)
     apply (use bad [OF good, of ?l7] facts in simp)
    apply (use tail in simp)
    done
  show ?thesis
    unfolding requestChannels_def sat_throw_spec sat_thenp sat_set_msg sat_catchp
    by (rule sat_mono [OF body]) (auto simp: wp dest!: torn_delete)
qed

subsection \<open>The invariant of the manager\<close>

text \<open>
  Exactly the consumers in the map listen, besides those of \<open>F\<close>, which belong to other services,
  each to the topic of the channel it is filed under, and all these channels are authorized.
\<close>

definition epics_inv_with :: "ptr set \<Rightarrow> epics_service \<Rightarrow> bool" where
  "epics_inv_with F s \<longleftrightarrow> (case s of (m, w) \<Rightarrow>
     served_with F (ran (em_consumers m)) w \<and> names_ok (env w) \<and> alive (log w) (em_session m) \<and>
     (\<forall>ch c. em_consumers m ch = Some c \<longrightarrow> ch \<in> em_channels m \<and> ec_channel c = ch \<and>
        hears c (getEpicsChannelTopic ch) None (log w)))"

abbreviation epics_inv :: "epics_service \<Rightarrow> bool" where
  "epics_inv \<equiv> epics_inv_with {}"

lemmas epics_inv_def = epics_inv_with_def [where F = "{}"]

definition epics_later :: "epics_service \<Rightarrow> epics_service \<Rightarrow> bool" where
  "epics_later s t \<longleftrightarrow> log_later (log (snd s)) (log (snd t)) \<and> suffix (sent (log (snd s))) (sent (log (snd t))) \<and>
     em_channels (fst s) \<subseteq> em_channels (fst t) \<and> em_session (fst t) = em_session (fst s) \<and>
     env (snd t) = env (snd s)"

lemma epics_later_refl [simp]: "epics_later s s"
  by (simp add: epics_later_def)

lemma epics_later_trans: "epics_later a b \<Longrightarrow> epics_later b c \<Longrightarrow> epics_later a c"
  by (auto simp: epics_later_def intro: log_later_trans suffix_order.trans)

lemma served_later:
  assumes "served_with F R w" and "world_ok w'" and "log_later (log w) (log w')" and "unheard (log w) (log w')"
  shows "served_with F R w'"
  using assms unfolding served_with_def
  by (auto simp: consumer_ready_def log_later_obj_at alive_less unheard_def [of "log w"]
      intro: typed_unheard [OF assms(4)] log_later_alive)

lemma asked_facts:
  assumes "asked w w'"
  shows "world_ok w'" "log_later (log w) (log w')" "env w' = env w" "unheard (log w) (log w')"
    "suffix (sent (log w)) (sent (log w'))"
  using assms by (auto simp: asked_def suffix_Cons simp del: key.simps)

lemma epics_inv_asked:
  assumes "epics_inv_with F (m, w)" and "asked w w'" and "em_channels m \<subseteq> C"
  shows "epics_inv_with F (m\<lparr>em_channels := C\<rparr>, w')"
  using assms asked_facts [OF assms(2)]
  by (auto simp: epics_inv_with_def intro: served_later log_later_alive hears_later)

text \<open>Replacing or erasing an entry destroys the consumer that was in it.\<close>

lemma ran_fun_upd: "ran (f(name := c)) = set_option c \<union> {y. \<exists>a. a \<noteq> name \<and> f a = Some y}"
proof (rule set_eqI)
  fix y
  show "y \<in> ran (f(name := c)) \<longleftrightarrow> y \<in> set_option c \<union> {y. \<exists>a. a \<noteq> name \<and> f a = Some y}"
    unfolding ran_def by (cases "c = Some y") (simp_all, blast+)
qed

lemma ran_upd:
  assumes "\<And>ch c. f ch = Some c \<Longrightarrow> ec_channel c = ch" and "f name = Some x" and "\<And>c'. c = Some c' \<Longrightarrow> c' \<notin> ran f"
  shows "ran (f(name := c)) = (set_option c \<union> ran f) - {x}"
proof -
  have "f a = Some y \<Longrightarrow> a \<noteq> name \<longleftrightarrow> y \<noteq> x" for a y
    using assms(1) [of a y] assms(1) [of name x] assms(2) by fastforce
  then have "{y. \<exists>a. a \<noteq> name \<and> f a = Some y} = ran f - {x}"
    unfolding ran_def by blast
  moreover have "set_option c - {x} = set_option c"
    using assms(2,3) by (cases c) (auto simp: ran_def)
  ultimately show ?thesis unfolding ran_fun_upd by blast
qed

lemma put_consumer_sat:
  assumes s: "served_with F (set_option c \<union> ran (em_consumers m)) w" and c: "\<And>c'. c = Some c' \<Longrightarrow> c' \<notin> ran (em_consumers m)"
    and ch: "\<And>ch x. em_consumers m ch = Some x \<Longrightarrow> ec_channel x = ch"
  shows "sat (\<lambda>_ t. fst t = m\<lparr>em_consumers := (em_consumers m)(name := c)\<rparr> \<and>
      served_with F (ran ((em_consumers m)(name := c))) (snd t) \<and> quiet w (snd t)) (\<lambda>_ _. False) (put_consumer name c (m, w))"
proof (cases "em_consumers m name")
  case None
  then have "{y. \<exists>a. a \<noteq> name \<and> em_consumers m a = Some y} = ran (em_consumers m)"
    unfolding ran_def by (metis option.distinct(1))
  then have "ran ((em_consumers m)(name := c)) = set_option c \<union> ran (em_consumers m)"
    unfolding ran_fun_upd by simp
  with None s show ?thesis
    by (simp add: put_consumer_def drop_consumer_def wp) (simp add: served_with_def quiet_refl)
next
  case (Some x)
  note R = ran_upd [OF ch Some c]
  have "x \<in> set_option c \<union> ran (em_consumers m)" using Some by (auto simp: ran_def)
  from destroy_listener_sat [OF s this] Some show ?thesis
    by (auto simp: put_consumer_def drop_consumer_def destroy_EpicsConsumer_def on_epics_net_def wp R elim!: sat_mono)
qed

lemma new_EpicsConsumer_sat:
  assumes "world_ok w" "typed_listeners (log w)"
  shows "sat (\<lambda>c w'. subscribed c w w' \<and> hears c (getEpicsChannelTopic name) None (log w') \<and> ec_channel c = name \<and> ec_handler c = h)
    (\<lambda>e w'. throws_class CommunicationException e \<and> calm w w' \<and> unheard (log w) (log w'))
    (new_EpicsConsumer name h w)"
  unfolding new_EpicsConsumer_def sat_bindp
  by (rule sat_mono [OF open_listener_sat [OF assms]])
    (auto simp: subscribed_def consumer_ready_def hears_def)

text \<open>What a subscription promises once the channels are known.\<close>

definition installed :: "epics_service \<Rightarrow> string \<Rightarrow> nat \<Rightarrow> epics_service \<Rightarrow> bool" where
  "installed s name h t \<longleftrightarrow> (\<exists>c. em_consumers (fst t) = (em_consumers (fst s))(name \<mapsto> c) \<and> ec_handler c = h)"

lemma subscribe_known_sat:
  assumes inv: "epics_inv_with F s" and name: "name \<in> em_channels (fst s)"
  shows "sat (\<lambda>r t. r = status_OK \<and> epics_inv_with F t \<and> epics_later s t \<and> installed s name h t \<and> em_channels (fst t) = em_channels (fst s))
    (\<lambda>e t. throws_class CommunicationException e \<and> epics_inv_with F t \<and> epics_later s t \<and> fst t = fst s)
    (bindp (on_epics_net (new_EpicsConsumer name h)) (\<lambda>c. thenp (put_consumer name (Some c)) (ret status_OK)) s)"
proof -
  obtain m w where s: "s = (m, w)" by force
  from inv have i: "served_with F (ran (em_consumers m)) w" "names_ok (env w)" "alive (log w) (em_session m)"
    "\<And>ch c. em_consumers m ch = Some c \<Longrightarrow> ch \<in> em_channels m \<and> ec_channel c = ch \<and>
        hears c (getEpicsChannelTopic ch) None (log w)"
    by (auto simp: s epics_inv_with_def)
  then have w: "world_ok w" "typed_listeners (log w)" by (simp_all add: served_with_def)
  show ?thesis
    unfolding sat_bindp on_epics_net_def sat_on_part s snd_conv fst_conv
  proof (rule sat_mono [OF new_EpicsConsumer_sat [OF w]], goal_cases)
    case (1 c v)
    then have c: "subscribed c w v" "hears c (getEpicsChannelTopic name) None (log v)" "ec_channel c = name" "ec_handler c = h"
      by simp_all
    then have cv: "calm w v" by (simp add: subscribed_def)
    note new = served_subscribed [OF i(1) c(1,2)]
    have "sat (\<lambda>_ t. fst t = m\<lparr>em_consumers := (em_consumers m)(name := Some c)\<rparr> \<and>
      served_with F (ran ((em_consumers m)(name := Some c))) (snd t) \<and> quiet v (snd t)) (\<lambda>_ _. False) (put_consumer name (Some c) (m, v))"
      by (rule put_consumer_sat) (use new i(4) in auto)
    then show ?case
      unfolding sat_thenp
    proof (rule sat_mono, goal_cases)
      case (1 u t)
      obtain m' z where t: "t = (m', z)" by force
      from 1 t have z: "m' = m\<lparr>em_consumers := (em_consumers m)(name := Some c)\<rparr>"
        "served_with F (ran ((em_consumers m)(name := Some c))) z" "calm v z" by (auto intro: quiet_calm)
      have wz: "calm w z" using cv z(3) by (rule calm_trans)
      then have lz: "log_later (log w) (log z)" "env z = env w" "sent (log z) = sent (log w)" by (simp_all add: calm_def)
      have "epics_inv_with F t"
        using z(2) i lz name s c hears_later [OF c(2)] z(3)
        by (auto simp: t z(1) epics_inv_with_def calm_def intro: log_later_alive hears_later)
      with lz c(4) show ?case by (auto simp: t z(1) epics_later_def installed_def)
    qed simp
  next
    case (2 e v)
    then have v: "calm w v" "unheard (log w) (log v)" by simp_all
    then have lv: "log_later (log w) (log v)" "env v = env w" "world_ok v" "sent (log v) = sent (log w)" by (simp_all add: calm_def)
    have "epics_inv_with F (m, v)"
      using i lv v by (auto simp: epics_inv_with_def intro: served_later log_later_alive hears_later)
    with 2 lv show ?case by (simp add: epics_later_def)
  qed
qed

lemma init_configuration_sat:
  assumes "world_ok w" "typed_listeners (log w)" "names_ok (env w)" and "alive (log w) s"
  shows "sat (\<lambda>_ w'. asked w w') (\<lambda>e w'. (throws_class CommunicationException e \<or> throws_class TimeoutException e) \<and> \<not> is_cms e \<and> asked w w')
    (init_configuration s w)"
  unfolding init_configuration_def sat_throw_spec
  by (rule sat_mono [OF requestChannels_sat [OF assms]]) auto

lemma throws_timeout: "throws_class TimeoutException e \<Longrightarrow> throws_class GiapiException e"
  by (cases e) (auto intro: exn_is_a_trans)

text \<open>The channels are asked for when none is known.\<close>

lemma ensure_channels_sat:
  assumes inv: "epics_inv_with F s"
  shows "sat (\<lambda>_ t. epics_inv_with F t \<and> epics_later s t \<and> em_consumers (fst t) = em_consumers (fst s) \<and>
       (isInitialized (fst s) \<longrightarrow> t = s))
    (\<lambda>e t. throws_class GiapiException e \<and> epics_inv_with F t \<and> epics_later s t \<and> fst t = fst s \<and> \<not> isInitialized (fst s))
    (bindp (reads (\<lambda>s. isInitialized (fst s))) (\<lambda>initialized.
       if initialized then ret () else
       bindp (reads (\<lambda>s. em_session (fst s))) (\<lambda>session.
       bindp (on_epics_net (init_configuration session)) (\<lambda>names.
       modifies (\<lambda>s. ((fst s)\<lparr>em_channels := em_channels (fst s) \<union> set names\<rparr>, snd s))))) s)"
proof (cases "isInitialized (fst s)")
  case True
  with inv show ?thesis by simp
next
  case False
  obtain m w where s: "s = (m, w)" by force
  from inv have i: "world_ok w" "typed_listeners (log w)" "names_ok (env w)" "alive (log w) (em_session m)"
    by (auto simp: s epics_inv_with_def served_with_def)
  have keep: "epics_inv_with F (m, v)" if "asked w v" for v
    using epics_inv_asked [OF inv [unfolded s] that, of "em_channels m"] by simp
  show ?thesis
    using False unfolding s
    by (simp add: wp on_epics_net_def, intro sat_mono [OF init_configuration_sat [OF i]])
      (use inv [unfolded s] in \<open>auto simp: epics_later_def asked_facts throws_timeout
         intro: epics_inv_asked throws_giapi keep\<close>)
qed

lemma subscribeEpicsStatus_sat:
  assumes inv: "epics_inv_with F s"
  shows "sat (\<lambda>r t. epics_inv_with F t \<and> epics_later s t \<and>
       (r = status_OK \<and> name \<in> em_channels (fst t) \<and> installed s name h t \<or>
        r = status_ERROR \<and> name \<notin> em_channels (fst t) \<and> em_consumers (fst t) = em_consumers (fst s)))
    (\<lambda>e t. throws_class GiapiException e \<and> epics_inv_with F t \<and> epics_later s t \<and> em_consumers (fst t) = em_consumers (fst s))
    (subscribeEpicsStatus name h s)"
proof -
  have reassoc: "subscribeEpicsStatus name h = throw_spec (throws_class GiapiException) (thenp
     (bindp (reads (\<lambda>s. isInitialized (fst s))) (\<lambda>initialized.
       if initialized then ret () else
       bindp (reads (\<lambda>s. em_session (fst s))) (\<lambda>session.
       bindp (on_epics_net (init_configuration session)) (\<lambda>names.
       modifies (\<lambda>s. ((fst s)\<lparr>em_channels := em_channels (fst s) \<union> set names\<rparr>, snd s))))))
     (bindp (reads (\<lambda>s. hasChannel name (fst s))) (\<lambda>found.
     if found then
       bindp (on_epics_net (new_EpicsConsumer name h)) (\<lambda>c.
       thenp (put_consumer name (Some c)) (ret status_OK))
     else ret status_ERROR)))"
    by (simp only: subscribeEpicsStatus_def thenp_def bindp_assoc)
  show ?thesis
    unfolding reassoc sat_throw_spec sat_thenp
  proof (rule sat_mono [OF ensure_channels_sat [OF inv]], goal_cases)
    case (1 u t)
    then have t: "epics_inv_with F t" "epics_later s t" "em_consumers (fst t) = em_consumers (fst s)" by simp_all
    show ?case
    proof (cases "name \<in> em_channels (fst t)")
      case False
      with t show ?thesis by (simp add: wp hasChannel_def)
    next
      case True
      have inst: "installed t name h v \<Longrightarrow> installed s name h v" for v using t(3) by (simp add: installed_def)
      have "sat (\<lambda>r v. epics_inv_with F v \<and> epics_later s v \<and> r = status_OK \<and> name \<in> em_channels (fst v) \<and> installed s name h v)
          (\<lambda>e v. throws_class GiapiException e \<and> epics_inv_with F v \<and> epics_later s v \<and> em_consumers (fst v) = em_consumers (fst s))
          (bindp (on_epics_net (new_EpicsConsumer name h)) (\<lambda>c. thenp (put_consumer name (Some c)) (ret status_OK)) t)"
        by (rule sat_mono [OF subscribe_known_sat [OF t(1) True]])
          (use t True in \<open>auto intro: inst epics_later_trans throws_giapi\<close>)
      with True show ?thesis by (auto simp: hasChannel_def elim!: sat_mono)
    qed
  next
    case (2 e t)
    then show ?case by auto
  qed
qed

lemma unsubscribeEpicsStatus_sat:
  assumes inv: "epics_inv_with F s"
  shows "sat (\<lambda>r t. epics_inv_with F t \<and> epics_later s t \<and> em_channels (fst t) = em_channels (fst s) \<and>
       (if name \<in> em_channels (fst s) then r = status_OK \<and> em_consumers (fst t) = (em_consumers (fst s))(name := None)
        else r = status_ERROR \<and> t = s)) (\<lambda>_ _. False)
    (unsubscribeEpicsStatus name s)"
proof (cases "name \<in> em_channels (fst s)")
  case False
  with inv show ?thesis by (simp add: unsubscribeEpicsStatus_def wp hasChannel_def)
next
  case True
  obtain m w where s: "s = (m, w)" by force
  from inv have i: "served_with F (ran (em_consumers m)) w" "names_ok (env w)" "alive (log w) (em_session m)"
    "\<And>ch c. em_consumers m ch = Some c \<Longrightarrow> ch \<in> em_channels m \<and> ec_channel c = ch \<and>
        hears c (getEpicsChannelTopic ch) None (log w)"
    by (auto simp: s epics_inv_with_def)
  have "sat (\<lambda>_ t. fst t = m\<lparr>em_consumers := (em_consumers m)(name := None)\<rparr> \<and>
      served_with F (ran ((em_consumers m)(name := None))) (snd t) \<and> quiet w (snd t)) (\<lambda>_ _. False) (put_consumer name None (m, w))"
    by (rule put_consumer_sat) (use i in auto)
  then show ?thesis
    using True unfolding unsubscribeEpicsStatus_def s
  proof (simp add: wp hasChannel_def, elim sat_mono, goal_cases)
    case (1 u t)
    then obtain z where t: "t = (m\<lparr>em_consumers := (em_consumers m)(name := None)\<rparr>, z)"
      "served_with F (ran ((em_consumers m)(name := None))) z" "quiet w z" by (cases t) auto
    then have lz: "log_later (log w) (log z)" "env z = env w" "sent (log z) = sent (log w)" by (simp_all add: quiet_def calm_def)
    with i t show ?case
      by (auto simp: epics_inv_with_def epics_later_def intro: log_later_alive hears_later)
  qed simp
qed

lemma epics_step_sat:
  assumes "epics_inv_with F s"
  shows "sat (\<lambda>r t. epics_inv_with F t \<and> epics_later s t)
    (\<lambda>e t. throws_class GiapiException e \<and> epics_inv_with F t \<and> epics_later s t) (epics_step c s)"
proof (cases c)
  case (Subscribe name h)
  then show ?thesis by (auto intro: sat_mono [OF subscribeEpicsStatus_sat [OF assms, of name h]])
next
  case (Unsubscribe name)
  then show ?thesis by (auto intro: sat_mono [OF unsubscribeEpicsStatus_sat [OF assms, of name]])
qed

interpretation channels: safe_machine epics_step "epics_inv_with F" epics_later "throws_class GiapiException" for F
  by unfold_locales (auto intro: epics_later_trans epics_step_sat)

lemma asked_calm: "calm w w' \<Longrightarrow> unheard (log w) (log w') \<Longrightarrow> asked w w'"
  by (auto simp: asked_def calm_def)

lemma asked_calm_trans: "calm w v \<Longrightarrow> unheard (log w) (log v) \<Longrightarrow> asked v w' \<Longrightarrow> asked w w'"
  by (auto simp: asked_def calm_def intro: log_later_trans unheard_trans simp del: key.simps)

text \<open>A program that leaves the members of the object under construction alone, by its form.\<close>

definition frames :: "('a jms_scheme, 'r) prog \<Rightarrow> bool" where
  "frames m \<longleftrightarrow> (\<forall>w. jms.more (snd (m w)) = jms.more w)"

named_theorems frame_intros "programs that leave the members alone"

lemma frames_simple [frame_intros]: "frames (ret x)" "frames (throw e)" "frames undef" "frames (reads f)" "frames (set_msg p)"
  by (simp_all add: frames_def set_msg_def)

lemma frames_bindp [frame_intros]: "frames m \<Longrightarrow> (\<And>x. frames (f x)) \<Longrightarrow> frames (bindp m f)"
  unfolding frames_def
proof
  fix w assume m: "\<forall>w. jms.more (snd (m w)) = jms.more w" and f: "\<And>x. \<forall>w. jms.more (snd (f x w)) = jms.more w"
  from m have "jms.more (snd (m w)) = jms.more w" ..
  with f show "jms.more (snd (bindp m f w)) = jms.more w"
    by (cases "m w" rule: res_cases) (simp_all add: bindp_def)
qed

lemma frames_thenp [frame_intros]: "frames m \<Longrightarrow> frames k \<Longrightarrow> frames (thenp m k)"
  by (simp add: thenp_def frames_bindp)

lemma frames_catchp [frame_intros]: "frames m \<Longrightarrow> (\<And>e. frames (h e)) \<Longrightarrow> frames (catchp m C h)"
  unfolding frames_def
proof
  fix w assume m: "\<forall>w. jms.more (snd (m w)) = jms.more w" and h: "\<And>e. \<forall>w. jms.more (snd (h e w)) = jms.more w"
  from m have "jms.more (snd (m w)) = jms.more w" ..
  with h show "jms.more (snd (catchp m C h w)) = jms.more w"
    by (cases "m w" rule: res_cases) (simp_all add: catchp_def)
qed

lemma frames_throw_spec [frame_intros]: "frames m \<Longrightarrow> frames (throw_spec C m)"
  unfolding frames_def
proof
  fix w assume "\<forall>w. jms.more (snd (m w)) = jms.more w"
  then have "jms.more (snd (m w)) = jms.more w" ..
  then show "jms.more (snd (throw_spec C m w)) = jms.more w"
    by (cases "m w" rule: res_cases) (simp_all add: throw_spec_def)
qed

lemma frames_jcall [frame_intros]: "frames (jcall c)"
  by (simp add: frames_def jcall_def split: option.split)

lemma frames_calls [frame_intros]: "frames (jnew s ob h)" "frames (jput m x)" "frames (jdelete p)" "frames (jread f c)"
     apply (unfold jnew_def jput_def jread_def)
     apply (intro frame_intros)+
   apply (simp add: frames_def jdelete_def)
  apply (intro frame_intros)
  done

lemma frames_delete_msg [frame_intros]: "frames delete_msg"
  by (simp add: frames_def delete_msg_def jdelete_def split: option.split)

lemma frames_init_configuration: "frames (init_configuration s)"
  unfolding init_configuration_def requestChannels_def jreceive_timeout_def jreceive_def
  by (intro frame_intros) (auto split: option.split prod.split intro!: frame_intros)

lemma sat_frames: "sat Q E (m w) \<Longrightarrow> frames m \<Longrightarrow>
    sat (\<lambda>x w'. Q x w' \<and> jms.more w' = jms.more w) (\<lambda>e w'. E e w' \<and> jms.more w' = jms.more w) (m w)"
  unfolding frames_def by (cases "m w" rule: res_cases) (auto dest: spec [of _ w])

lemma communication_not_timeout: "throws_class CommunicationException e \<Longrightarrow> \<not> throws_class TimeoutException e"
proof (cases e)
  case (Giapi g)
  then show "throws_class CommunicationException e \<Longrightarrow> ?thesis" by (cases "ex_class g") (simp_all add: exn_is_a_def numeral_2_eq_2)
qed simp_all

text \<open>What the constructor leaves behind, for a program in which nobody listens yet.\<close>

lemma new_JmsEpicsManager_sat:
  assumes w: "served_with F ({} :: epics_consumer set) w" "names_ok (env w)"
  shows "sat (\<lambda>m w'. epics_inv_with F (m, w') \<and> em_consumers m = Map.empty \<and> asked w w')
    (\<lambda>e w'. throws_class CommunicationException e \<and> asked w w') (new_JmsEpicsManager w)"
proof -
  let ?f = "jms.extend w (members.fields None None None None)"
  have f: "world_ok ?f" "log ?f = log w" "env ?f = env w" "m_session ?f = None"
    using w by (simp_all add: jms.extend_def members.fields_def world_ok_def served_with_def)
  have typed: "typed_listeners (log w)" using w by (simp add: served_with_def)
  let ?Q = "\<lambda>(names :: string list) v. asked w v \<and> (\<exists>s. m_session v = Some s \<and> alive (log v) s)"
  let ?E = "\<lambda>e v. throws_class CommunicationException e \<and> \<not> is_cms e \<and> asked w v \<or>
      is_cms e \<and> m_session v = None \<and> asked w v"
  have "sat ?Q (\<lambda>e v. ?E e v \<or> throws_class TimeoutException e \<and> \<not> is_cms e \<and> ?Q [] v)
     (thenp Instance (bindp createSession (\<lambda>s. thenp (modifies (\<lambda>w. w\<lparr>m_session := Some s\<rparr>)) (init_configuration s))) ?f)"
  proof (rule session_then [OF f(1)], goal_cases)
    case (1 s v)
    let ?v = "v\<lparr>m_session := Some s\<rparr>"
    from 1 have v: "world_ok ?v" "typed_listeners (log ?v)" "names_ok (env ?v)" "alive (log ?v) s"
      "calm w ?v" "unheard (log w) (log ?v)"
      using typed_unheard [OF _ typed] w(2) f by (auto simp: quiet_def calm_def world_ok_def)
    have init: "sat ?Q (\<lambda>e v. (throws_class CommunicationException e \<or> throws_class TimeoutException e) \<and> \<not> is_cms e \<and> ?Q [] v)
      (init_configuration s ?v)"
    proof (rule sat_mono [OF sat_frames [OF init_configuration_sat [OF v(1-4)] frames_init_configuration]], goal_cases)
      case (1 x v')
      then show ?case
        using members_more [of v' ?v] v(4) by (auto intro: asked_calm_trans [OF v(5,6)] log_later_alive dest: asked_facts(2))
    next
      case (2 e v')
      then show ?case
        using members_more [of v' ?v] v(4) by (auto intro: asked_calm_trans [OF v(5,6)] log_later_alive dest: asked_facts(2))
    qed
    show ?case
      unfolding sat_thenp sat_modifies by (rule sat_mono [OF init]) auto
  next
    case (2 e v)
    then have "m_session v = None" "calm w v" "unheard (log w) (log v)"
      using members_more [of v ?f] f by (auto simp: quiet_def calm_def)
    with 2 show ?case by (auto intro: asked_calm)
  qed
  then have start: "sat ?Q ?E (catchp
      (thenp Instance (bindp createSession (\<lambda>s. thenp (modifies (\<lambda>w. w\<lparr>m_session := Some s\<rparr>)) (init_configuration s))))
      (throws_class TimeoutException) (\<lambda>e. ret []) ?f)"
    unfolding sat_catchp by (rule sat_mono) (auto simp: is_cms_iff dest: communication_not_timeout split: if_splits)
  have inv: "epics_inv_with F (\<lparr>em_session = s, em_channels = set names, em_consumers = Map.empty\<rparr>, jms.truncate v)"
    if "asked w v" "alive (log v) s" for names s v
    using w asked_facts [OF that(1)] that(2) served_later [OF w(1), of v]
    by (auto simp: epics_inv_with_def served_with_def)
  have trunc: "asked w (jms.truncate v) \<longleftrightarrow> asked w v" for v by (simp add: asked_def)
  show ?thesis
    unfolding new_JmsEpicsManager_def sat_throw_spec sat_with_members sat_catchp [of _ _ _ is_cms] sat_bindp
    by (rule sat_mono [OF start]) (auto simp: close_quietly_def wp trunc inv)
qed

text \<open>Fetching a channel of strings.\<close>

definition string_request :: "string \<Rightarrow> put list" where
  "string_request name = [StringProperty (key GMP_GEMINI_EPICS_CHANNEL_PROPERTY) name]"

lemma getChannel_sat:
  assumes r: "ready p d w" and c: "carries_strings (env w) cname vals" "length vals < 2 ^ 31" "length (c_block vals) < 2 ^ 31"
  shows "sat (\<lambda>x w'. delivered d PlainMessage (string_request name) w w' \<and>
        (\<exists>it. x = Some it \<and> ei_name it = cname \<and> holds_strings vals it))
     (\<lambda>e w'. throws_class GiapiException e \<and>
        (delivered d PlainMessage (string_request name) w w' \<or> throws_class CommunicationException e \<and> abandoned w w'))
     (getChannel p name timeout w)"
  unfolding getChannel_def sat_throw_spec
proof (rule request_sat [OF r, where xs = "string_request name" and ys = "[]"], goal_cases)
  case 2
  show ?case using c(1) by (simp add: late_ok_def carries_strings_def)
next
  case (5 reply v)
  then have del: "delivered d PlainMessage (string_request name) w v" by (simp add: exchanged_def delivered_def)
  show ?case
  proof (cases reply)
    case None
    with del show ?thesis by simp
  next
    case (Some z)
    obtain q cls where z: "z = (q, cls)" by force
    with 5 Some have q: "alive (log v) q" by (auto simp: exchanged_def)
    have v: "world_ok v" "carries_strings (env v) cname vals" using del c(1) by (simp_all add: delivered_def)
    show ?thesis
    proof (cases "cls = IsBytes")
      case False
      with Some z del show ?thesis by simp
    next
      case True
      with Some z show ?thesis
        by (auto intro!: sat_mono [OF buildEpicsStatusItem_strings [OF v(1) q v(2) c(2,3)]]
          intro: delivered_calm [OF del] quiet_calm)
    qed
  qed
qed (simp_all add: string_request_def del: key.simps)

end
