(* ===== verification/Apply_Offset.thy ===== *)
theory Apply_Offset
  imports Jms_Request
begin

section \<open>Offsets of the telescope\<close>

text \<open>
  \<open>JmsApplyOffset\<close>: an offset is sent to the TCS and the answer is either waited for, or left to a
  thread that calls a function of the application. The answer is a text \<open>n|message\<close>.
\<close>

subsection \<open>Numbers in a text\<close>

text \<open>
  \<open>std::stoi\<close>: white space, a sign, digits, then anything. No digits is an invalid argument, a
  number that is not an \<open>int\<close> is out of range.
\<close>

definition is_space :: "char \<Rightarrow> bool" where
  "is_space c \<longleftrightarrow> c \<in> {CHR '' '', CHR 0x09, CHR 0x0A, CHR 0x0B, CHR 0x0C, CHR 0x0D}"

definition is_digit :: "char \<Rightarrow> bool" where
  "is_digit c \<longleftrightarrow> 48 \<le> (of_char c :: int) \<and> (of_char c :: int) \<le> 57"

definition decimal :: "string \<Rightarrow> int" where
  "decimal ds = foldl (\<lambda>v c. 10 * v + (of_char c - 48)) 0 ds"

definition read_sign :: "string \<Rightarrow> int \<times> string" where
  "read_sign s = (case s of [] \<Rightarrow> (1, [])
     | c # r \<Rightarrow> if c = CHR ''-'' then (-1, r) else if c = CHR ''+'' then (1, r) else (1, s))"

definition stoi :: "string \<Rightarrow> exn + int" where
  "stoi s = (case read_sign (dropWhile is_space s) of (sign, t) \<Rightarrow>
     let ds = takeWhile is_digit t; n = sign * decimal ds in
     if ds = [] then Inl InvalidArgument
     else if - (2 ^ 31) \<le> n \<and> n < 2 ^ 31 then Inr n else Inl OutOfRange)"

definition stoi_prog :: "string \<Rightarrow> ('s, int) prog" where
  "stoi_prog s = (case stoi s of Inl e \<Rightarrow> throw e | Inr n \<Rightarrow> ret n)"

text \<open>What comes before the first bar, and what comes after it.\<close>

definition before_bar :: "string \<Rightarrow> string" where
  "before_bar t = takeWhile (\<lambda>c. c \<noteq> CHR ''|'') t"

definition after_bar :: "string \<Rightarrow> string" where
  "after_bar t = drop (Suc (length (before_bar t))) t"

subsection \<open>The request\<close>

record offset_sender = producer +
  inst_name :: string

definition new_JmsApplyOffset :: "(jms, offset_sender) prog" where
  "new_JmsApplyOffset = throw_spec (throws_class CommunicationException) (
     bindp (new_JmsProducer (key GMP_TCS_OFFSET_DESTINATION)) (\<lambda>p.
     bindp (reads (\<lambda>w. file_property (env w) ''gmp.instrument'')) (\<lambda>name.
     ret (producer.extend p (offset_sender.fields (if isEmpty name then ''dummyInst'' else name))))))"

definition offset_puts :: "string \<Rightarrow> f64 \<Rightarrow> f64 \<Rightarrow> offset_type \<Rightarrow> put list" where
  "offset_puts name x y ty = [WDouble x, WDouble y, WInt (offset_type_int ty), StringProperty ''instName'' name]"

text \<open>What is made of the answer by a caller who waits.\<close>

definition offset_answer :: "(ptr \<times> msg_class) option \<Rightarrow> (jms, int) prog" where
  "offset_answer reply = (case reply of
     None \<Rightarrow> throw (gexn TimeoutException ''Time out while waiting for TCS Offset executiong'')
   | Some (r, cls) \<Rightarrow> if cls \<noteq> IsText then ret status_ERROR else
       bindp (jread in_text (GetText r)) (\<lambda>text.
       if CHR ''|'' \<in> set text then stoi_prog (before_bar text) else ret 0))"

text \<open>
  The thread started for a caller who gave a function: the function, the consumer, the queue and
  the timeout, which becomes an \<open>int\<close>. The request is not deleted on this path.
\<close>

type_synonym offset_thread = "nat \<times> ptr \<times> ptr \<times> int"

definition sendOffset ::
  "offset_sender \<Rightarrow> f64 \<Rightarrow> f64 \<Rightarrow> offset_type \<Rightarrow> int \<Rightarrow> nat option \<Rightarrow> (jms, int \<times> offset_thread option) prog" where
  "sendOffset p x y ty timeout callbackOffset =
     throw_spec (\<lambda>e. throws_class CommunicationException e \<or> throws_class TimeoutException e) (
     thenp (set_msg None)
    (catchp
       (case callbackOffset of
          None \<Rightarrow>
            bindp (exchange (producer.truncate p) BytesMessage (\<lambda>m. ret ())
              (\<lambda>m. jputs m (offset_puts (inst_name p) x y ty)) timeout) (\<lambda>reply.
            bindp (offset_answer reply) (\<lambda>n. ret (n, None)))
        | Some f \<Rightarrow>
            bindp (jnew (p_session p) BytesMessage RawPtr) (\<lambda>m.
            thenp (set_msg (Some m))
           (bindp (jnew (p_session p) TempQueue RawPtr) (\<lambda>q.
            bindp (jnew (p_session p) (Consumer q None) RawPtr) (\<lambda>c.
            thenp (jcall (SetReplyTo m q))
           (thenp (jputs m (offset_puts (inst_name p) x y ty))
           (thenp (send (producer.truncate p) m)
           (ret (1, Some (f, c, q, sint (word_of_int timeout :: i32)))))))))))
       is_cms (\<lambda>e. thenp delete_msg (throw (gexn CommunicationException
         (''Problem applying the Offset in the TCS.  '' @ exn_text e))))))"

text \<open>The form without a function.\<close>

definition sendOffset_wait :: "offset_sender \<Rightarrow> f64 \<Rightarrow> f64 \<Rightarrow> offset_type \<Rightarrow> int \<Rightarrow> (jms, int) prog" where
  "sendOffset_wait p x y ty timeout =
     throw_spec (\<lambda>e. throws_class CommunicationException e \<or> throws_class TimeoutException e)
       (bindp (sendOffset p x y ty timeout None) (\<lambda>r. ret (fst r)))"

subsection \<open>The thread\<close>

text \<open>
  The function of the application is only recorded. Nothing catches an exception in the thread,
  so one ends the process. A text that is null is used nevertheless.
\<close>

record offset_client = jms +
  callbacks :: "(nat \<times> int \<times> string) list"

definition offset_callback :: "offset_thread \<Rightarrow> (offset_client, unit) prog" where
  "offset_callback th = (case th of (f, c, q, timeout) \<Rightarrow> throw_spec (\<lambda>e. False) (
     bindp (jreceive_timeout c timeout) (\<lambda>reply.
     thenp (jcall (CloseObj c))
    (thenp (jdelete c)
    (thenp (jcall (DestroyQueue q))
    (thenp (jdelete q)
    (bindp (case reply of
        None \<Rightarrow> ret (status_ERROR, ''Time out while waiting for TCS Offset executiong'')
      | Some (r, cls) \<Rightarrow> if cls \<noteq> IsText then undef else
          bindp (jread in_text (GetText r)) (\<lambda>text.
          if CHR ''|'' \<in> set text
          then bindp (stoi_prog (before_bar text)) (\<lambda>n. ret (n, after_bar text))
          else ret (status_ERROR, [])))
      (\<lambda>(status, message). modifies (\<lambda>s. s\<lparr>callbacks := callbacks s @ [(f, status, message)]\<rparr>)))))))))"

subsection \<open>What a waiting caller gets\<close>

text \<open>
  The outcome for an answer with a text: the number, or the end of the process when there is a
  bar but no number in front of it.
\<close>

definition offset_outcome :: "string \<Rightarrow> int res" where
  "offset_outcome t = (if CHR ''|'' \<in> set t then (case stoi (before_bar t) of Inl e \<Rightarrow> Terminated | Inr n \<Rightarrow> Val n) else Val 0)"

text \<open>Environments in which nothing fails and every reply is a text.\<close>

definition answers :: "environment \<Rightarrow> string \<Rightarrow> bool" where
  "answers en t \<longleftrightarrow> unfailing en \<and> (\<forall>h. arrives en h = Some IsText) \<and> (\<forall>h. in_text en h = t)"

lemma stoi_throws: "stoi s = Inl e \<Longrightarrow> e = InvalidArgument \<or> e = OutOfRange"
  by (auto simp: stoi_def Let_def split: prod.splits if_splits)

lemma producer_truncate [simp]:
  "p_session (producer.truncate p) = p_session p" "p_producer (producer.truncate p) = p_producer p"
  "p_destination (producer.truncate p) = p_destination p"
  by (simp_all add: producer.truncate_def)

lemma new_JmsApplyOffset_sat:
  assumes "world_ok w"
  shows "sat (\<lambda>p w'. ready (producer.truncate p) (Topic (key GMP_TCS_OFFSET_DESTINATION)) w' \<and> calm w w' \<and>
        inst_name p \<noteq> [])
    (\<lambda>e w'. throws_class CommunicationException e \<and> calm w w') (new_JmsApplyOffset w)"
  unfolding new_JmsApplyOffset_def new_JmsProducer_def sat_throw_spec sat_bindp
  by (rule sat_mono [OF open_producer_sat [OF assms]])
    (auto simp: wp producer.extend_def producer.truncate_def offset_sender.fields_def isEmpty_iff ready_def
      simp del: key.simps)

text \<open>An exchange with an environment that answers.\<close>

lemma exchange_answered:
  assumes r: "ready p d w" and none: "msg w = None" and kind: "is_message kind" and a: "answers (env w) t"
    and fill1: "\<And>m. fill1 m = jputs m xs" and fill2: "\<And>m. fill2 m = jputs m ys"
  shows "sat (\<lambda>reply w'. delivered d kind (xs @ ys) w w' \<and> (\<exists>q. reply = Some (q, IsText) \<and> alive (log w') q))
    (\<lambda>_ _. False) (exchange p kind fill1 fill2 timeout w)"
proof -
  have "late_ok (env w)" "unfailing (env w)" using a by (simp_all add: late_ok_def answers_def unfailing_def)
  moreover have "steady (exchange p kind fill1 fill2 timeout)"
    by (rule steady_exchange) (simp_all add: fill1 fill2 steady_intros)
  ultimately have "sat (\<lambda>reply w'. exchanged d kind (xs @ ys) w reply w') (\<lambda>e w'. (is_cms e \<and> interrupted w w') \<and> \<not> is_cms e)
      (exchange p kind fill1 fill2 timeout w)"
    by (intro sat_steady exchange_sat [OF r none kind _ fill1 fill2])
  then show ?thesis
    by (rule sat_mono) (use a in \<open>auto simp: exchanged_def answers_def\<close>)
qed

text \<open>The outcome of the call, with what it leaves behind.\<close>

lemma sendOffset_answered:
  assumes r: "ready (producer.truncate p) d w" and a: "answers (env w) t"
  shows "\<exists>w'. sendOffset p x y ty timeout None w =
       ((case offset_outcome t of Val n \<Rightarrow> Val (n, None) | _ \<Rightarrow> Terminated), w') \<and>
     delivered d BytesMessage (offset_puts (inst_name p) x y ty) w w'"
proof -
  let ?w = "w\<lparr>msg := None\<rparr>"
  let ?ex = "exchange (producer.truncate p) BytesMessage (\<lambda>m. ret ()) (\<lambda>m. jputs m (offset_puts (inst_name p) x y ty)) timeout"
  have r': "ready (producer.truncate p) d ?w" using r by (simp add: ready_def)
  have "sat (\<lambda>reply w'. delivered d BytesMessage ([] @ offset_puts (inst_name p) x y ty) ?w w' \<and>
      (\<exists>q. reply = Some (q, IsText) \<and> alive (log w') q)) (\<lambda>_ _. False) (?ex ?w)"
    by (rule exchange_answered [OF r']) (use a in simp_all)
  then obtain q v where ex: "?ex ?w = (Val (Some (q, IsText)), v)" and q: "alive (log v) q"
    and del: "delivered d BytesMessage (offset_puts (inst_name p) x y ty) w v"
    by (auto dest!: satD simp: delivered_def)
  let ?v = "v\<lparr>log := (GetText q, True) # log v\<rparr>"
  have v: "env v = env w" "world_ok v" using del by (simp_all add: delivered_def)
  have "log_wf (log v)" using v by (simp add: world_ok_def)
  then have "calm v ?v" using v q by (auto simp: calm_def alive_def)
  then have del': "delivered d BytesMessage (offset_puts (inst_name p) x y ty) w ?v"
    using del by (rule delivered_calm [rotated])
  have "jread in_text (GetText q) v = (Val t, ?v)"
    using a v q by (simp add: jread_def jcall_def thenp_def bindp_def answers_def unfailing_def)
  then have "sendOffset p x y ty timeout None w =
       ((case offset_outcome t of Val n \<Rightarrow> Val (n, None) | _ \<Rightarrow> Terminated), ?v)"
    using ex
    by (auto simp: sendOffset_def throw_spec_def thenp_def bindp_def catchp_def set_msg_def offset_answer_def offset_outcome_def
        stoi_prog_def dest!: stoi_throws split: sum.splits)
  with del' show ?thesis by blast
qed

subsection \<open>The call with a function\<close>

lemma unfailing_call:
  "unfailing (env w) \<Longrightarrow> list_all (alive (log w)) (pointers c) \<Longrightarrow> jcall c w = (Val (), w\<lparr>log := (c, True) # log w\<rparr>)"
  by (simp add: jcall_def unfailing_def)

lemma unfailing_puts:
  "unfailing (env w) \<Longrightarrow> alive (log w) m \<Longrightarrow> jputs m xs w = (Val (), w\<lparr>log := puts_log m xs @ log w\<rparr>)"
proof (induction xs arbitrary: w)
  case (Cons x xs)
  then show ?case
    using Cons.IH [of "w\<lparr>log := (Put m x, True) # log w\<rparr>"]
    by (simp add: jput_def unfailing_call thenp_def bindp_def alive_def)
qed simp

text \<open>
  The message is sent, the thread gets its consumer and queue, and the message stays behind: three
  objects are left, and the thread deletes two of them.
\<close>

lemma sendOffset_threaded:
  assumes r: "ready (producer.truncate p) d w" and u: "unfailing (env w)"
  shows "\<exists>m q c v. sendOffset p x y ty timeout (Some f) w =
      (Val (1, Some (f, c, q, sint (word_of_int timeout :: i32))), v) \<and>
     world_ok v \<and> env v = env w \<and> c \<noteq> q \<and> alive (log v) c \<and> alive (log v) q \<and> (\<forall>k. conn v = Some k \<longrightarrow> k \<noteq> c \<and> k \<noteq> q) \<and>
     m \<noteq> q \<and> m \<noteq> c \<and> length (log w) \<le> m \<and> raw_at (log v) = c # q # m # raw_at (log w) \<and>
     sent (log v) = (Some d, Some BytesMessage, offset_puts (inst_name p) x y ty) # sent (log w)"
proof -
  let ?s = "p_session p" and ?m = "length (log w)" and ?xs = "offset_puts (inst_name p) x y ty"
  let ?q = "Suc ?m" and ?c = "Suc (Suc ?m)"
  let ?l = "(SetReplyTo ?m ?q, True) # (Create ?s (Consumer ?q None) RawPtr, True) # (Create ?s TempQueue RawPtr, True) #
    (Create ?s BytesMessage RawPtr, True) # log w"
  let ?l' = "(Send (p_producer p) None ?m, True) # puts_log ?m ?xs @ ?l"
  let ?v = "w\<lparr>msg := Some ?m, log := ?l'\<rparr>"
  have ok: "log_wf (log w)" "\<And>c. conn w = Some c \<Longrightarrow> alive (log w) c" "world_ok w"
    and alv: "alive (log w) ?s" "alive (log w) (p_producer p)"
    using r by (auto simp: ready_def world_ok_def)
  have fresh: "\<And>k. k \<ge> ?m \<Longrightarrow> \<not> deleted k (log w)"
    using log_wf_deleted [OF ok(1)] by (auto simp: linorder_not_less [symmetric])
  have cons: "contents ?m (log w) = []" using contents_late [OF ok(1)] by simp
  have suf: "suffix (log w) (puts_log ?m ?xs @ ?l)" by (auto simp: suffix_Cons intro!: suffix_appendI)
  have "sendOffset p x y ty timeout (Some f) w = (Val (1, Some (f, ?c, ?q, sint (word_of_int timeout :: i32))), ?v)"
    using u alv fresh
    by (simp add: sendOffset_def throw_spec_def thenp_def bindp_def catchp_def set_msg_def jnew_def send_def
        unfailing_call unfailing_puts alive_def)
  moreover have "world_ok ?v" using ok alv by (auto simp: alive_def)
  moreover have "alive ?l' ?c" "alive ?l' ?q" using fresh by (auto simp: alive_def)
  moreover have "route (p_producer p) None (puts_log ?m ?xs @ ?l) = Some d"
    using route_ready [OF r suf] by simp
  moreover have "\<forall>k. conn ?v = Some k \<longrightarrow> k \<noteq> ?c \<and> k \<noteq> ?q"
    using ok(2) by (fastforce dest: alive_less)
  ultimately show ?thesis
    using cons by (intro exI [of _ ?m] exI [of _ ?q] exI [of _ ?c] exI [of _ ?v]) simp
qed

text \<open>The thread calls the function once and deletes what it was given.\<close>

definition thread_outcome :: "string \<Rightarrow> (int \<times> string) option" where
  "thread_outcome t = (if CHR ''|'' \<in> set t then (case stoi (before_bar t) of Inl e \<Rightarrow> None | Inr n \<Rightarrow> Some (n, after_bar t))
     else Some (status_ERROR, []))"

lemma offset_callback_run:
  assumes w: "world_ok w" "answers (env w) t" "c \<noteq> q" "alive (log w) c" "alive (log w) q"
  shows "\<exists>v. offset_callback (f, c, q, timeout) w =
      (case thread_outcome t of None \<Rightarrow> (Terminated, v)
       | Some (n, s) \<Rightarrow> (Val (), v\<lparr>callbacks := callbacks w @ [(f, n, s)]\<rparr>)) \<and>
     raw_at (log v) = filter (\<lambda>x. x \<noteq> q) (filter (\<lambda>x. x \<noteq> c) (raw_at (log w))) \<and> sent (log v) = sent (log w) \<and>
     callbacks v = callbacks w"
proof -
  let ?t = "if 0 < timeout then Some timeout else None" and ?r = "length (log w)"
  let ?l = "(Delete q, True) # (DestroyQueue q, True) # (Delete c, True) # (CloseObj c, True) # (Receive c ?t, True) # log w"
  let ?v = "w\<lparr>log := (GetText ?r, True) # ?l\<rparr>"
  have u: "unfailing (env w)" "\<And>h. arrives (env w) h = Some IsText" "\<And>h. in_text (env w) h = t"
    using w(2) by (simp_all add: answers_def)
  have alv: "c < ?r" "q < ?r" "\<not> deleted c (log w)" "\<not> deleted q (log w)" using w by (simp_all add: alive_def)
  have fresh: "\<not> deleted ?r (log w)" using w(1) alive_fresh by (auto simp: world_ok_def)
  have rec: "jreceive_timeout c timeout w = (Val (Some (?r, IsText)), w\<lparr>log := (Receive c ?t, True) # log w\<rparr>)"
    using u alv by (simp add: jreceive_timeout_def jreceive_def thenp_def bindp_def unfailing_call alive_def)
  have "offset_callback (f, c, q, timeout) w =
      (case thread_outcome t of None \<Rightarrow> (Terminated, ?v)
       | Some (n, s) \<Rightarrow> (Val (), ?v\<lparr>callbacks := callbacks w @ [(f, n, s)]\<rparr>))"
    using u alv fresh w(3)
    by (auto simp: offset_callback_def throw_spec_def thenp_def bindp_def rec unfailing_call jdelete_def jread_def
        thread_outcome_def stoi_prog_def alive_def split: sum.split)
  then show ?thesis by (intro exI [of _ ?v]) simp
qed

end
