(* ===== verification/Facades.thy ===== *)
theory Facades
  imports Epics_Manager Apply_Offset
begin

section \<open>The facades of the services\<close>

text \<open>
  \<open>ServicesUtil\<close>, \<open>DataUtil\<close> and \<open>GeminiUtil\<close> with their implementations. Each implementation is
  a singleton that is constructed by the first call and owns the producers its calls are forwarded
  to; a construction that throws is tried again by the next call.
\<close>

subsection \<open>Singletons\<close>

text \<open>The state: the instance, null at first, and the world.\<close>

type_synonym 'i facade = "'i option \<times> jms"

definition on_world :: "(jms, 'a) prog \<Rightarrow> ('i facade, 'a) prog" where
  "on_world m = on_part snd (\<lambda>w s. (fst s, w)) m"

definition singleton :: "(jms, 'i) prog \<Rightarrow> ('i facade, 'i) prog" where
  "singleton build = bindp (reads fst) (\<lambda>i. case i of
     Some u \<Rightarrow> ret u
   | None \<Rightarrow> bindp (on_world build) (\<lambda>u. thenp (modifies (\<lambda>s. (Some u, snd s))) (ret u)))"

subsection \<open>ServicesUtil\<close>

record services_util =
  su_producer :: producer
  su_logProducer :: producer

definition new_ServicesUtilImpl :: "(jms, services_util) prog" where
  "new_ServicesUtilImpl = throw_spec (throws_class CommunicationException) (
     bindp new_RequestProducer (\<lambda>p. unwind (destroy_producer p)
    (bindp new_JmsLogProducer (\<lambda>l.
     ret \<lparr>su_producer = p, su_logProducer = l\<rparr>))))"

definition ServicesUtil_Instance :: "(services_util facade, services_util) prog" where
  "ServicesUtil_Instance = throw_spec (throws_class CommunicationException) (singleton new_ServicesUtilImpl)"

text \<open>The lines written to the program's own log after the post are not modelled.\<close>

definition impl_systemLog :: "services_util \<Rightarrow> log_level \<Rightarrow> string \<Rightarrow> (services_util facade, unit) prog" where
  "impl_systemLog u level line = throw_spec (throws_class CommunicationException)
     (on_world (postLog (su_logProducer u) level line))"

definition impl_getObservatoryTime :: "timeval option \<Rightarrow> int" where
  "impl_getObservatoryTime now = (case now of Some tv \<Rightarrow> tv_millis tv | None \<Rightarrow> 0)"

definition impl_getProperty :: "services_util \<Rightarrow> string \<Rightarrow> int \<Rightarrow> (services_util facade, string) prog" where
  "impl_getProperty u k timeout =
     throw_spec (\<lambda>e. throws_class CommunicationException e \<or> throws_class TimeoutException e)
     (on_world (getProperty (su_producer u) k timeout))"

definition systemLog :: "log_level \<Rightarrow> string \<Rightarrow> (services_util facade, unit) prog" where
  "systemLog level line = throw_spec (throws_class GiapiException)
     (bindp ServicesUtil_Instance (\<lambda>u. impl_systemLog u level line))"

definition getObservatoryTime :: "timeval option \<Rightarrow> (services_util facade, int) prog" where
  "getObservatoryTime now = throw_spec (throws_class GiapiException)
     (bindp ServicesUtil_Instance (\<lambda>u. ret (impl_getObservatoryTime now)))"

definition services_getProperty :: "string \<Rightarrow> int \<Rightarrow> (services_util facade, string) prog" where
  "services_getProperty k timeout = throw_spec (throws_class GiapiException)
     (bindp ServicesUtil_Instance (\<lambda>u. impl_getProperty u k timeout))"

subsection \<open>DataUtil\<close>

record data_util =
  du_obsEventProducer :: producer
  du_fileEventsProducer :: producer

definition new_DataUtilImpl :: "(jms, data_util) prog" where
  "new_DataUtilImpl = throw_spec (throws_class CommunicationException) (
     bindp new_JmsObsEventProducer (\<lambda>p. unwind (destroy_producer p)
    (bindp new_JmsFileEventsProducer (\<lambda>f.
     ret \<lparr>du_obsEventProducer = p, du_fileEventsProducer = f\<rparr>))))"

definition DataUtil_Instance :: "(data_util facade, data_util) prog" where
  "DataUtil_Instance = throw_spec (throws_class CommunicationException) (singleton new_DataUtilImpl)"

definition impl_postObservationEvent :: "data_util \<Rightarrow> observation_event \<Rightarrow> string \<Rightarrow> (data_util facade, int) prog" where
  "impl_postObservationEvent u event datalabel = throw_spec (throws_class CommunicationException)
     (on_world (postEvent (du_obsEventProducer u) event datalabel))"

definition impl_postAncillaryFileEvent :: "data_util \<Rightarrow> string \<Rightarrow> string \<Rightarrow> (data_util facade, int) prog" where
  "impl_postAncillaryFileEvent u filename datalabel = throw_spec (throws_class CommunicationException)
     (on_world (postAncillaryFileEvent (du_fileEventsProducer u) filename datalabel))"

definition impl_postIntermediateFileEvent ::
  "data_util \<Rightarrow> string \<Rightarrow> string \<Rightarrow> string \<Rightarrow> (data_util facade, int) prog" where
  "impl_postIntermediateFileEvent u filename datalabel hint = throw_spec (throws_class CommunicationException)
     (on_world (postIntermediateFileEvent (du_fileEventsProducer u) filename datalabel hint))"

definition postObservationEvent :: "observation_event \<Rightarrow> string \<Rightarrow> (data_util facade, int) prog" where
  "postObservationEvent event datalabel = throw_spec (throws_class GiapiException)
     (bindp DataUtil_Instance (\<lambda>u. impl_postObservationEvent u event datalabel))"

definition data_postAncillaryFileEvent :: "string \<Rightarrow> string \<Rightarrow> (data_util facade, int) prog" where
  "data_postAncillaryFileEvent filename datalabel = throw_spec (throws_class GiapiException)
     (bindp DataUtil_Instance (\<lambda>u. impl_postAncillaryFileEvent u filename datalabel))"

definition data_postIntermediateFileEvent :: "string \<Rightarrow> string \<Rightarrow> string \<Rightarrow> (data_util facade, int) prog" where
  "data_postIntermediateFileEvent filename datalabel hint = throw_spec (throws_class GiapiException)
     (bindp DataUtil_Instance (\<lambda>u. impl_postIntermediateFileEvent u filename datalabel hint))"

subsection \<open>GeminiUtil\<close>

record gemini_util =
  gu_epicsMgr :: epics_manager
  gu_pcsUpdater :: producer
  gu_tcsFetcher :: producer
  gu_tcsApplyOffset :: offset_sender
  gu_epicsFetcher :: producer

text \<open>The manager of the channels has no consumers yet when its owner's constructor fails.\<close>

definition new_GeminiUtilImpl :: "(jms, gemini_util) prog" where
  "new_GeminiUtilImpl = throw_spec (throws_class GiapiException) (
     bindp new_JmsEpicsManager (\<lambda>m.
     bindp new_JmsPcsUpdater (\<lambda>p. unwind (destroy_producer p)
    (bindp new_JmsTcsFetcher (\<lambda>t. unwind (destroy_producer t)
    (bindp new_JmsApplyOffset (\<lambda>a. unwind (destroy_producer (producer.truncate a))
    (bindp new_JmsEpicsFetcher (\<lambda>f.
     ret \<lparr>gu_epicsMgr = m, gu_pcsUpdater = p, gu_tcsFetcher = t, gu_tcsApplyOffset = a, gu_epicsFetcher = f\<rparr>)))))))))"

definition GeminiUtil_Instance :: "(gemini_util facade, gemini_util) prog" where
  "GeminiUtil_Instance = throw_spec (throws_class GiapiException) (singleton new_GeminiUtilImpl)"

text \<open>The manager of the instance is used in place.\<close>

definition on_epics :: "(epics_service, 'a) prog \<Rightarrow> (gemini_util facade, 'a) prog" where
  "on_epics m = bindp (reads fst) (\<lambda>i. case i of
     None \<Rightarrow> undef
   | Some u \<Rightarrow> on_part (\<lambda>s. (gu_epicsMgr u, snd s)) (\<lambda>p s. (Some (u\<lparr>gu_epicsMgr := fst p\<rparr>), snd p)) m)"

definition gemini_subscribeEpicsStatus :: "string \<Rightarrow> nat \<Rightarrow> (gemini_util facade, int) prog" where
  "gemini_subscribeEpicsStatus name handler = throw_spec (throws_class GiapiException)
     (bindp GeminiUtil_Instance (\<lambda>u. on_epics (subscribeEpicsStatus name handler)))"

definition gemini_unsubscribeEpicsStatus :: "string \<Rightarrow> (gemini_util facade, int) prog" where
  "gemini_unsubscribeEpicsStatus name = throw_spec (throws_class GiapiException)
     (bindp GeminiUtil_Instance (\<lambda>u. on_epics (unsubscribeEpicsStatus name)))"

text \<open>
  A PCS update is first written into a line of the log, number by number through a buffer of 25
  characters. How the C library prints a number with \<open>%.2f\<close> and a blank is a parameter.
\<close>

fun format_zernikes :: "(f64 \<Rightarrow> string) \<Rightarrow> f64 list \<Rightarrow> nat list \<Rightarrow> string \<Rightarrow> ('s, string) prog" where
  "format_zernikes fmt zs [] str = ret str"
| "format_zernikes fmt zs (i # is) str =
     (if i < length zs \<and> length (fmt (zs ! i)) < 25 then format_zernikes fmt zs is (str @ fmt (zs ! i)) else undef)"

definition gemini_postPcsUpdate :: "(f64 \<Rightarrow> string) \<Rightarrow> f64 list \<Rightarrow> i32 \<Rightarrow> (gemini_util facade, int) prog" where
  "gemini_postPcsUpdate fmt zernikes sz = throw_spec (throws_class GiapiException)
     (bindp GeminiUtil_Instance (\<lambda>u.
      bindp (format_zernikes fmt zernikes [0..<nat (sint sz)] []) (\<lambda>str.
      on_world (postPcsUpdate (gu_pcsUpdater u) zernikes sz))))"

definition getTcsContext :: "int \<Rightarrow> (gemini_util facade, int \<times> tcs_context option) prog" where
  "getTcsContext timeout = throw_spec (throws_class GiapiException)
     (bindp GeminiUtil_Instance (\<lambda>u. on_world (fetch (gu_tcsFetcher u) timeout)))"

definition tcsApplyOffset :: "f64 \<Rightarrow> f64 \<Rightarrow> offset_type \<Rightarrow> int \<Rightarrow> (gemini_util facade, int) prog" where
  "tcsApplyOffset x y ty timeout = throw_spec (throws_class GiapiException)
     (bindp GeminiUtil_Instance (\<lambda>u. on_world (sendOffset_wait (gu_tcsApplyOffset u) x y ty timeout)))"

definition tcsApplyOffset_callback ::
  "f64 \<Rightarrow> f64 \<Rightarrow> offset_type \<Rightarrow> int \<Rightarrow> nat option \<Rightarrow> (gemini_util facade, int \<times> offset_thread option) prog" where
  "tcsApplyOffset_callback x y ty timeout f = throw_spec (throws_class GiapiException)
     (bindp GeminiUtil_Instance (\<lambda>u. on_world (sendOffset (gu_tcsApplyOffset u) x y ty timeout f)))"

definition gemini_getChannel :: "string \<Rightarrow> int \<Rightarrow> (gemini_util facade, epics_item option) prog" where
  "gemini_getChannel name timeout = throw_spec (throws_class GiapiException)
     (bindp GeminiUtil_Instance (\<lambda>u. on_world (getChannel (gu_epicsFetcher u) name timeout)))"

subsection \<open>What the singletons share\<close>

text \<open>
  The construction needs \<open>pre\<close> of the world, and keeps it when it throws; an instance satisfies
  \<open>ok\<close> in the world it was made in and as long as that world goes on.
\<close>

definition goes_on :: "'a jms_scheme \<Rightarrow> 'b jms_scheme \<Rightarrow> bool" where
  "goes_on w w' \<longleftrightarrow> world_ok w' \<and> log_later (log w) (log w') \<and> env w' = env w \<and> suffix (sent (log w)) (sent (log w'))"

lemma goes_on_refl: "world_ok w \<Longrightarrow> goes_on w w"
  by (simp add: goes_on_def)

lemma goes_on_trans: "goes_on a b \<Longrightarrow> goes_on b c \<Longrightarrow> goes_on a c"
  by (auto simp: goes_on_def intro: log_later_trans suffix_order.trans)

lemma goes_on_calm: "calm w w' \<Longrightarrow> goes_on w w'"
  by (simp add: goes_on_def calm_def)

lemma goes_on_asked: "asked w w' \<Longrightarrow> goes_on w w'"
  by (simp add: goes_on_def asked_facts)

locale facade =
  fixes build :: "(jms, 'i) prog"
    and pre :: "jms \<Rightarrow> bool"
    and ok :: "'i \<Rightarrow> jms \<Rightarrow> bool"
    and allowed :: "exn \<Rightarrow> bool"
  assumes build_sat: "pre w \<Longrightarrow> sat (\<lambda>i w'. ok i w' \<and> goes_on w w') (\<lambda>e w'. allowed e \<and> pre w' \<and> goes_on w w') (build w)"
    and pre_ok: "pre w \<Longrightarrow> world_ok w"
    and ok_ok: "ok i w \<Longrightarrow> world_ok w"
begin

definition facade_inv :: "'i facade \<Rightarrow> bool" where
  "facade_inv s \<longleftrightarrow> (case fst s of None \<Rightarrow> pre (snd s) | Some i \<Rightarrow> ok i (snd s))"

lemma singleton_sat:
  assumes "facade_inv s"
  shows "sat (\<lambda>i t. fst t = Some i \<and> ok i (snd t) \<and> goes_on (snd s) (snd t))
    (\<lambda>e t. allowed e \<and> facade_inv t \<and> goes_on (snd s) (snd t)) (singleton build s)"
proof (cases "fst s")
  case None
  with assms build_sat [of "snd s"] show ?thesis
    by (auto simp: singleton_def facade_inv_def wp on_world_def elim!: sat_mono)
next
  case (Some i)
  with assms show ?thesis
    by (auto simp: singleton_def facade_inv_def intro: goes_on_refl ok_ok)
qed

text \<open>A call: the instance, then a program over the world that respects it.\<close>

lemma call_sat:
  assumes inv: "facade_inv s"
    and run: "\<And>i w. ok i w \<Longrightarrow> goes_on (snd s) w \<Longrightarrow>
      sat (\<lambda>r w'. ok i w' \<and> goes_on w w' \<and> Q r w w') (\<lambda>e w'. E e \<and> ok i w' \<and> goes_on w w') (m i w)"
    and allow: "\<And>e. allowed e \<Longrightarrow> C e" "\<And>e. C e \<Longrightarrow> D e" "\<And>e. E e \<Longrightarrow> D e"
  shows "sat (\<lambda>r t. facade_inv t \<and> goes_on (snd s) (snd t) \<and> (\<exists>w. goes_on (snd s) w \<and> Q r w (snd t)))
    (\<lambda>e t. D e \<and> facade_inv t \<and> goes_on (snd s) (snd t))
    (throw_spec D (bindp (throw_spec C (singleton build)) (\<lambda>i. on_world (m i))) s)"
  unfolding sat_throw_spec sat_bindp
proof (rule sat_mono [OF singleton_sat [OF inv]], goal_cases)
  case (1 i t)
  then have t: "fst t = Some i" "ok i (snd t)" "goes_on (snd s) (snd t)" by simp_all
  show ?case
    unfolding on_world_def sat_on_part
    by (rule sat_mono [OF run [OF t(2,3)]]) (use t allow in \<open>auto simp: facade_inv_def intro: goes_on_trans\<close>)
next
  case (2 e t)
  with allow show ?case by auto
qed

end

lemma ready_goes_on: "ready p d w \<Longrightarrow> goes_on w w' \<Longrightarrow> ready p d w'"
  by (auto simp: goes_on_def intro: ready_later)

text \<open>Two producers, one after the other.\<close>

lemma two_producers:
  assumes "world_ok w" and d: "d1 = Topic a \<or> d1 = Queue a" "d2 = Topic b \<or> d2 = Queue b"
  shows "sat (\<lambda>i w'. \<exists>p q. i = f p q \<and> ready p d1 w' \<and> ready q d2 w' \<and> calm w w')
    (\<lambda>e w'. throws_class CommunicationException e \<and> calm w w')
    (bindp (open_producer d1 e1) (\<lambda>p. unwind (destroy_producer p) (bindp (open_producer d2 e2) (\<lambda>q. ret (f p q)))) w)"
  unfolding sat_bindp
proof (rule sat_mono [OF open_producer_sat [OF assms(1) d(1)]], goal_cases)
  case (1 p v)
  then have v: "world_ok v" by (simp add: calm_def)
  show ?case
    unfolding sat_unwind sat_bindp
  proof (rule sat_mono [OF open_producer_sat [OF v d(2)]], goal_cases)
    case (2 e v')
    with 1 have "ready p d1 v'" "calm w v'" by (auto intro: goes_on_calm calm_trans ready_goes_on)
    with 2 show ?case by (auto intro: calm_trans sat_mono [OF destroy_producer_sat])
  qed (use 1 in \<open>auto intro: goes_on_calm calm_trans ready_goes_on\<close>)
qed simp

subsection \<open>The three facades\<close>

definition services_ok :: "services_util \<Rightarrow> jms \<Rightarrow> bool" where
  "services_ok u w \<longleftrightarrow> ready (su_producer u) (Queue (key GMP_UTIL_REQUEST_DESTINATION)) w \<and>
     ready (su_logProducer u) (Topic (key GMP_SERVICES_LOG_DESTINATION)) w"

definition data_ok :: "data_util \<Rightarrow> jms \<Rightarrow> bool" where
  "data_ok u w \<longleftrightarrow> ready (du_obsEventProducer u) (Topic (key GMP_DATA_OBSEVENT_DESTINATION)) w \<and>
     ready (du_fileEventsProducer u) (Topic (key GMP_DATA_FILEEVENT_DESTINATION)) w"

definition gemini_ok_with :: "ptr set \<Rightarrow> gemini_util \<Rightarrow> jms \<Rightarrow> bool" where
  "gemini_ok_with F u w \<longleftrightarrow> epics_inv_with F (gu_epicsMgr u, w) \<and>
     ready (gu_pcsUpdater u) (Topic (key GMP_PCS_UPDATE_DESTINATION)) w \<and>
     ready (gu_tcsFetcher u) (Topic (key GMP_TCS_CONTEXT_DESTINATION)) w \<and>
     ready (producer.truncate (gu_tcsApplyOffset u)) (Topic (key GMP_TCS_OFFSET_DESTINATION)) w \<and>
     ready (gu_epicsFetcher u) (Topic (key GMP_GEMINI_EPICS_GET_DESTINATION)) w"

definition nobody_with :: "ptr set \<Rightarrow> jms \<Rightarrow> bool" where
  "nobody_with F w \<longleftrightarrow> served_with F ({} :: epics_consumer set) w \<and> names_ok (env w)"

abbreviation gemini_ok :: "gemini_util \<Rightarrow> jms \<Rightarrow> bool" where
  "gemini_ok \<equiv> gemini_ok_with {}"

abbreviation nobody_listens :: "jms \<Rightarrow> bool" where
  "nobody_listens \<equiv> nobody_with {}"

lemmas gemini_ok_def = gemini_ok_with_def [where F = "{}"]
lemmas nobody_listens_def = nobody_with_def [where F = "{}"]

lemma ready_ok: "ready p d w \<Longrightarrow> world_ok w"
  by (simp add: ready_def)

lemma new_ServicesUtilImpl_sat:
  assumes "world_ok w"
  shows "sat (\<lambda>i w'. services_ok i w' \<and> calm w w') (\<lambda>e w'. throws_class CommunicationException e \<and> calm w w')
    (new_ServicesUtilImpl w)"
  unfolding new_ServicesUtilImpl_def new_RequestProducer_def new_JmsLogProducer_def new_JmsProducer_def sat_throw_spec
  by (rule sat_mono [OF two_producers [OF assms, where a = "key GMP_UTIL_REQUEST_DESTINATION" and b = "key GMP_SERVICES_LOG_DESTINATION"]])
    (auto simp: services_ok_def simp del: key.simps)

interpretation services: facade new_ServicesUtilImpl world_ok services_ok "throws_class CommunicationException"
  by unfold_locales (auto simp: services_ok_def intro: goes_on_calm calm_ok ready_ok elim!: sat_mono [OF new_ServicesUtilImpl_sat])

lemma new_DataUtilImpl_sat:
  assumes "world_ok w"
  shows "sat (\<lambda>i w'. data_ok i w' \<and> calm w w') (\<lambda>e w'. throws_class CommunicationException e \<and> calm w w')
    (new_DataUtilImpl w)"
  unfolding new_DataUtilImpl_def new_JmsObsEventProducer_def new_JmsFileEventsProducer_def new_JmsProducer_def sat_throw_spec
  by (rule sat_mono [OF two_producers [OF assms, where a = "key GMP_DATA_OBSEVENT_DESTINATION" and b = "key GMP_DATA_FILEEVENT_DESTINATION"]])
    (auto simp: data_ok_def simp del: key.simps)

interpretation data: facade new_DataUtilImpl world_ok data_ok "throws_class CommunicationException"
  by unfold_locales (auto simp: data_ok_def intro: goes_on_calm calm_ok ready_ok elim!: sat_mono [OF new_DataUtilImpl_sat])

text \<open>Opening producers disturbs no listener.\<close>

definition undisturbed :: "'a jms_scheme \<Rightarrow> 'b jms_scheme \<Rightarrow> bool" where
  "undisturbed w w' \<longleftrightarrow> goes_on w w' \<and> unheard (log w) (log w')"

lemma undisturbed_trans: "undisturbed a b \<Longrightarrow> undisturbed b c \<Longrightarrow> undisturbed a c"
  by (auto simp: undisturbed_def intro: goes_on_trans unheard_trans)

lemma undisturbed_facts:
  "undisturbed w w' \<Longrightarrow> world_ok w'" "undisturbed w w' \<Longrightarrow> goes_on w w'"
  "undisturbed w w' \<Longrightarrow> typed_listeners (log w) \<Longrightarrow> typed_listeners (log w')"
  by (auto simp: undisturbed_def goes_on_def intro: typed_unheard)

lemma nobody_undisturbed: "nobody_with F w \<Longrightarrow> undisturbed w w' \<Longrightarrow> nobody_with F w'"
  by (auto simp: nobody_with_def undisturbed_def goes_on_def intro: served_later)

lemma epics_undisturbed: "epics_inv_with F (m, w) \<Longrightarrow> undisturbed w w' \<Longrightarrow> epics_inv_with F (m, w')"
  by (auto simp: epics_inv_with_def undisturbed_def goes_on_def intro: served_later log_later_alive hears_later)

text \<open>What a constructor of a member promises, and the constructor of the owner after it.\<close>

definition makes :: "('p \<Rightarrow> producer) \<Rightarrow> jms_obj \<Rightarrow> jms \<Rightarrow> (jms, 'p) prog \<Rightarrow> bool" where
  "makes f d v mk \<longleftrightarrow> sat (\<lambda>p v'. ready (f p) d v' \<and> undisturbed v v')
     (\<lambda>e v'. throws_class CommunicationException e \<and> undisturbed v v') (mk v)"

lemma new_JmsProducer_makes: "world_ok v \<Longrightarrow> typed_listeners (log v) \<Longrightarrow> makes (\<lambda>p. p) (Topic n) v (new_JmsProducer n)"
  unfolding makes_def new_JmsProducer_def
  by (rule sat_mono [OF sat_conj [OF open_producer_sat open_producer_unheard]])
    (auto simp: undisturbed_def intro: goes_on_calm)

lemma ready_offset_sender: "ready (producer.truncate (producer.extend q f)) d w = ready q d w"
  by (simp add: ready_def producer.extend_def producer.truncate_def)

lemma new_JmsApplyOffset_makes:
  assumes "world_ok v" "typed_listeners (log v)"
  shows "makes producer.truncate (Topic (key GMP_TCS_OFFSET_DESTINATION)) v new_JmsApplyOffset"
  using new_JmsProducer_makes [OF assms, of "key GMP_TCS_OFFSET_DESTINATION"]
  by (auto simp: makes_def new_JmsApplyOffset_def wp ready_offset_sender simp del: key.simps elim!: sat_mono)

lemma make_then:
  assumes mk: "makes f d v mk"
    and k: "\<And>p v'. ready (f p) d v' \<Longrightarrow> undisturbed v v' \<Longrightarrow>
      sat Q (\<lambda>e v''. throws_class CommunicationException e \<and> undisturbed v' v'') (k p v')"
  shows "sat Q (\<lambda>e v'. throws_class CommunicationException e \<and> undisturbed v v') (bindp mk k v)"
  unfolding sat_bindp
  by (rule sat_mono [OF mk [unfolded makes_def]]) (auto intro: undisturbed_trans sat_mono [OF k])

lemma make_unwind:
  assumes mk: "makes f d v mk" and v: "typed_listeners (log v)"
    and k: "\<And>p v'. ready (f p) d v' \<Longrightarrow> undisturbed v v' \<Longrightarrow>
      sat Q (\<lambda>e v''. throws_class CommunicationException e \<and> undisturbed v' v'') (k p v')"
  shows "sat Q (\<lambda>e v'. throws_class CommunicationException e \<and> undisturbed v v')
    (bindp mk (\<lambda>p. unwind (destroy_producer (f p)) (k p)) v)"
proof (rule make_then [OF mk], unfold sat_unwind, rule sat_mono [OF k], assumption, assumption, assumption, goal_cases)
  case (1 p v' e v'')
  then have "ready (f p) d v''" "typed_listeners (log v'')"
    using v by (auto dest: undisturbed_facts intro: ready_goes_on)
  from destroy_producer_unheard [OF this] 1 show ?case
    by (auto simp: undisturbed_def intro: goes_on_calm goes_on_trans unheard_trans elim!: sat_mono)
qed

interpretation gemini: facade new_GeminiUtilImpl "nobody_with F" "gemini_ok_with F" "throws_class GiapiException" for F
proof (unfold_locales, goal_cases)
  case nobody: (1 w)
  then have w: "served_with F ({} :: epics_consumer set) w" "names_ok (env w)" "typed_listeners (log w)"
    by (simp_all add: nobody_with_def served_with_def)
  have asked_und: "undisturbed w v" if "asked w v" for v
    using that by (simp add: undisturbed_def goes_on_asked asked_facts)
  have typed: "typed_listeners (log v')" "world_ok v'" if "typed_listeners (log v)" "undisturbed v v'" for v v' :: jms
    using that by (auto intro: undisturbed_facts)
  have step: "sat Q (\<lambda>e v'. throws_class CommunicationException e \<and> undisturbed v v')
      (bindp (new_JmsProducer n) (\<lambda>p. unwind (destroy_producer p) (k p)) v)"
    if v: "world_ok v" "typed_listeners (log v)" and k: "\<And>p v'. ready p (Topic n) v' \<Longrightarrow> undisturbed v v' \<Longrightarrow>
        sat Q (\<lambda>e v''. throws_class CommunicationException e \<and> undisturbed v' v'') (k p v')"
    for v n and Q :: "gemini_util \<Rightarrow> jms \<Rightarrow> bool" and k
    by (rule make_unwind [where f = "\<lambda>p. p", OF new_JmsProducer_makes [OF v] v(2) k])
  have members: "sat (\<lambda>i v'. gemini_ok_with F i v' \<and> goes_on v v') (\<lambda>e v'. throws_class CommunicationException e \<and> undisturbed v v')
      (bindp (new_JmsProducer (key GMP_PCS_UPDATE_DESTINATION)) (\<lambda>p. unwind (destroy_producer p)
      (bindp (new_JmsProducer (key GMP_TCS_CONTEXT_DESTINATION)) (\<lambda>t. unwind (destroy_producer t)
      (bindp new_JmsApplyOffset (\<lambda>a. unwind (destroy_producer (producer.truncate a))
      (bindp (new_JmsProducer (key GMP_GEMINI_EPICS_GET_DESTINATION)) (\<lambda>f.
       ret \<lparr>gu_epicsMgr = m, gu_pcsUpdater = p, gu_tcsFetcher = t, gu_tcsApplyOffset = a, gu_epicsFetcher = f\<rparr>))))))) v)"
    if v: "world_ok v" "typed_listeners (log v)" "epics_inv_with F (m, v)" for m v
  proof (rule step [OF v(1,2)], goal_cases)
    case (1 p v1)
    then have v1: "world_ok v1" "typed_listeners (log v1)" using typed [OF v(2)] by blast+
    show ?case
    proof (rule step [OF v1], goal_cases)
      case (1 t v2)
      then have v2: "world_ok v2" "typed_listeners (log v2)" using typed [OF v1(2)] by blast+
      show ?case
      proof (rule make_unwind [OF new_JmsApplyOffset_makes [OF v2] v2(2)], goal_cases)
        case (1 a v3)
        then have v3: "world_ok v3" "typed_listeners (log v3)" using typed [OF v2(2)] by blast+
        show ?case
        proof (rule make_then [OF new_JmsProducer_makes [OF v3]], goal_cases)
          case (1 f v4)
          note und = \<open>undisturbed v v1\<close> \<open>undisturbed v1 v2\<close> \<open>undisturbed v2 v3\<close> \<open>undisturbed v3 v4\<close>
          then have later: "undisturbed v v4" "undisturbed v1 v4" "undisturbed v2 v4"
            by (blast intro: undisturbed_trans)+
          note on = later [THEN undisturbed_facts(2)] und(4) [THEN undisturbed_facts(2)]
          show ?case
            using 1(1) on ready_goes_on [OF \<open>ready p _ v1\<close> on(2)] ready_goes_on [OF \<open>ready t _ v2\<close> on(3)]
              ready_goes_on [OF \<open>ready (producer.truncate a) _ v3\<close> on(4)] epics_undisturbed [OF v(3) later(1)]
            by (simp add: gemini_ok_with_def del: key.simps)
        qed
      qed
    qed
  qed
  show ?case
    unfolding new_GeminiUtilImpl_def new_JmsPcsUpdater_def new_JmsTcsFetcher_def new_JmsEpicsFetcher_def
      sat_throw_spec sat_bindp [of _ _ new_JmsEpicsManager]
  proof (rule sat_mono [OF new_JmsEpicsManager_sat [OF w(1,2)]], goal_cases)
    case (1 m v)
    then have und: "undisturbed w v" and m: "epics_inv_with F (m, v)" by (simp_all add: asked_und)
    note v = typed(2,1) [OF w(3) und]
    show ?case
      by (rule sat_mono [OF members [OF v m]])
        (use und 1 nobody in \<open>auto dest: undisturbed_trans [OF und] undisturbed_facts(2)
          intro: goes_on_trans nobody_undisturbed throws_giapi\<close>)
  next
    case (2 e v)
    then have "undisturbed w v" by (simp add: asked_und)
    with nobody 2 show ?case by (auto intro: nobody_undisturbed undisturbed_facts throws_giapi)
  qed
qed (auto simp: gemini_ok_with_def nobody_with_def served_with_def dest: ready_ok)

end
