(* ===== verification/Facade_Histories.thy ===== *)
theory Facade_Histories
  imports Facades
begin

section \<open>Histories of calls through the facades\<close>

text \<open>
  What an application sees that calls \<open>ServicesUtil\<close>, \<open>DataUtil\<close> or \<open>GeminiUtil\<close> again and again, from
  the start of the program.
\<close>

subsection \<open>Facades that post\<close>

text \<open>
  The contract of a facade all of whose calls post at most one message: what a call sends, if
  anything, and what it returns depend on its arguments alone.
\<close>

fun routed :: "(jms_obj \<times> jms_obj \<times> put list) option \<Rightarrow> jms \<Rightarrow> jms \<Rightarrow> bool" where
  "routed None w w' = calm w w'"
| "routed (Some (d, kind, xs)) w w' = delivered d kind xs w w'"

lemma message_cases: obtains "m = None" | d kind xs where "m = Some (d, kind, xs)"
  by (cases m) auto

definition as_sent :: "jms_obj \<times> jms_obj \<times> put list \<Rightarrow> jms_obj option \<times> jms_obj option \<times> put list" where
  "as_sent m = (Some (fst m), Some (fst (snd m)), snd (snd m))"

lemma calm_routed: "calm w v \<Longrightarrow> routed m v w' \<Longrightarrow> routed m w w'"
  by (cases m rule: message_cases) (auto simp: calm_def delivered_def intro: log_later_trans)

lemma routed_effect: "routed (map_option (Pair d) m) w w' \<longleftrightarrow> post_effect d m w w'"
  by (cases m) auto

lemma routed_goes_on: "routed m w w' \<Longrightarrow> goes_on w w'"
  by (cases m rule: message_cases) (auto simp: goes_on_def calm_def delivered_def suffix_Cons)

locale posting_facade = facade build pre ok allowed
  for build :: "(jms, 'i) prog" and pre :: "jms \<Rightarrow> bool" and ok :: "'i \<Rightarrow> jms \<Rightarrow> bool" and allowed :: "exn \<Rightarrow> bool" +
  fixes step :: "'c \<Rightarrow> ('i facade, 'r) prog"
    and post :: "'i \<Rightarrow> 'c \<Rightarrow> (jms, 'r) prog"
    and message :: "'c \<Rightarrow> (jms_obj \<times> jms_obj \<times> put list) option"
    and code :: "'c \<Rightarrow> 'r"
    and visible :: "exn \<Rightarrow> bool"
  assumes step_eq: "step c = throw_spec visible (bindp (throw_spec allowed (singleton build)) (\<lambda>i. on_world (post i c)))"
    and build_calm: "pre w \<Longrightarrow> sat (\<lambda>i w'. ok i w' \<and> calm w w') (\<lambda>e w'. allowed e \<and> pre w' \<and> calm w w') (build w)"
    and post_sat: "ok i w \<Longrightarrow> sat (\<lambda>r w'. r = code c \<and> ok i w' \<and> routed (message c) w w')
        (\<lambda>e w'. allowed e \<and> ok i w' \<and> calm w w') (post i c w)"
    and allowed_visible: "allowed e \<Longrightarrow> visible e"
begin

lemma singleton_calm:
  assumes "facade_inv s"
  shows "sat (\<lambda>i t. fst t = Some i \<and> ok i (snd t) \<and> calm (snd s) (snd t))
    (\<lambda>e t. allowed e \<and> facade_inv t \<and> calm (snd s) (snd t)) (singleton build s)"
proof (cases "fst s")
  case None
  with assms build_calm [of "snd s"] show ?thesis
    by (auto simp: singleton_def facade_inv_def wp on_world_def elim!: sat_mono)
next
  case (Some i)
  with assms show ?thesis
    by (auto simp: singleton_def facade_inv_def intro: calm_refl ok_ok)
qed

lemma step_sat:
  assumes "facade_inv s"
  shows "sat (\<lambda>r t. r = code c \<and> facade_inv t \<and> routed (message c) (snd s) (snd t))
    (\<lambda>e t. visible e \<and> facade_inv t \<and> calm (snd s) (snd t)) (step c s)"
  unfolding step_eq sat_throw_spec sat_bindp
proof (rule sat_mono [OF singleton_calm [OF assms]], goal_cases)
  case (1 i t)
  then have t: "fst t = Some i" "ok i (snd t)" "calm (snd s) (snd t)" by simp_all
  show ?case
    unfolding on_world_def sat_on_part
    by (rule sat_mono [OF post_sat [OF t(2), of c]])
      (use t in \<open>auto simp: facade_inv_def intro: calm_trans calm_routed allowed_visible\<close>)
qed (auto intro: allowed_visible)

lemma history:
  assumes "facade_inv s"
  shows "sat (\<lambda>rs t. facade_inv t \<and> length rs = length cs \<and> list_all (expected visible) rs \<and>
      list_all2 (\<lambda>c r. \<forall>x. r = Val x \<longrightarrow> x = code c) cs rs \<and> raw_at (log (snd t)) = raw_at (log (snd s)) \<and>
      sent (log (snd t)) = rev (map as_sent (posted message cs rs)) @ sent (log (snd s))) (\<lambda>_ _. False)
    (run_calls step cs s)"
  using assms
proof (induction cs arbitrary: s)
  case Nil
  then show ?case by simp
next
  case (Cons c cs)
  from step_sat [OF Cons.prems, of c] show ?case
  proof (cases "step c s" rule: res_cases)
    case (1 x t)
    with step_sat [OF Cons.prems, of c] have "x = code c" "facade_inv t" "routed (message c) (snd s) (snd t)" by simp_all
    with Cons.IH [OF this(2)] show ?thesis
      by (cases "message c" rule: message_cases) (auto simp: 1 wp calm_def delivered_def as_sent_def elim!: sat_mono)
  next
    case (2 e t)
    with step_sat [OF Cons.prems, of c] have "visible e" "facade_inv t" "calm (snd s) (snd t)" by simp_all
    with Cons.IH [OF this(2)] show ?thesis
      by (auto simp: 2 wp calm_def elim!: sat_mono)
  qed simp_all
qed

end

lemma on_world_throw: "throw_spec C (on_world m) = on_world (throw_spec C m)"
  by (rule ext) (auto simp: on_world_def on_part_def throw_spec_def split: prod.split res.split)

subsection \<open>Histories of DataUtil\<close>

datatype data_call = ObservationEvent observation_event string | FileEvent file_call

fun data_step :: "data_call \<Rightarrow> (data_util facade, int) prog" where
  "data_step (ObservationEvent event datalabel) = postObservationEvent event datalabel"
| "data_step (FileEvent (AncillaryFile filename datalabel)) = data_postAncillaryFileEvent filename datalabel"
| "data_step (FileEvent (IntermediateFile filename datalabel hint)) = data_postIntermediateFileEvent filename datalabel hint"

fun data_post :: "data_util \<Rightarrow> data_call \<Rightarrow> (jms, int) prog" where
  "data_post u (ObservationEvent event datalabel) = throw_spec (throws_class CommunicationException) (postEvent (du_obsEventProducer u) event datalabel)"
| "data_post u (FileEvent c) = throw_spec (throws_class CommunicationException) (post_file (du_fileEventsProducer u) c)"

text \<open>What a call sends, and where: nothing when a name is blank.\<close>

fun data_message :: "data_call \<Rightarrow> (jms_obj \<times> jms_obj \<times> put list) option" where
  "data_message (ObservationEvent event datalabel) =
     map_option (Pair (Topic (key GMP_DATA_OBSEVENT_DESTINATION))) (event_message (event, datalabel))"
| "data_message (FileEvent c) = map_option (Pair (Topic (key GMP_DATA_FILEEVENT_DESTINATION))) (file_message c)"

lemma data_ok_routed: "data_ok u w \<Longrightarrow> routed m w w' \<Longrightarrow> data_ok u w'"
  by (auto simp: data_ok_def dest: routed_goes_on intro: ready_goes_on)

lemma data_post_sat:
  assumes "data_ok u w"
  shows "sat (\<lambda>r w'. r = post_code (data_message c) \<and> data_ok u w' \<and> routed (data_message c) w w')
    (\<lambda>e w'. throws_class CommunicationException e \<and> data_ok u w' \<and> calm w w') (data_post u c w)"
proof (cases c)
  case (ObservationEvent event datalabel)
  have "ready (du_obsEventProducer u) (Topic (key GMP_DATA_OBSEVENT_DESTINATION)) w"
    using assms by (simp add: data_ok_def)
  from postEvent_sat [OF this] show ?thesis
    unfolding ObservationEvent data_post.simps sat_throw_spec
    by (rule sat_mono) (use assms in \<open>auto simp: post_code_def routed_effect simp del: key.simps event_message.simps
      intro: data_ok_routed [of _ _ "map_option (Pair _) _"] data_ok_routed [where m = None]\<close>)
next
  case (FileEvent f)
  have "ready (du_fileEventsProducer u) (Topic (key GMP_DATA_FILEEVENT_DESTINATION)) w"
    using assms by (simp add: data_ok_def)
  from post_file_sat [OF this] show ?thesis
    unfolding FileEvent data_post.simps sat_throw_spec
    by (rule sat_mono) (use assms in \<open>auto simp: post_code_def routed_effect simp del: key.simps file_message.simps
      intro: data_ok_routed [of _ _ "map_option (Pair _) _"] data_ok_routed [where m = None]\<close>)
qed

interpretation data_calls: posting_facade new_DataUtilImpl world_ok data_ok "throws_class CommunicationException"
  data_step data_post data_message "\<lambda>c. post_code (data_message c)" "throws_class GiapiException"
proof (unfold_locales, goal_cases)
  case (1 c)
  show ?case
    by (cases c rule: data_step.cases) (simp_all add: postObservationEvent_def data_postAncillaryFileEvent_def
      data_postIntermediateFileEvent_def impl_postObservationEvent_def impl_postAncillaryFileEvent_def
      impl_postIntermediateFileEvent_def DataUtil_Instance_def on_world_throw)
next
  case (2 w)
  then show ?case by (auto intro: calm_ok elim!: sat_mono [OF new_DataUtilImpl_sat])
next
  case (3 i w c)
  then show ?case by (rule data_post_sat)
qed (rule throws_giapi)

subsection \<open>Histories of ServicesUtil\<close>

datatype services_call =
    SystemLog log_level string
  | ObservatoryTime "timeval option"
  | GetProperty string int

datatype services_result = Logged | ServiceTime int | PropertyValue string

fun services_step :: "services_call \<Rightarrow> (services_util facade, services_result) prog" where
  "services_step (SystemLog level line) = bindp (systemLog level line) (\<lambda>_. ret Logged)"
| "services_step (ObservatoryTime now) = bindp (getObservatoryTime now) (\<lambda>t. ret (ServiceTime t))"
| "services_step (GetProperty k timeout) = bindp (services_getProperty k timeout) (\<lambda>v. ret (PropertyValue v))"

text \<open>The replies the code relies on: nothing fails after a request was sent, and the reply for a property is a text.\<close>

definition replies_ok :: "environment \<Rightarrow> bool" where
  "replies_ok en \<longleftrightarrow> late_ok en \<and> (\<forall>k h. request_puts h = property_puts k \<longrightarrow> arrives en h = None \<or> arrives en h = Some IsText)"

definition services_inv :: "services_util facade \<Rightarrow> bool" where
  "services_inv s \<longleftrightarrow> services.facade_inv s \<and> replies_ok (env (snd s))"

lemma services_call_sat:
  assumes inv: "services_inv s"
    and run: "\<And>i w. services_ok i w \<Longrightarrow> replies_ok (env w) \<Longrightarrow>
      sat (\<lambda>r w'. goes_on w w') (\<lambda>e w'. throws_class GiapiException e \<and> goes_on w w') (m i w)"
  shows "sat (\<lambda>r t. services_inv t \<and> goes_on (snd s) (snd t))
    (\<lambda>e t. throws_class GiapiException e \<and> services_inv t \<and> goes_on (snd s) (snd t))
    (throw_spec (throws_class GiapiException) (bindp ServicesUtil_Instance (\<lambda>i. on_world (m i))) s)"
proof -
  have env: "env (snd t) = env (snd s)" if "goes_on (snd s) (snd t)" for t :: "services_util facade"
    using that by (simp add: goes_on_def)
  have keep: "services_ok i w \<Longrightarrow> goes_on w w' \<Longrightarrow> services_ok i w'" for i w w'
    by (auto simp: services_ok_def intro: ready_goes_on)
  have run': "sat (\<lambda>r w'. services_ok i w' \<and> goes_on w w' \<and> True)
      (\<lambda>e w'. throws_class GiapiException e \<and> services_ok i w' \<and> goes_on w w') (m i w)"
    if "services_ok i w" "goes_on (snd s) w" for i w
    by (rule sat_mono [OF run [OF that(1)]]) (use that inv in \<open>auto simp: services_inv_def goes_on_def [of "snd s"] intro: keep\<close>)
  have "sat (\<lambda>r t. services.facade_inv t \<and> goes_on (snd s) (snd t) \<and> (\<exists>w :: jms. goes_on (snd s) w \<and> True))
      (\<lambda>e t. throws_class GiapiException e \<and> services.facade_inv t \<and> goes_on (snd s) (snd t))
      (throw_spec (throws_class GiapiException) (bindp ServicesUtil_Instance (\<lambda>i. on_world (m i))) s)"
    unfolding ServicesUtil_Instance_def
    by (rule services.call_sat [where Q = "\<lambda>_ _ _. True" and m = m and E = "throws_class GiapiException", OF _ run'])
      (use inv in \<open>auto simp: services_inv_def intro: throws_giapi\<close>)
  then show ?thesis
    by (rule sat_mono) (use inv in \<open>auto simp: services_inv_def env\<close>)
qed

lemma goes_on_effect: "post_effect d m w w' \<Longrightarrow> goes_on w w'"
  by (cases m) (auto simp: goes_on_def calm_def delivered_def suffix_Cons)

lemma on_world_ret: "on_world (ret x) = ret x"
  by (rule ext) (simp add: on_world_def on_part_def)

lemma services_step_sat:
  assumes inv: "services_inv s"
  shows "sat (\<lambda>r t. services_inv t \<and> goes_on (snd s) (snd t))
    (\<lambda>e t. throws_class GiapiException e \<and> services_inv t \<and> goes_on (snd s) (snd t)) (services_step c s)"
proof (cases c)
  case (SystemLog level line)
  have "sat (\<lambda>r w'. goes_on w w') (\<lambda>e w'. throws_class GiapiException e \<and> goes_on w w')
      (throw_spec (throws_class CommunicationException) (postLog (su_logProducer i) level line) w)"
    if "services_ok i w" for i w
    unfolding sat_throw_spec
    by (rule sat_mono [OF postLog_sat [where d = "Topic (key GMP_SERVICES_LOG_DESTINATION)"]])
      (use that in \<open>auto simp: services_ok_def simp del: key.simps
        intro: throws_giapi goes_on_effect goes_on_calm\<close>)
  from services_call_sat [OF inv this] show ?thesis
    unfolding SystemLog services_step.simps systemLog_def impl_systemLog_def on_world_throw
    by (simp add: sat_bindp [of _ _ "throw_spec _ _"])
next
  case (ObservatoryTime now)
  have "sat (\<lambda>r w'. goes_on w w') (\<lambda>e w'. throws_class GiapiException e \<and> goes_on w w')
      (ret (impl_getObservatoryTime now) w)" if "services_ok i w" for i w
    using that by (auto simp: services_ok_def dest: ready_ok intro: goes_on_refl)
  from services_call_sat [OF inv this] show ?thesis
    unfolding ObservatoryTime services_step.simps getObservatoryTime_def on_world_ret
    by (simp add: sat_bindp [of _ _ "throw_spec _ _"])
next
  case (GetProperty k timeout)
  have "sat (\<lambda>r w'. goes_on w w') (\<lambda>e w'. throws_class GiapiException e \<and> goes_on w w')
      (throw_spec (\<lambda>e. throws_class CommunicationException e \<or> throws_class TimeoutException e)
        (getProperty (su_producer i) k timeout) w)"
    if "services_ok i w" "replies_ok (env w)" for i w
    unfolding sat_throw_spec
    by (rule sat_mono [OF getProperty_sat [where d = "Queue (key GMP_UTIL_REQUEST_DESTINATION)"]])
      (use that in \<open>auto simp: services_ok_def replies_ok_def goes_on_def delivered_def abandoned_def suffix_Cons
        intro: throws_giapi throws_timeout throws_post simp del: key.simps\<close>)
  from services_call_sat [OF inv this] show ?thesis
    unfolding GetProperty services_step.simps services_getProperty_def impl_getProperty_def on_world_throw
    by (simp add: sat_bindp [of _ _ "throw_spec _ _"])
qed

definition services_later :: "services_util facade \<Rightarrow> services_util facade \<Rightarrow> bool" where
  "services_later s t \<longleftrightarrow> log_later (log (snd s)) (log (snd t)) \<and> suffix (sent (log (snd s))) (sent (log (snd t)))"

interpretation services_calls: safe_machine services_step services_inv services_later "throws_class GiapiException"
proof (unfold_locales, goal_cases)
  case (1 s c)
  then show ?case
    by (rule sat_mono [OF services_step_sat]) (auto simp: services_later_def goes_on_def)
qed (auto simp: services_later_def intro: log_later_trans suffix_order.trans)

text \<open>A fact about single calls, in whatever state, is a fact about the outcomes of a history.\<close>

lemma run_calls_each:
  assumes "\<And>c s. P c (fst (step c s))" and "run_calls step cs s = (Val rs, s')"
  shows "list_all2 P cs rs"
  using assms(2)
proof (induction cs arbitrary: s rs)
  case Nil
  then show ?case by simp
next
  case (Cons c cs)
  have P: "P c (fst (step c s))" by (rule assms(1))
  show ?case
  proof (cases "step c s" rule: res_cases)
    case (1 x t)
    then show ?thesis using Cons P by (cases "run_calls step cs t" rule: res_cases) (auto simp: bindp_def)
  next
    case (2 e t)
    then show ?thesis using Cons P by (cases "run_calls step cs t" rule: res_cases) (auto simp: bindp_def)
  qed (use Cons in auto)
qed

text \<open>The observatory time, in milliseconds rounded down, or 0 when there is no clock.\<close>

definition right_time :: "services_call \<Rightarrow> services_result res \<Rightarrow> bool" where
  "right_time c r \<longleftrightarrow> (case c of
     ObservatoryTime None \<Rightarrow> (\<forall>x. r = Val x \<longrightarrow> x = ServiceTime 0)
   | ObservatoryTime (Some tv) \<Rightarrow> tv_normal tv \<longrightarrow> (\<forall>x. r = Val x \<longrightarrow> x = ServiceTime ((tv_sec tv * 1000000 + tv_usec tv) div 1000))
   | _ \<Rightarrow> True)"

lemma services_step_time: "right_time c (fst (services_step c s))"
proof (cases c)
  case (ObservatoryTime now)
  show ?thesis
    by (cases "ServicesUtil_Instance s" rule: res_cases)
      (auto simp: right_time_def ObservatoryTime getObservatoryTime_def throw_spec_def bindp_def impl_getObservatoryTime_def
        tv_millis_floor split: option.split)
qed (simp_all add: right_time_def)

end
