(* ===== verification/Gemini_Correct.thy ===== *)
theory Gemini_Correct
  imports Facade_Histories
begin

section \<open>EPICS channels, offsets and services\<close>

text \<open>The properties of the items and updates of EPICS channels, of the offsets and of the facades.\<close>

subsection \<open>Updates\<close>

text \<open>
  C34. An update of strings arrives: the handler of the channel is called once, with an item of the
  name in the message whose elements are the strings of the message, each as far as its first NUL;
  an index that is out of range is an \<open>InvalidOperation\<close>.
\<close>

theorem string_updates_arrive:
  assumes "world_ok w" and "alive (log w) m" and "carries_strings (env w) name vals"
    and "length vals < 2 ^ 31" and "length (c_block vals) < 2 ^ 31" and "\<And>h i. code h i = None"
  shows "sat (\<lambda>_ w'. \<exists>it. channel_changes w' = channel_changes w @ [(ec_handler c, Some it)] \<and> ei_getName it = name \<and>
        (\<forall>i. getDataAsString i it = element (map c_string vals) i it)) (\<lambda>_ _. False)
     (epics_onMessage code c m IsBytes w)"
proof -
  have more: "channel_changes v = channel_changes w" if "quiet w v" for v
    using that by (cases v; cases w) (simp add: quiet_def)
  show ?thesis
    unfolding epics_onMessage_def sat_throw_spec
    by (simp add: sat_bindp, rule sat_mono [OF buildEpicsStatusItem_strings [OF assms(1-5)]])
      (use assms(6) in \<open>auto simp: channelChanged_def wp more ei_getName_def getDataAsString_block\<close>)
qed

definition modes_env :: environment where
  "modes_env = quiet_env
     \<lparr>in_int := \<lambda>h. case h of ReadInt p # ReadUTF q # t \<Rightarrow> 2 | _ \<Rightarrow> 0,
      in_text := \<lambda>h. case h of ReadUTF p # t \<Rightarrow> [''gpi:mode'', ''ON'', ''OFF''] ! utf_reads p t | _ \<Rightarrow> []\<rparr>"

definition one_message :: "environment \<Rightarrow> epics_client" where
  "one_message en = \<lparr>env = en, log = [(Create 0 BytesMessage SharedPtr, True), (CreateFactory [] SharedPtr, True)],
     conn = None, msg = None, channel_changes = []\<rparr>"

definition mode_consumer :: epics_consumer where
  "mode_consumer = \<lparr>c_session = 0, c_consumer = 0, ec_channel = ''gpi:mode'', ec_handler = 3\<rparr>"

lemma one_message_ok: "world_ok (one_message en)" "alive (log (one_message en)) 1" "env (one_message en) = en"
  by (simp_all add: one_message_def world_ok_def alive_def)

lemma modes_env_carries: "carries_strings modes_env ''gpi:mode'' [''ON'', ''OFF'']"
  by (simp add: carries_strings_def announces_def modes_env_def quiet_env_def)

lemma string_updates_arrive_witness:
  "sat (\<lambda>_ w'. \<exists>it. channel_changes w' = [(3, Some it)] \<and> getDataAsString 1 it = (Val ''OFF'', it)) (\<lambda>_ _. False)
     (epics_onMessage (\<lambda>h i. None) mode_consumer 1 IsBytes (one_message modes_env))"
proof -
  have c: "carries_strings (env (one_message modes_env)) ''gpi:mode'' [''ON'', ''OFF'']"
    by (simp only: one_message_ok modes_env_carries)
  have "sat (\<lambda>_ w'. \<exists>it. channel_changes w' = channel_changes (one_message modes_env) @ [(ec_handler mode_consumer, Some it)] \<and>
      ei_getName it = ''gpi:mode'' \<and> (\<forall>i. getDataAsString i it = element (map c_string [''ON'', ''OFF'']) i it)) (\<lambda>_ _. False)
     (epics_onMessage (\<lambda>h i. None) mode_consumer 1 IsBytes (one_message modes_env))"
    by (rule string_updates_arrive [OF one_message_ok(1,2) c]) (simp_all add: c_string_def chars_of_def)
  then show ?thesis
    by (rule sat_mono) (auto simp: one_message_def mode_consumer_def element_def c_string_def)
qed




text \<open>
  C36. An update of one or more numbers of type \<open>short\<close>, \<open>int\<close>, \<open>float\<close> or \<open>double\<close> never becomes an
  item, whatever the library does: the builder copies the numbers into a buffer that has a byte for
  each, and overruns it. No handler sees such an update and no fetch delivers one.
\<close>

theorem numeric_updates_overflow:
  assumes "announces (env w) t n" and "kind_of (ucast t) = Some k" and "numeric k" and "0 < sint n"
  shows "fst (buildEpicsStatusItem m w) \<noteq> Val (Some it)"
  using buildEpicsStatusItem_overflow [OF assms, of m] by (cases "buildEpicsStatusItem m w" rule: res_cases) auto

definition doubles_env :: environment where
  "doubles_env = quiet_env\<lparr>in_int := \<lambda>h. case h of ReadByte p # t \<Rightarrow> 6 | _ \<Rightarrow> 1\<rparr>"

lemma numeric_updates_overflow_witness:
  "(\<forall>it. fst (buildEpicsStatusItem 1 (one_message doubles_env)) \<noteq> Val (Some it)) \<and>
   fst (buildEpicsStatusItem 1 (one_message doubles_env)) = Undef"
proof
  have "announces (env (one_message doubles_env)) 6 1"
    by (simp add: announces_def one_message_def doubles_env_def)
  then show "\<forall>it. fst (buildEpicsStatusItem 1 (one_message doubles_env)) \<noteq> Val (Some it)"
    by (intro allI, rule numeric_updates_overflow [where k = DoubleBuilder]) (simp_all add: kind_of_def)
  show "fst (buildEpicsStatusItem 1 (one_message doubles_env)) = Undef"
    by code_simp
qed

subsection \<open>Subscriptions to channels\<close>

text \<open>
  C37. From the construction of the manager on, every history of subscriptions and cancellations
  returns or throws GIAPI exceptions only, and afterwards exactly the consumers in the map listen,
  each to the topic of its channel, and every channel in the map is authorized. The messaging
  library may do what it likes, as long as the reply with the channels is a map that can be read.
\<close>

theorem channel_history:
  assumes "names_ok en"
  shows "sat (\<lambda>m w. sat (\<lambda>rs t. length rs = length cs \<and> list_all (expected (throws_class GiapiException)) rs \<and>
          set (listening (log (snd t))) = c_consumer ` ran (em_consumers (fst t)) \<and>
          (\<forall>ch c. em_consumers (fst t) ch = Some c \<longrightarrow> hasChannel ch (fst t) \<and>
             hears c (getEpicsChannelTopic ch) None (log (snd t)))) (\<lambda>_ _. False)
        (run_calls epics_step cs (m, w)))
     (\<lambda>e w. throws_class CommunicationException e \<and> listening (log w) = []) (new_JmsEpicsManager (start en))"
proof -
  have "served ({} :: epics_consumer set) (start en)" "names_ok (env (start en))"
    using assms by (simp_all add: served_def typed_listeners_def start_def world_ok_def)
  from new_JmsEpicsManager_sat [OF this] show ?thesis
  proof (rule sat_mono, goal_cases)
    case (1 m w)
    then have "epics_inv (m, w)" by simp
    from channels.run_safe [OF this, of cs] show ?case
      by (rule sat_mono) (auto simp: epics_inv_def served_def hasChannel_def)
  next
    case (2 e w)
    then show ?case by (auto simp: asked_def unheard_def start_def)
  qed
qed

lemma channel_history_witness:
  "sat (\<lambda>m w. sat (\<lambda>rs t. length rs = 3 \<and> list_all (expected (throws_class GiapiException)) rs) (\<lambda>_ _. False)
        (run_calls epics_step [Subscribe ''tcs:az'' 1, Subscribe ''tcs:el'' 2, Unsubscribe ''tcs:az''] (m, w)))
     (\<lambda>e w. throws_class CommunicationException e)
     (new_JmsEpicsManager (start (quiet_env\<lparr>arrives := \<lambda>h. Some IsMap, in_names := \<lambda>h. [''tcs:az'']\<rparr>)))"
  by (rule sat_mono [OF channel_history [where cs = "[Subscribe ''tcs:az'' 1, Subscribe ''tcs:el'' 2, Unsubscribe ''tcs:az'']"]])
    (auto simp: names_ok_def quiet_env_def elim!: sat_mono)

subsection \<open>Offsets\<close>





subsection \<open>Services\<close>



end
