(* ===== verification/Gemini_Histories.thy ===== *)
theory Gemini_Histories
  imports Facade_Histories
begin

section \<open>Histories of GeminiUtil\<close>

text \<open>
  Every call of \<open>GeminiUtil\<close>, from the start of the program, in an environment whose answers can be
  used: what the code needs of the answers is stated call by call, and nothing is asked of calls
  that come before a request is sent.
\<close>

subsection \<open>Programs that close new objects only\<close>

text \<open>
  A program that silences no listener of the log \<open>b\<close>, by its form: it sets no listener, and what it
  closes was made after \<open>b\<close>. The predicate describes the values it may return.
\<close>

definition hushed :: "jms_log \<Rightarrow> ('a jms_scheme, 'r) prog \<Rightarrow> ('r \<Rightarrow> bool) \<Rightarrow> bool" where
  "hushed b m P \<longleftrightarrow> (\<forall>w. unheard b (log w) \<longrightarrow> unheard b (log (snd (m w))) \<and> (\<forall>x. fst (m w) = Val x \<longrightarrow> P x))"

named_theorems hush_intros "programs that close new objects only"

lemma hushed_mutes: "mutes m \<Longrightarrow> hushed b m (\<lambda>_. True)"
  by (auto simp: hushed_def mutes_def intro: unheard_trans)

lemma hushed_bindp [hush_intros]:
  assumes "hushed b m P" and "\<And>x. P x \<Longrightarrow> hushed b (f x) Q"
  shows "hushed b (bindp m f) Q"
  unfolding hushed_def
proof (intro allI impI)
  fix w :: "'a jms_scheme" assume "unheard b (log w)"
  with assms(1) have "unheard b (log (snd (m w)))" "\<And>x. fst (m w) = Val x \<Longrightarrow> P x" by (auto simp: hushed_def)
  with assms(2) show "unheard b (log (snd (bindp m f w))) \<and> (\<forall>x. fst (bindp m f w) = Val x \<longrightarrow> Q x)"
    by (cases "m w" rule: res_cases) (auto simp: bindp_def hushed_def)
qed

lemma hushed_thenp [hush_intros]: "hushed b m P \<Longrightarrow> hushed b k Q \<Longrightarrow> hushed b (thenp m k) Q"
  by (simp add: thenp_def hushed_bindp)

lemma hushed_catchp [hush_intros]:
  assumes "hushed b m P" and "\<And>e. hushed b (h e) P"
  shows "hushed b (catchp m C h) P"
  unfolding hushed_def
proof (intro allI impI)
  fix w :: "'a jms_scheme" assume "unheard b (log w)"
  with assms(1) have "unheard b (log (snd (m w)))" "\<And>x. fst (m w) = Val x \<Longrightarrow> P x" by (auto simp: hushed_def)
  with assms(2) show "unheard b (log (snd (catchp m C h w))) \<and> (\<forall>x. fst (catchp m C h w) = Val x \<longrightarrow> P x)"
    by (cases "m w" rule: res_cases) (auto simp: catchp_def hushed_def)
qed

lemma hushed_throw_spec [hush_intros]: "hushed b m P \<Longrightarrow> hushed b (throw_spec C m) P"
  unfolding hushed_def
proof (intro allI impI)
  fix w :: "'a jms_scheme"
  assume m: "\<forall>w. unheard b (log w) \<longrightarrow> unheard b (log (snd (m w))) \<and> (\<forall>x. fst (m w) = Val x \<longrightarrow> P x)"
    and "unheard b (log w)"
  then have "unheard b (log (snd (m w)))" "\<And>x. fst (m w) = Val x \<Longrightarrow> P x" by auto
  then show "unheard b (log (snd (throw_spec C m w))) \<and> (\<forall>x. fst (throw_spec C m w) = Val x \<longrightarrow> P x)"
    by (cases "m w" rule: res_cases) (auto simp: throw_spec_def)
qed

lemma hushed_new [hush_intros]: "hushed b (jnew s ob h) (\<lambda>p. length b \<le> p)"
  by (auto simp: hushed_def jnew_def jcall_def unheard_call thenp_def bindp_def unheard_def dest: suffix_length_le
      split: option.splits if_splits intro: unheard_call suffix_ConsI)

lemma hushed_close:
  assumes "typed_listeners b" and "length b \<le> p"
  shows "hushed b (jcall (CloseObj p)) (\<lambda>_. True)"
  using unheard_close [OF assms(1)] assms(2) by (auto simp: hushed_def jcall_def split: option.split)

lemma hushed_calls [hush_intros]:
  "hushed b (jput m x) (\<lambda>_. True)" "hushed b (jputs m xs) (\<lambda>_. True)" "hushed b (jdelete p) (\<lambda>_. True)"
  "hushed b (send pr m) (\<lambda>_. True)" "hushed b (set_msg q) (\<lambda>_. True)" "hushed b delete_msg (\<lambda>_. True)"
  "hushed b (throw e) P" "hushed b (jcall (SetReplyTo m p)) (\<lambda>_. True)" "hushed b (jcall (DestroyQueue p)) (\<lambda>_. True)"
  "hushed b (jcall (Receive c t)) (\<lambda>_. True)" "hushed b (reads f) (\<lambda>_. True)" "hushed b undef P"
  by (auto intro!: hushed_mutes mute_intros mutes_jcall) (auto simp: hushed_def)

lemma hushed_ret [hush_intros]: "P x \<Longrightarrow> hushed b (ret x) P"
  by (simp add: hushed_def)

lemma sat_hushed:
  assumes "sat Q E (m w)" and "hushed (log w) m P"
  shows "sat (\<lambda>x w'. Q x w' \<and> unheard (log w) (log w')) (\<lambda>e w'. E e w' \<and> unheard (log w) (log w')) (m w)"
  using assms unfolding hushed_def by (cases "m w" rule: res_cases) (auto dest: spec [of _ w])

lemma hushed_receive [hush_intros]: "hushed b (jreceive_timeout c t) (\<lambda>_. True)"
  unfolding jreceive_timeout_def jreceive_def by (auto intro!: hushed_mutes mute_intros mutes_jcall)

lemma hushed_exchange:
  assumes "typed_listeners b" and "\<And>m. hushed b (fill1 m) (\<lambda>_. True)" and "\<And>m. hushed b (fill2 m) (\<lambda>_. True)"
  shows "hushed b (exchange p kind fill1 fill2 timeout) (\<lambda>_. True)"
  unfolding exchange_def by (rule hush_intros assms hushed_close TrueI | assumption)+

subsection \<open>The environment\<close>

text \<open>
  What the requests rely on: a received message can be cloned, a text answered to an offset has a
  number in front of its bar, and the value of a channel consists of strings or bytes, whose
  size is below the bound of an \<open>int\<close>. That nothing fails after the send is \<open>late_ok\<close>.
\<close>

definition clones_ok :: "environment \<Rightarrow> bool" where
  "clones_ok en \<longleftrightarrow> (\<forall>p h. received h p \<longrightarrow> fails en (Create p BytesMessage RawPtr # h) = None)"

definition texts_ok :: "environment \<Rightarrow> bool" where
  "texts_ok en \<longleftrightarrow> (\<forall>p h. let t = in_text en (GetText p # h) in
     CHR ''|'' \<in> set t \<longrightarrow> (\<exists>n. stoi (before_bar t) = Inr n))"

definition values_ok :: "environment \<Rightarrow> bool" where
  "values_ok en \<longleftrightarrow> (\<forall>p h k. kind_of (ucast (in_int en (ReadByte p # h))) = Some k \<longrightarrow> \<not> numeric k) \<and>
     (\<exists>b. (\<forall>p h. length (in_text en (ReadUTF p # h)) < b) \<and>
       (\<forall>p q h. let n = sint (in_int en (ReadInt p # ReadUTF q # h)) in 0 \<le> n \<and> n * int b < 2 ^ 31))"

definition gemini_env :: "environment \<Rightarrow> bool" where
  "gemini_env en \<longleftrightarrow> late_ok en \<and> clones_ok en \<and> texts_ok en \<and> values_ok en"

subsection \<open>The value of a channel\<close>

text \<open>Reading never fails here, so the state after a read is known.\<close>

lemma late_read:
  assumes "late_ok (env w)" and "late_call c" and "list_all (alive (log w)) (pointers c)"
  shows "jread f c w = (Val (f (env w) (c # map fst (log w))), w\<lparr>log := (c, True) # log w\<rparr>)"
  using assms by (simp add: jread_def jcall_def thenp_def bindp_def late_ok_def)

definition scanned :: "ptr \<Rightarrow> 'a jms_scheme \<Rightarrow> 'a jms_scheme \<Rightarrow> bool" where
  "scanned c w w' \<longleftrightarrow> (\<exists>l. w' = w\<lparr>log := l @ log w\<rparr> \<and> list_all (\<lambda>e. late_call (fst e) \<and> pointers (fst e) = [c]) l)"

lemma scanned_refl [simp]: "scanned c w w"
  by (auto simp: scanned_def intro!: exI [of _ "[]"])

lemma scanned_step: "scanned c w v \<Longrightarrow> late_call x \<Longrightarrow> pointers x = [c] \<Longrightarrow> scanned c w (v\<lparr>log := (x, b) # log v\<rparr>)"
  unfolding scanned_def by (elim exE conjE, rule_tac x = "(x, b) # l" in exI) simp

lemma late_log:
  assumes "list_all (\<lambda>e. late_call (fst e) \<and> pointers (fst e) = [c]) l" and "c < length k"
  shows "raw_at (l @ k) = raw_at k" "sent (l @ k) = sent k" "deleted p (l @ k) = deleted p k" "log_wf k \<Longrightarrow> log_wf (l @ k)"
  using assms
proof (induction l)
  case (Cons e l)
  obtain x b where e: "e = (x, b)" by force
  { case 1 then show ?case using Cons e by (cases x; cases b) auto }
  { case 2 then show ?case using Cons e by (cases x; cases b) auto }
  { case 3 then show ?case using Cons e by (cases x; cases b) auto }
  { case 4 then show ?case using Cons e by (cases x; cases b) auto }
qed simp_all

lemma scanned_alive:
  assumes "scanned c w v" and "alive (log w) c"
  shows "alive (log v) c" and "env v = env w"
proof -
  from assms(1) obtain l where l: "v = w\<lparr>log := l @ log w\<rparr>" "list_all (\<lambda>e. late_call (fst e) \<and> pointers (fst e) = [c]) l"
    by (auto simp: scanned_def)
  with assms(2) late_log(3) [OF l(2)] show "alive (log v) c" "env v = env w" by (auto simp: alive_def)
qed

text \<open>The clone that was read is deleted, and nothing else has happened.\<close>

lemma scanned_delete:
  assumes w: "world_ok w" "alive (log w) r"
    and s: "scanned (length (log w)) (w\<lparr>log := (Create r BytesMessage RawPtr, True) # log w\<rparr>) v"
  shows "sat (\<lambda>_ w'. calm w w') E (jdelete (length (log w)) v)"
proof -
  let ?c = "length (log w)" and ?k = "(Create r BytesMessage RawPtr, True) # log w"
  obtain l where l: "v = w\<lparr>log := l @ ?k\<rparr>" "list_all (\<lambda>e. late_call (fst e) \<and> pointers (fst e) = [?c]) l"
    using s by (auto simp: scanned_def)
  have k: "log_wf ?k" "?c < length ?k" using w by (auto simp: world_ok_def alive_def)
  note late = late_log [OF l(2) k(2)]
  have fresh: "\<not> deleted ?c (log w)" using w(1) by (simp add: world_ok_def alive_fresh)
  have filt: "filter (\<lambda>q. q \<noteq> ?c) (raw_at (log w)) = raw_at (log w)"
    using raw_at_less by (fastforce simp: filter_id_conv)
  have ll: "log_later (log w) (log v)"
    using l late(3) by (auto simp: log_later_def suffix_def)
  have wf: "log_wf (log v)" "raw_at (log v) = ?c # raw_at (log w)" "sent (log v) = sent (log w)"
    using l(1) late k(1) by simp_all
  have al: "alive (log v) ?c"
    using l(1) late(3) [of ?c] fresh by (simp add: alive_def)
  have "alive (log w) x" if "conn w = Some x" for x using w(1) that by (simp add: world_ok_def)
  then have cn: "alive ((Delete ?c, True) # log v) x" if "conn w = Some x" for x
    using that log_later_alive [OF ll] by (fastforce simp: alive_def)
  show ?thesis
    using al wf ll filt cn l(1) by (auto simp: wp calm_def world_ok_def alive_def)
qed

lemma append_strings_scanned:
  assumes "scanned c w v" and "alive (log w) c" and "late_ok (env w)"
    and "\<And>p h. length (in_text (env w) (ReadUTF p # h)) < b"
  shows "sat (\<lambda>xs v'. scanned c w v' \<and> length xs \<le> length data + n * b) (\<lambda>_ _. False) (append_strings c n data v)"
  using assms(1)
proof (induction n arbitrary: data v)
  case (Suc n)
  note v = scanned_alive [OF Suc.prems assms(2)]
  let ?t = "in_text (env w) (ReadUTF c # map fst (log v))"
  have "length (chars_of (c_string ?t)) < b"
    using order_le_less_trans [OF length_takeWhile_le assms(4) [of c "map fst (log v)"]]
    by (simp add: chars_of_def c_string_def)
  moreover have "scanned c w (v\<lparr>log := (ReadUTF c, True) # log v\<rparr>)"
    using Suc.prems by (intro scanned_step) simp_all
  ultimately show ?case
    using v assms(3) Suc.IH [of "v\<lparr>log := (ReadUTF c, True) # log v\<rparr>" "data @ chars_of (c_string ?t) @ [0]"]
    by (auto simp: sat_bindp late_read elim!: sat_mono)
qed simp

lemma getEpicsStatusItem_scanned:
  assumes "scanned c w v" and "alive (log w) c" and "late_ok (env w)" and "\<not> numeric k"
    and "\<And>p h. length (in_text (env w) (ReadUTF p # h)) < b" and "0 \<le> sint n" and "sint n * int b < 2 ^ 31"
  shows "sat (\<lambda>_ v'. scanned c w v') (\<lambda>_ _. False)
    (getEpicsStatusItem k \<lparr>eb_message = c, eb_name = name, eb_nElements = n\<rparr> v)"
proof -
  note v = scanned_alive [OF assms(1,2)]
  consider "k = ByteBuilder" | "k = StringBuilder" using assms(4) by (cases k) auto
  then show ?thesis
  proof cases
    case 1
    have "scanned c w (v\<lparr>log := (ReadBlock c (sint n), True) # log v\<rparr>)"
      using assms(1) by (rule scanned_step) simp_all
    with 1 v assms(3,6) show ?thesis
      by (simp add: Byte_getEpicsStatusItem_def sat_bindp late_read EpicsStatusItemImpl_create_def)
  next
    case 2
    have size: "sint (of_nat (length xs) :: i32) = int (length xs)" if "length xs \<le> nat (sint n) * b" for xs :: "u8 list"
    proof (rule sint_count)
      have "int (nat (sint n) * b) < int (2 ^ 31)" using assms(6,7) by simp
      then have "nat (sint n) * b < 2 ^ 31" by (simp only: of_nat_less_iff)
      with that show "length xs < 2 ^ 31" by (rule order_le_less_trans)
    qed
    show ?thesis
      unfolding 2 getEpicsStatusItem.simps String_getEpicsStatusItem_def sat_bindp epics_builder.select_convs
      by (rule sat_mono [OF append_strings_scanned [OF assms(1-3,5)]])
        (auto simp: EpicsStatusItemImpl_create_def size)
  qed
qed

lemma buildEpicsStatusItem_sat:
  assumes w: "world_ok w" "alive (log w) r" "received (map fst (log w)) r"
    and en: "late_ok (env w)" "clones_ok (env w)" "values_ok (env w)"
  shows "sat (\<lambda>_ w'. calm w w') (\<lambda>_ _. False) (buildEpicsStatusItem r w)"
proof -
  let ?c = "length (log w)"
  let ?w = "w\<lparr>log := (Create r BytesMessage RawPtr, True) # log w\<rparr>"
  let ?v1 = "?w\<lparr>log := (ReadByte ?c, True) # (ResetMsg ?c, True) # log ?w\<rparr>"
  let ?v2 = "?w\<lparr>log := (ReadInt ?c, True) # (ReadUTF ?c, True) # log ?v1\<rparr>"
  have "\<not> deleted ?c (log w)" using w(1) by (simp add: world_ok_def alive_fresh)
  then have al: "alive (log ?w) ?c" "\<not> deleted ?c (log w)" by simp_all
  have new: "jnew r BytesMessage RawPtr w = (Val ?c, ?w)"
    using en(2) w by (simp add: jnew_def jcall_def thenp_def bindp_def clones_ok_def)
  have s1: "scanned ?c ?w ?v1"
    by (auto simp: scanned_def intro!: exI [of _ "[(ReadByte ?c, True), (ResetMsg ?c, True)]"])
  have s2: "scanned ?c ?w ?v2"
    by (auto simp: scanned_def intro!: exI [of _ "[(ReadInt ?c, True), (ReadUTF ?c, True), (ReadByte ?c, True), (ResetMsg ?c, True)]"])
  obtain b where b: "\<And>p h. length (in_text (env w) (ReadUTF p # h)) < b"
    "\<And>p q h. 0 \<le> sint (in_int (env w) (ReadInt p # ReadUTF q # h)) \<and> sint (in_int (env w) (ReadInt p # ReadUTF q # h)) * int b < 2 ^ 31"
    using en(3) unfolding values_ok_def Let_def by blast
  have kinds: "\<not> numeric k" if "kind_of (ucast (in_int (env w) (ReadByte p # h))) = Some k" for p h k
    using en(3) that by (auto simp: values_ok_def)
  have reset: "jcall (ResetMsg ?c) ?w = (Val (), ?w\<lparr>log := (ResetMsg ?c, True) # log ?w\<rparr>)"
    using en(1) al(2) by (simp add: jcall_def late_ok_def)
  let ?k = "kind_of (ucast (in_int (env w) (ReadByte ?c # ResetMsg ?c # map fst (log ?w))))"
  show ?thesis
  proof (cases ?k)
    case None
    then have "choose_builder ?c ?w = (Val None, ?v1)"
      using en(1) al(2) by (simp add: choose_builder_def catchp_def thenp_def bindp_def reset late_read)
    then show ?thesis
      using scanned_delete [OF w(1,2) s1] by (auto simp: buildEpicsStatusItem_def sat_bindp sat_thenp new elim!: sat_mono)
  next
    case (Some k)
    let ?t = "in_text (env w) (ReadUTF ?c # map fst (log ?v1))" and ?n = "in_int (env w) (ReadInt ?c # ReadUTF ?c # map fst (log ?v1))"
    let ?b = "\<lparr>eb_message = ?c, eb_name = ?t, eb_nElements = ?n\<rparr>"
    have "choose_builder ?c ?w = (Val (Some (k, ?b)), ?v2)"
      using en(1) al(2) Some
      by (simp add: choose_builder_def new_JmsEpicsBuilder_def catchp_def thenp_def bindp_def reset late_read)
    moreover have "sat (\<lambda>_ v'. scanned ?c ?w v') (\<lambda>_ _. False) (getEpicsStatusItem k ?b ?v2)"
      by (rule getEpicsStatusItem_scanned [OF s2 al(1) _ kinds [OF Some]]) (use en b in auto)
    ultimately show ?thesis
      using scanned_delete [OF w(1,2)]
      by (auto simp: buildEpicsStatusItem_def sat_bindp sat_thenp new elim!: sat_mono)
  qed
qed

subsection \<open>The requests\<close>

lemma goes_on_delivered: "delivered d kind xs w w' \<Longrightarrow> goes_on w w'"
  by (auto simp: goes_on_def delivered_def suffix_Cons)

lemma goes_on_abandoned: "abandoned w w' \<Longrightarrow> goes_on w w'"
  by (auto simp: goes_on_def abandoned_def)

lemma getChannel_late:
  assumes r: "ready p d w" and en: "gemini_env (env w)"
  shows "sat (\<lambda>_ w'. goes_on w w') (\<lambda>e w'. throws_class GiapiException e \<and> goes_on w w') (getChannel p name timeout w)"
  unfolding getChannel_def sat_throw_spec
proof (rule request_sat [OF r, where xs = "string_request name" and ys = "[]"], goal_cases)
  case 2
  show ?case using en by (simp add: gemini_env_def)
next
  case (5 reply v)
  then have del: "delivered d PlainMessage (string_request name) w v" by (simp add: exchanged_def delivered_def)
  then have go: "goes_on w v" by (rule goes_on_delivered)
  have v: "world_ok v" "env v = env w" using del by (simp_all add: delivered_def)
  show ?case
  proof (cases reply)
    case None
    with go show ?thesis by simp
  next
    case (Some z)
    obtain q cls where z: "z = (q, cls)" by force
    with 5 Some have q: "alive (log v) q" "received (map fst (log v)) q" by (auto simp: exchanged_def)
    have "sat (\<lambda>_ w'. calm v w') (\<lambda>_ _. False) (buildEpicsStatusItem q v)"
      using buildEpicsStatusItem_sat [OF v(1) q] en v(2) by (simp add: gemini_env_def)
    with Some z go show ?thesis
      by (auto intro: goes_on_trans goes_on_calm elim!: sat_mono)
  qed
qed (auto simp: string_request_def abandoned_def goes_on_def simp del: key.simps)

lemma offset_answer_sat:
  assumes v: "world_ok v" "late_ok (env v)" "texts_ok (env v)" and r: "\<And>r cls. reply = Some (r, cls) \<Longrightarrow> alive (log v) r"
  shows "sat (\<lambda>_ w'. calm v w') (\<lambda>e w'. throws_class TimeoutException e \<and> \<not> is_cms e \<and> calm v w') (offset_answer reply v)"
proof (cases reply)
  case None
  with v(1) show ?thesis by (simp add: offset_answer_def calm_refl)
next
  case (Some z)
  obtain q cls where z: "z = (q, cls)" by force
  with Some r have q: "alive (log v) q" by simp
  then have c: "calm v (v\<lparr>log := (GetText q, True) # log v\<rparr>)"
    using v(1) by (auto simp: calm_def world_ok_def alive_def)
  have "\<not> (CHR ''|'' \<in> set (in_text (env v) (GetText q # h)) \<and> stoi (before_bar (in_text (env v) (GetText q # h))) = Inl e)" for h e
    using v(3) unfolding texts_ok_def Let_def by (metis Inl_Inr_False)
  then show ?thesis
    using Some z q c v(1,2)
    by (cases "cls = IsText") (auto simp: offset_answer_def calm_refl sat_bindp late_read stoi_prog_def split: sum.split)
qed

lemma sendOffset_late:
  assumes r: "ready (producer.truncate p) d w" and en: "gemini_env (env w)"
  shows "sat (\<lambda>_ w'. goes_on w w') (\<lambda>e w'. throws_class GiapiException e \<and> goes_on w w') (sendOffset p x y ty timeout cb w)"
proof (cases cb)
  case None
  show ?thesis
    unfolding sendOffset_def None option.case sat_throw_spec
  proof (rule request_sat [OF r, where xs = "[]" and ys = "offset_puts (inst_name p) x y ty"], goal_cases)
    case 2
    show ?case using en by (simp add: gemini_env_def)
  next
    case (5 reply v)
    then have del: "delivered d BytesMessage (offset_puts (inst_name p) x y ty) w v" by (simp add: exchanged_def delivered_def)
    then have "world_ok v" "late_ok (env v)" "texts_ok (env v)" "goes_on w v"
      using en by (auto simp: gemini_env_def delivered_def intro: goes_on_delivered)
    moreover have "alive (log v) q" if "reply = Some (q, cls)" for q cls using 5 that by (auto simp: exchanged_def)
    ultimately show ?case
      unfolding sat_bindp
      by (intro sat_mono [OF offset_answer_sat [of v reply]])
        (auto intro: goes_on_trans goes_on_calm throws_timeout)
  qed (auto simp: abandoned_def goes_on_def)
next
  case (Some f)
  let ?w = "w\<lparr>msg := None\<rparr>" and ?xs = "offset_puts (inst_name p) x y ty"
  let ?t = "sint (word_of_int timeout :: i32)"
  have r': "ready (producer.truncate p) d ?w" using r by (simp add: ready_def)
  have eq: "bindp (jnew (p_session p) BytesMessage RawPtr) (\<lambda>m.
            thenp (set_msg (Some m))
           (bindp (jnew (p_session p) TempQueue RawPtr) (\<lambda>q.
            bindp (jnew (p_session p) (Consumer q None) RawPtr) (\<lambda>c.
            thenp (jcall (SetReplyTo m q))
           (thenp (jputs m ?xs)
           (thenp (send (producer.truncate p) m)
           (ret (1, Some (f, c, q, ?t)))))))))
     = bindp (ask (producer.truncate p) BytesMessage (\<lambda>m. ret ()) (\<lambda>m. jputs m ?xs)) (\<lambda>(m, q, c).
         thenp (send (producer.truncate p) m) (ret (1, Some (f, c, q, ?t))))"
    by (simp add: ask_def thenp_def bindp_assoc del: ret_run)
  have "sat (\<lambda>z v. opened d BytesMessage ([] @ ?xs) (producer.truncate p) ?w z v) (\<lambda>e w'. is_cms e \<and> interrupted ?w w')
      (ask (producer.truncate p) BytesMessage (\<lambda>m. ret ()) (\<lambda>m. jputs m ?xs) ?w)"
    by (rule ask_sat [OF r']) simp_all
  then have "sat (\<lambda>_ w'. goes_on w w') (\<lambda>e w'. is_cms e \<and> interrupted ?w w')
      (bindp (ask (producer.truncate p) BytesMessage (\<lambda>m. ret ()) (\<lambda>m. jputs m ?xs)) (\<lambda>(m, q, c).
         thenp (send (producer.truncate p) m) (ret (1 :: int, Some (f, c, q, ?t)))) ?w)"
    unfolding sat_bindp
  proof (rule sat_mono, goal_cases)
    case (1 z v)
    obtain m q c where z: "z = (m, q, c)" by (cases z)
    with 1 have o: "opened d BytesMessage ?xs (producer.truncate p) ?w (m, q, c) v" by simp
    then have al: "alive (log v) (p_producer p)" "alive (log v) m"
      by (auto simp: opened_def intro: log_later_alive)
    have "goes_on w (v\<lparr>log := (Send (p_producer p) None m, True) # log v\<rparr>)"
      using o al by (auto simp: opened_def goes_on_def suffix_Cons alive_def world_ok_def)
    with al opened_failed [OF o] show ?case
      by (auto simp: z sat_thenp send_def intro!: sat_jcall)
  qed simp
  then show ?thesis
    unfolding sendOffset_def Some option.case sat_throw_spec sat_thenp sat_set_msg eq sat_catchp
    by (rule sat_mono) (auto simp: sat_thenp abandoned_def goes_on_def intro!: sat_mono [OF interrupted_delete])
qed

text \<open>What these calls leave alone: the consumers that listen.\<close>

definition keeps :: "jms \<Rightarrow> (jms, 'r) prog \<Rightarrow> bool" where
  "keeps w m \<longleftrightarrow> sat (\<lambda>_ w'. undisturbed w w') (\<lambda>e w'. throws_class GiapiException e \<and> undisturbed w w') (m w)"

lemma keepsI:
  assumes "sat (\<lambda>_ w'. goes_on w w') (\<lambda>e w'. throws_class GiapiException e \<and> goes_on w w') (m w)"
    and "hushed (log w) m (\<lambda>_. True)"
  shows "keeps w m"
  unfolding keeps_def by (rule sat_mono [OF sat_hushed [OF assms]]) (auto simp: undisturbed_def)

lemma hushed_request:
  assumes "typed_listeners b" and "\<And>m. hushed b (fill1 m) (\<lambda>_. True)" and "\<And>m. hushed b (fill2 m) (\<lambda>_. True)"
    and "\<And>x. hushed b (k x) (\<lambda>_. True)"
  shows "hushed b (throw_spec D (thenp (set_msg None) (catchp (bindp (exchange p kind fill1 fill2 timeout) k)
     is_cms (\<lambda>e. thenp delete_msg (throw (f e)))))) (\<lambda>_. True)"
  by (rule hush_intros hushed_exchange assms TrueI | assumption)+

lemma mutes_reads [mute_intros]: "(\<And>p. c \<noteq> SetListener p) \<Longrightarrow> (\<And>p. c \<noteq> CloseObj p) \<Longrightarrow> mutes (jread f c)"
  unfolding jread_def by (intro mute_intros mutes_jcall)

lemma mutes_value [mute_intros]: "mutes (Pair (Val x))"
  by (simp add: mutes_def)

lemma mutes_numbers: "(\<And>p. mutes rd) \<Longrightarrow> mutes (copy_values rd k is buf)"
  by (induction "is" arbitrary: buf) (auto simp: copy_to_def simp del: ret_run undef_run intro!: mute_intros)

lemma mutes_build: "(\<And>m. mutes (rd m)) \<Longrightarrow> mutes (build_numbers ty k rd b)"
  by (auto simp: build_numbers_def Let_def EpicsStatusItemImpl_create_def simp del: ret_run undef_run throw_run
    intro!: mute_intros mutes_numbers)

lemma mutes_append: "mutes (append_strings m n data)"
  by (induction n arbitrary: data) (auto simp del: ret_run intro!: mute_intros)

lemma mutes_getEpicsStatusItem: "mutes (getEpicsStatusItem k b)"
  by (cases k) (auto simp: Short_getEpicsStatusItem_def Int_getEpicsStatusItem_def Float_getEpicsStatusItem_def
    Double_getEpicsStatusItem_def Byte_getEpicsStatusItem_def String_getEpicsStatusItem_def Let_def EpicsStatusItemImpl_create_def
    simp del: ret_run undef_run throw_run intro!: mute_intros mutes_build mutes_append)

lemma mutes_buildEpicsStatusItem: "mutes (buildEpicsStatusItem m)"
  unfolding buildEpicsStatusItem_def choose_builder_def new_JmsEpicsBuilder_def
  by (auto split: option.split intro!: mute_intros mutes_jcall mutes_getEpicsStatusItem)

lemma getChannel_keeps:
  assumes "ready p d w" and "gemini_env (env w)" and "typed_listeners (log w)"
  shows "keeps w (getChannel p name timeout)"
proof (rule keepsI)
  show "sat (\<lambda>_ w'. goes_on w w') (\<lambda>e w'. throws_class GiapiException e \<and> goes_on w w') (getChannel p name timeout w)"
    by (rule getChannel_late [OF assms(1,2)])
  show "hushed (log w) (getChannel p name timeout) (\<lambda>_. True)"
    unfolding getChannel_def
    by (rule hushed_request [OF assms(3)])
      (auto split: option.split prod.split intro!: hush_intros hushed_mutes mutes_simple mutes_buildEpicsStatusItem)
qed

lemma mutes_doubles: "mutes (read_doubles r n)"
  by (induction n) (auto simp del: ret_run intro!: mute_intros)

lemma fetch_keeps:
  assumes "ready p d w" and "gemini_env (env w)" and "typed_listeners (log w)"
  shows "keeps w (fetch p timeout)"
proof (rule keepsI)
  have "late_ok (env w)" using assms(2) by (simp add: gemini_env_def)
  from fetch_sat [OF assms(1) this, of timeout]
  show "sat (\<lambda>_ w'. goes_on w w') (\<lambda>e w'. throws_class GiapiException e \<and> goes_on w w') (fetch p timeout w)"
    by (rule sat_mono) (auto intro: goes_on_delivered goes_on_abandoned throws_giapi throws_timeout)
  show "hushed (log w) (fetch p timeout) (\<lambda>_. True)"
    unfolding fetch_def buildTcsContext_def
    by (rule hushed_request [OF assms(3)])
      (auto split: option.split prod.split intro!: hush_intros hushed_mutes mute_intros mutes_doubles)
qed

lemma sendOffset_keeps:
  assumes "ready (producer.truncate p) d w" and "gemini_env (env w)" and "typed_listeners (log w)"
  shows "keeps w (sendOffset p x y ty timeout cb)"
proof (rule keepsI)
  show "sat (\<lambda>_ w'. goes_on w w') (\<lambda>e w'. throws_class GiapiException e \<and> goes_on w w') (sendOffset p x y ty timeout cb w)"
    by (rule sendOffset_late [OF assms(1,2)])
  show "hushed (log w) (sendOffset p x y ty timeout cb) (\<lambda>_. True)"
  proof (cases cb)
    case None
    then show ?thesis
      unfolding sendOffset_def offset_answer_def stoi_prog_def
      by (simp, intro hushed_request [OF assms(3)])
        (auto split: option.split prod.split sum.split intro!: hush_intros hushed_mutes mute_intros)
  next
    case (Some f)
    then show ?thesis
      unfolding sendOffset_def by (auto intro!: hushed_mutes mute_intros mutes_jcall)
  qed
qed

lemma sendOffset_wait_keeps:
  assumes "ready (producer.truncate p) d w" and "gemini_env (env w)" and "typed_listeners (log w)"
  shows "keeps w (sendOffset_wait p x y ty timeout)"
proof -
  have spec: "throws_class CommunicationException e \<or> throws_class TimeoutException e"
    if "fst (sendOffset p x y ty timeout None w) = Exn e" for e
    using throw_spec_catches that unfolding sendOffset_def by fast
  from sendOffset_keeps [OF assms, of x y ty timeout None] show ?thesis
    unfolding keeps_def sendOffset_wait_def sat_throw_spec sat_bindp using spec
    by (cases "sendOffset p x y ty timeout None w" rule: res_cases) auto
qed

lemma mutes_zernikes: "mutes (write_zernikes m zs i k)"
  by (induction k arbitrary: i) (auto simp del: ret_run undef_run intro!: mute_intros)

lemma postPcsUpdate_keeps:
  assumes "ready p d w" and "pcs_in_bounds (zs, n)"
  shows "keeps w (postPcsUpdate p zs n)"
proof (rule keepsI)
  from postPcsUpdate_sat [OF assms]
  show "sat (\<lambda>_ w'. goes_on w w') (\<lambda>e w'. throws_class GiapiException e \<and> goes_on w w') (postPcsUpdate p zs n w)"
    by (rule sat_mono) (auto intro: goes_on_effect goes_on_calm throws_giapi simp del: pcs_message.simps)
  have "mutes (write_zernikes m zs 0 k)" for m k
    by (rule mutes_zernikes)
  then show "hushed (log w) (postPcsUpdate p zs n) (\<lambda>_. True)"
    unfolding postPcsUpdate_def by (auto intro!: hushed_mutes mute_intros)
qed

subsection \<open>The calls of the facade\<close>

datatype gemini_call =
    EpicsCall epics_call
  | PcsUpdate "f64 list" i32
  | TcsContext int
  | Offset f64 f64 offset_type int
  | OffsetCallback f64 f64 offset_type int "nat option"
  | ChannelValue string int

datatype gemini_result =
    GCode int
  | GContext int "tcs_context option"
  | GOffset int "offset_thread option"
  | GChannel "epics_item option"

fun gemini_step :: "(f64 \<Rightarrow> string) \<Rightarrow> gemini_call \<Rightarrow> (gemini_util facade, gemini_result) prog" where
  "gemini_step fmt (EpicsCall (Subscribe name h)) = bindp (gemini_subscribeEpicsStatus name h) (\<lambda>n. ret (GCode n))"
| "gemini_step fmt (EpicsCall (Unsubscribe name)) = bindp (gemini_unsubscribeEpicsStatus name) (\<lambda>n. ret (GCode n))"
| "gemini_step fmt (PcsUpdate zs n) = bindp (gemini_postPcsUpdate fmt zs n) (\<lambda>r. ret (GCode r))"
| "gemini_step fmt (TcsContext timeout) = bindp (getTcsContext timeout) (\<lambda>r. ret (GContext (fst r) (snd r)))"
| "gemini_step fmt (Offset x y ty timeout) = bindp (tcsApplyOffset x y ty timeout) (\<lambda>n. ret (GCode n))"
| "gemini_step fmt (OffsetCallback x y ty timeout f) =
     bindp (tcsApplyOffset_callback x y ty timeout f) (\<lambda>r. ret (GOffset (fst r) (snd r)))"
| "gemini_step fmt (ChannelValue name timeout) = bindp (gemini_getChannel name timeout) (\<lambda>it. ret (GChannel it))"

text \<open>The arguments a call needs: an array as large as its size, whose numbers fit into the line of the log.\<close>

fun gemini_valid :: "(f64 \<Rightarrow> string) \<Rightarrow> gemini_call \<Rightarrow> bool" where
  "gemini_valid fmt (PcsUpdate zs n) \<longleftrightarrow> pcs_in_bounds (zs, n) \<and> (\<forall>z \<in> set zs. length (fmt z) < 25)"
| "gemini_valid fmt _ = True"

definition gemini_inv_with :: "ptr set \<Rightarrow> gemini_util facade \<Rightarrow> bool" where
  "gemini_inv_with F s \<longleftrightarrow> gemini.facade_inv F s \<and> gemini_env (env (snd s))"

abbreviation gemini_inv :: "gemini_util facade \<Rightarrow> bool" where
  "gemini_inv \<equiv> gemini_inv_with {}"

lemmas gemini_inv_def = gemini_inv_with_def [where F = "{}"]

lemma gemini_inv_start: "gemini_env en \<Longrightarrow> names_ok en \<Longrightarrow> gemini_inv (None, start en)"
  by (simp add: gemini_inv_with_def gemini.facade_inv_def start_def world_ok_def nobody_with_def served_with_def typed_listeners_def)

lemma gemini_ok_undisturbed: "gemini_ok_with F u w \<Longrightarrow> undisturbed w w' \<Longrightarrow> gemini_ok_with F u w'"
  by (auto simp: gemini_ok_with_def dest: undisturbed_facts(2) intro: epics_undisturbed ready_goes_on)

lemma gemini_ok_typed: "gemini_ok_with F u w \<Longrightarrow> typed_listeners (log w)"
  by (simp add: gemini_ok_with_def epics_inv_with_def served_with_def)

lemma gemini_call_sat:
  assumes inv: "gemini_inv_with F s" and run: "\<And>u w. gemini_ok_with F u w \<Longrightarrow> gemini_env (env w) \<Longrightarrow> keeps w (m u)"
  shows "sat (\<lambda>r t. gemini_inv_with F t \<and> goes_on (snd s) (snd t))
    (\<lambda>e t. throws_class GiapiException e \<and> gemini_inv_with F t \<and> goes_on (snd s) (snd t))
    (throw_spec (throws_class GiapiException) (bindp GeminiUtil_Instance (\<lambda>u. on_world (m u))) s)"
proof -
  have run': "sat (\<lambda>r w'. gemini_ok_with F u w' \<and> goes_on w w' \<and> True)
      (\<lambda>e w'. throws_class GiapiException e \<and> gemini_ok_with F u w' \<and> goes_on w w') (m u w)"
    if "gemini_ok_with F u w" "goes_on (snd s) w" for u w
  proof -
    have "keeps w (m u)" using run [OF that(1)] that(2) inv by (simp add: gemini_inv_with_def goes_on_def)
    then show ?thesis
      unfolding keeps_def using that(1) by (auto elim!: sat_mono intro: gemini_ok_undisturbed undisturbed_facts(2))
  qed
  have "sat (\<lambda>r t. gemini.facade_inv F t \<and> goes_on (snd s) (snd t) \<and> (\<exists>w :: jms. goes_on (snd s) w \<and> True))
      (\<lambda>e t. throws_class GiapiException e \<and> gemini.facade_inv F t \<and> goes_on (snd s) (snd t))
      (throw_spec (throws_class GiapiException) (bindp GeminiUtil_Instance (\<lambda>u. on_world (m u))) s)"
    unfolding GeminiUtil_Instance_def
    by (rule gemini.call_sat [where Q = "\<lambda>_ _ _. True" and m = m and E = "throws_class GiapiException", OF _ run'])
      (use inv in \<open>auto simp: gemini_inv_with_def\<close>)
  then show ?thesis
    by (rule sat_mono) (use inv in \<open>auto simp: gemini_inv_with_def goes_on_def\<close>)
qed

lemma gemini_epics_sat:
  assumes inv: "gemini_inv_with F s"
  shows "sat (\<lambda>r t. gemini_inv_with F t \<and> goes_on (snd s) (snd t))
    (\<lambda>e t. throws_class GiapiException e \<and> gemini_inv_with F t \<and> goes_on (snd s) (snd t))
    (throw_spec (throws_class GiapiException) (bindp GeminiUtil_Instance (\<lambda>u. on_epics (epics_step c))) s)"
  unfolding GeminiUtil_Instance_def sat_throw_spec sat_bindp
proof (rule sat_mono [OF gemini.singleton_sat [where F = F]], goal_cases)
  case 1
  show ?case using inv by (simp add: gemini_inv_with_def)
next
  case (2 u t)
  then have t: "fst t = Some u" "gemini_ok_with F u (snd t)" "goes_on (snd s) (snd t)" by simp_all
  then have e: "epics_inv_with F (gu_epicsMgr u, snd t)" "gemini_env (env (snd t))"
    using inv by (simp_all add: gemini_ok_with_def gemini_inv_with_def goes_on_def)
  have next_ok: "gemini_inv_with F (Some (u\<lparr>gu_epicsMgr := fst p\<rparr>), snd p) \<and> goes_on (snd s) (snd p)"
    if p: "epics_inv_with F p" "epics_later (gu_epicsMgr u, snd t) p" for p
  proof -
    have "world_ok (snd p)" using p(1) by (cases p) (simp add: epics_inv_with_def served_with_def)
    with p(2) have g: "goes_on (snd t) (snd p)" by (simp add: goes_on_def epics_later_def)
    then have "env (snd p) = env (snd t)" by (simp add: goes_on_def)
    moreover have "gemini_ok_with F (u\<lparr>gu_epicsMgr := fst p\<rparr>) (snd p)"
      using t(2) p(1) by (auto simp: gemini_ok_with_def intro: ready_goes_on [OF _ g])
    ultimately show ?thesis
      using e(2) goes_on_trans [OF t(3) g] by (simp add: gemini_inv_with_def gemini.facade_inv_def)
  qed
  show ?case
    using t(1) unfolding on_epics_def
    by (simp add: sat_on_part, intro sat_mono [OF epics_step_sat [OF e(1)]]) (use next_ok in auto)
next
  case (3 e t)
  then show ?case using inv by (auto simp: gemini_inv_with_def goes_on_def)
qed

lemma format_zernikes_ret:
  assumes "\<forall>z \<in> set zs. length (fmt z) < 25" and "\<forall>i \<in> set is. i < length zs"
  shows "format_zernikes fmt zs is str = ret (str @ concat (map (\<lambda>i. fmt (zs ! i)) is))"
  using assms(2) by (induction "is" arbitrary: str) (use assms(1) in auto)

lemma gemini_step_sat:
  assumes inv: "gemini_inv_with F s" and valid: "gemini_valid fmt c"
  shows "sat (\<lambda>r t. gemini_inv_with F t \<and> goes_on (snd s) (snd t))
    (\<lambda>e t. throws_class GiapiException e \<and> gemini_inv_with F t \<and> goes_on (snd s) (snd t)) (gemini_step fmt c s)"
proof -
  have k: "gemini_ok_with F u w \<Longrightarrow> ready (gu_pcsUpdater u) (Topic (key GMP_PCS_UPDATE_DESTINATION)) w"
    "gemini_ok_with F u w \<Longrightarrow> ready (gu_tcsFetcher u) (Topic (key GMP_TCS_CONTEXT_DESTINATION)) w"
    "gemini_ok_with F u w \<Longrightarrow> ready (producer.truncate (gu_tcsApplyOffset u)) (Topic (key GMP_TCS_OFFSET_DESTINATION)) w"
    "gemini_ok_with F u w \<Longrightarrow> ready (gu_epicsFetcher u) (Topic (key GMP_GEMINI_EPICS_GET_DESTINATION)) w" for u w
    by (simp_all add: gemini_ok_with_def)
  note typed = gemini_ok_typed
  show ?thesis
  proof (cases "(fmt, c)" rule: gemini_step.cases)
    case (1 f name h)
    with gemini_epics_sat [OF inv, of "Subscribe name h"] show ?thesis
      by (simp add: gemini_subscribeEpicsStatus_def sat_bindp [of _ _ "throw_spec _ _"])
  next
    case (2 f name)
    with gemini_epics_sat [OF inv, of "Unsubscribe name"] show ?thesis
      by (simp add: gemini_unsubscribeEpicsStatus_def sat_bindp [of _ _ "throw_spec _ _"])
  next
    case (3 f zs n)
    then have f: "f = fmt" by simp
    from 3 valid have b: "pcs_in_bounds (zs, n)" "\<forall>z \<in> set zs. length (fmt z) < 25" by auto
    then have "\<forall>i \<in> set [0..<nat (sint n)]. i < length zs" by (auto simp: pcs_in_bounds_def)
    then have eq: "gemini_postPcsUpdate fmt zs n = throw_spec (throws_class GiapiException)
        (bindp GeminiUtil_Instance (\<lambda>u. on_world (postPcsUpdate (gu_pcsUpdater u) zs n)))"
      by (simp add: gemini_postPcsUpdate_def format_zernikes_ret [OF b(2)] del: ret_run)
    from 3 f gemini_call_sat [OF inv, of "\<lambda>u. postPcsUpdate (gu_pcsUpdater u) zs n"] postPcsUpdate_keeps [OF k(1) b(1)]
    show ?thesis by (auto simp: eq sat_bindp [of _ _ "throw_spec _ _"])
  next
    case (4 f timeout)
    with gemini_call_sat [OF inv, of "\<lambda>u. fetch (gu_tcsFetcher u) timeout"] fetch_keeps [OF k(2) _ typed]
    show ?thesis by (simp add: getTcsContext_def sat_bindp [of _ _ "throw_spec _ _"])
  next
    case (5 f x y ty timeout)
    with gemini_call_sat [OF inv, of "\<lambda>u. sendOffset_wait (gu_tcsApplyOffset u) x y ty timeout"] sendOffset_wait_keeps [OF k(3) _ typed]
    show ?thesis by (simp add: tcsApplyOffset_def sat_bindp [of _ _ "throw_spec _ _"])
  next
    case (6 f x y ty timeout cb)
    with gemini_call_sat [OF inv, of "\<lambda>u. sendOffset (gu_tcsApplyOffset u) x y ty timeout cb"] sendOffset_keeps [OF k(3) _ typed]
    show ?thesis by (simp add: tcsApplyOffset_callback_def sat_bindp [of _ _ "throw_spec _ _"])
  next
    case (7 f name timeout)
    with gemini_call_sat [OF inv, of "\<lambda>u. getChannel (gu_epicsFetcher u) name timeout"] getChannel_keeps [OF k(4) _ typed]
    show ?thesis by (simp add: gemini_getChannel_def sat_bindp [of _ _ "throw_spec _ _"])
  qed
qed

text \<open>
  The machine of the calls with such arguments. A call without is none of its steps: it answers
  at once, so that a history of valid calls is one of this machine.
\<close>

definition gemini_later :: "gemini_util facade \<Rightarrow> gemini_util facade \<Rightarrow> bool" where
  "gemini_later s t \<longleftrightarrow> log_later (log (snd s)) (log (snd t)) \<and> suffix (sent (log (snd s))) (sent (log (snd t)))"

definition gemini_valid_step :: "(f64 \<Rightarrow> string) \<Rightarrow> gemini_call \<Rightarrow> (gemini_util facade, gemini_result) prog" where
  "gemini_valid_step fmt c = (if gemini_valid fmt c then gemini_step fmt c else ret (GCode status_ERROR))"

interpretation gemini_calls: safe_machine "gemini_valid_step fmt" "gemini_inv_with F" gemini_later "throws_class GiapiException" for F fmt
proof (unfold_locales, goal_cases)
  case (1 s c)
  then show ?case
    using gemini_step_sat [OF 1, of fmt c]
    by (cases "gemini_valid fmt c") (auto simp: gemini_valid_step_def gemini_later_def goes_on_def elim!: sat_mono)
qed (auto simp: gemini_later_def intro: log_later_trans suffix_order.trans)

lemma run_calls_cong: "(\<And>c. c \<in> set cs \<Longrightarrow> f c = g c) \<Longrightarrow> run_calls f cs = run_calls g cs"
  by (induction cs) (auto intro!: ext split: prod.split res.split)

text \<open>
  Answers of the documented form: the names of one channel, a text for it, and a text with a number
  and a bar for everything else.
\<close>

definition answering_env :: environment where
  "answering_env = quiet_env
     \<lparr>arrives := \<lambda>h. if request_puts h = [BoolProperty (key GMP_GEMINI_EPICS_CHANNEL_PROPERTY) True] then Some IsMap
        else if request_puts h = string_request ''tcs:mode'' then Some IsBytes else Some IsText,
      in_names := \<lambda>h. [''tcs:mode''], in_text := \<lambda>h. ''1|ok'',
      in_int := \<lambda>h. case h of ReadInt p # t \<Rightarrow> 1 | _ \<Rightarrow> 0\<rparr>"

lemma answering_env_ok: "gemini_env answering_env" "names_ok answering_env"
proof -
  have stoi: "stoi (before_bar ''1|ok'') = Inr 1" by code_simp
  have "late_ok answering_env" "clones_ok answering_env"
    by (simp_all add: late_ok_def clones_ok_def answering_env_def quiet_env_def)
  moreover have "texts_ok answering_env"
    by (simp add: texts_ok_def answering_env_def stoi del: One_nat_def)
  moreover have "values_ok answering_env"
    unfolding values_ok_def by (intro conjI exI [of _ 5]) (auto simp: answering_env_def kind_of_def)
  ultimately show "gemini_env answering_env" by (simp add: gemini_env_def)
  show "names_ok answering_env" by (simp add: names_ok_def answering_env_def quiet_env_def)
qed

end
