(* ===== verification/Facade_Correct.thy ===== *)
theory Facade_Correct
  imports Gemini_Histories
begin

section \<open>The facades\<close>

text \<open>
  The properties of \<open>DataUtil\<close> and \<open>GeminiUtil\<close> as an application uses them: whole histories of calls,
  in any order, from the start of the program. The first call that reaches the library makes the
  implementation, its producers and their connection.
\<close>

subsection \<open>DataUtil\<close>

text \<open>
  C13. Every history of observation and file events through \<open>DataUtil\<close>, from the start of the
  program and whatever the messaging library does: every call returns or throws a
  \<open>GiapiException\<close>; a call that returns delivers OK when its names are not blank and ERROR
  otherwise; exactly the messages of the calls that returned OK are sent, each to the topic of its
  kind, in the order of the calls; and no object is left behind.
\<close>

theorem data_history:
  "sat (\<lambda>rs t. length rs = length cs \<and> list_all (expected (throws_class GiapiException)) rs \<and>
       list_all2 (\<lambda>c r. \<forall>x. r = Val x \<longrightarrow> x = post_code (data_message c)) cs rs \<and>
       raw_at (log (snd t)) = [] \<and> sent (log (snd t)) = rev (map as_sent (posted data_message cs rs))) (\<lambda>_ _. False)
     (run_calls data_step cs (None, start en))"
proof -
  have "data.facade_inv (None, start en)"
    by (simp add: data.facade_inv_def start_def world_ok_def)
  from data_calls.history [OF this, of cs] show ?thesis
    by (rule sat_mono) (auto simp: start_def)
qed

lemma data_history_witness:
  "sat (\<lambda>rs t. (\<forall>x. hd rs = Val x \<longrightarrow> x = status_ERROR) \<and> (\<forall>x. rs ! 1 = Val x \<longrightarrow> x = status_OK) \<and>
       (rs ! 1 = Val status_OK \<longrightarrow> length (sent (log (snd t))) = 1)) (\<lambda>_ _. False)
     (run_calls data_step [FileEvent (AncillaryFile '''' ''S2024''), ObservationEvent OBS_PREP ''S2024''] (None, start quiet_env))"
proof -
  let ?blank = "FileEvent (AncillaryFile '''' ''S2024'')" and ?prep = "ObservationEvent OBS_PREP ''S2024''"
  have none: "data_message ?blank = None" by (simp add: isEmpty_iff blank_def)
  have some: "\<exists>m. data_message ?prep = Some m" by (simp add: isEmpty_iff blank_def)
  have first: "posted data_message (?blank # cs) (r # rs) = posted data_message cs rs" for cs and r :: "int res" and rs
    using none by (cases r) (simp_all del: data_message.simps)
  from some obtain m where m: "data_message ?prep = Some m" by blast
  show ?thesis
    by (rule sat_mono [OF data_history])
      (auto simp: post_code_def list_all2_Cons1 none m first simp del: data_message.simps)
qed

subsection \<open>GeminiUtil\<close>

text \<open>
  Every history of calls of \<open>GeminiUtil\<close> from the start of the program returns or throws GIAPI
  exceptions only, whatever fails on the way to the broker, as long as nothing fails between a
  request and its answer and the answers have the documented form; and after it exactly the
  consumers in the map of the EPICS manager listen. An update of the PCS must not announce more
  numbers than it has.
\<close>

theorem gemini_history:
  assumes "gemini_env en" and "names_ok en" and "list_all (gemini_valid fmt) cs"
  shows "sat (\<lambda>rs t. length rs = length cs \<and> list_all (expected (throws_class GiapiException)) rs \<and>
       set (listening (log (snd t))) =
         (case fst t of None \<Rightarrow> {} | Some u \<Rightarrow> c_consumer ` ran (em_consumers (gu_epicsMgr u)))) (\<lambda>_ _. False)
     (run_calls (gemini_step fmt) cs (None, start en))"
proof -
  have same: "run_calls (gemini_step fmt) cs = run_calls (gemini_valid_step fmt) cs"
    by (rule run_calls_cong) (use assms(3) in \<open>auto simp: gemini_valid_step_def list_all_iff\<close>)
  have "gemini_inv (None, start en)" using assms by (simp add: gemini_inv_start)
  from gemini_calls.run_safe [OF this, of cs fmt] show ?thesis
    unfolding same
    by (rule sat_mono)
      (auto simp: gemini_inv_def gemini.facade_inv_def gemini_ok_def epics_inv_def served_def nobody_listens_def split: option.splits)
qed

lemma gemini_history_witness:
  "sat (\<lambda>rs t. length rs = 5 \<and> list_all (expected (throws_class GiapiException)) rs) (\<lambda>_ _. False)
     (run_calls (gemini_step (\<lambda>z. ''0.0''))
       [EpicsCall (Subscribe ''tcs:mode'' 1), PcsUpdate [0, 1] 2, Offset 0 0 ACQ 1000, ChannelValue ''tcs:mode'' 100,
        EpicsCall (Unsubscribe ''tcs:mode'')] (None, start answering_env))"
  by (rule sat_mono [OF gemini_history [OF answering_env_ok]]) (auto simp: pcs_in_bounds_def)

end
