(* ===== verification/Shutdown.thy ===== *)
theory Shutdown
  imports Command_Util Facades Status_Service
begin

section \<open>The end of the program\<close>

text \<open>
  The destructors of the singletons, which run when the program ends: the consumers leave their
  maps and are destroyed, the producers are closed. The maps are hash tables, so the order in
  which their entries are destroyed is a parameter. What the destructors of the smart pointers to
  the library's own objects do is the library's matter.
\<close>

subsection \<open>CommandUtil\<close>

definition destroy_CompletionInfoProducer :: "producer \<Rightarrow> (jms, unit) prog" where
  "destroy_CompletionInfoProducer p = destroy_producer p"

text \<open>One place of an \<open>ActivityHolder\<close> goes: its consumer is destroyed with the last place that refers to it.\<close>

definition clear_place :: "activity \<Rightarrow> (activity_holder \<times> jms, unit) prog" where
  "clear_place a =
     bindp (reads (\<lambda>s. fst s a)) (\<lambda>old.
     thenp (modifies (\<lambda>s. ((fst s)(a := None), snd s)))
    (case old of
       None \<Rightarrow> ret ()
     | Some o' \<Rightarrow> bindp (reads (\<lambda>s. referenced o' (fst s))) (\<lambda>used.
         if used then ret () else on_part snd (\<lambda>w s. (fst s, w)) (destroy_consumer o'))))"

fun destroy_ActivityHolder :: "activity list \<Rightarrow> (activity_holder \<times> jms, unit) prog" where
  "destroy_ActivityHolder [] = ret ()"
| "destroy_ActivityHolder (a # as) = thenp (clear_place a) (destroy_ActivityHolder as)"

text \<open>The holders, in the order \<open>ts\<close> of their topics; the object they belong to is gone afterwards.\<close>

fun destroy_holders :: "activity list \<Rightarrow> string list \<Rightarrow> ((string \<rightharpoonup> activity_holder) \<times> jms, unit) prog" where
  "destroy_holders as [] = ret ()"
| "destroy_holders as (t # ts) = thenp (bindp (reads (\<lambda>s. fst s t)) (\<lambda>h. case h of
       None \<Rightarrow> ret ()
     | Some h \<Rightarrow> thenp (on_part (\<lambda>s. (h, snd s)) (\<lambda>p s. (fst s, snd p)) (destroy_ActivityHolder as))
         (modifies (\<lambda>s. ((fst s)(t := None), snd s)))))
     (destroy_holders as ts)"

definition destroy_JmsCommandUtil :: "activity list \<Rightarrow> string list \<Rightarrow> (command_service, unit) prog" where
  "destroy_JmsCommandUtil as ts = bindp (reads cs_instance) (\<lambda>i. case i of
     None \<Rightarrow> ret ()
   | Some u \<Rightarrow> thenp (on_part (\<lambda>s. (cu_holders u, cs_net s)) (\<lambda>p s. s\<lparr>cs_net := snd p\<rparr>) (destroy_holders as ts))
      (thenp (on_cs_net (destroy_CompletionInfoProducer (cu_producer u)))
      (modifies (\<lambda>s. s\<lparr>cs_instance := None\<rparr>))))"

subsection \<open>GeminiUtil\<close>

fun destroy_JmsEpicsManager :: "string list \<Rightarrow> (epics_service, unit) prog" where
  "destroy_JmsEpicsManager [] = ret ()"
| "destroy_JmsEpicsManager (name # names) = thenp (put_consumer name None) (destroy_JmsEpicsManager names)"

definition destroy_GeminiUtilImpl :: "string list \<Rightarrow> (gemini_util facade, unit) prog" where
  "destroy_GeminiUtilImpl names = bindp (reads fst) (\<lambda>i. case i of
     None \<Rightarrow> ret ()
   | Some u \<Rightarrow> thenp (on_epics (destroy_JmsEpicsManager names))
      (thenp (on_world (destroy_producer (gu_pcsUpdater u)))
      (thenp (on_world (destroy_producer (gu_tcsFetcher u)))
      (thenp (on_world (destroy_producer (gu_epicsFetcher u)))
      (thenp (on_world (destroy_producer (producer.truncate (gu_tcsApplyOffset u))))
      (modifies (\<lambda>s. (None, snd s))))))))"

subsection \<open>ServicesUtil and DataUtil\<close>

definition destroy_RequestProducer :: "producer \<Rightarrow> (jms, unit) prog" where
  "destroy_RequestProducer p = destroy_producer p"

text \<open>
  An \<open>auto_ptr\<close> destroys the object it points to, unless it has been told to release it: then it
  is null and its former object belongs to nobody.
\<close>

definition auto_ptr_release :: "'p option \<Rightarrow> 'p option" where
  "auto_ptr_release p = None"

definition destroy_auto_ptr :: "('p \<Rightarrow> (jms, unit) prog) \<Rightarrow> 'p option \<Rightarrow> (jms, unit) prog" where
  "destroy_auto_ptr destructor p = (case p of None \<Rightarrow> ret () | Some q \<Rightarrow> destructor q)"

text \<open>The members of an object are destroyed in the reverse order of their declaration.\<close>

definition destroy_ServicesUtilImpl :: "(services_util facade, unit) prog" where
  "destroy_ServicesUtilImpl = bindp (reads fst) (\<lambda>i. case i of
     None \<Rightarrow> ret ()
   | Some u \<Rightarrow> thenp (on_world (destroy_auto_ptr destroy_producer (Some (su_logProducer u))))
      (thenp (on_world (destroy_auto_ptr destroy_RequestProducer (Some (su_producer u))))
      (modifies (\<lambda>s. (None, snd s)))))"

definition destroy_DataUtilImpl :: "(data_util facade, unit) prog" where
  "destroy_DataUtilImpl = bindp (reads fst) (\<lambda>i. case i of
     None \<Rightarrow> ret ()
   | Some u \<Rightarrow> (let obs = auto_ptr_release (Some (du_obsEventProducer u));
          files = auto_ptr_release (Some (du_fileEventsProducer u)) in
       thenp (on_world (destroy_auto_ptr destroy_producer files))
      (thenp (on_world (destroy_auto_ptr destroy_producer obs))
      (modifies (\<lambda>s. (None, snd s))))))"

subsection \<open>StatusUtil\<close>

definition destroy_JmsStatusSender :: "sender \<Rightarrow> (jms, unit) prog" where
  "destroy_JmsStatusSender sdr =
     thenp (catchp (jcall (CloseObj (s_producer sdr))) is_cms (\<lambda>e. ret ()))
       (catchp (jcall (CloseObj (s_session sdr))) is_cms (\<lambda>e. ret ()))"

text \<open>A place of the array is set to null; the factory has the only pointer to the sender in it.\<close>

definition reset_sender :: "sender_type \<Rightarrow> (status_service, unit) prog" where
  "reset_sender ty = bindp (reads (\<lambda>s. sv_senders s ty)) (\<lambda>old.
     thenp (modifies (\<lambda>s. s\<lparr>sv_senders := (sv_senders s)(ty := None)\<rparr>))
       (case old of Some (JmsSender sdr) \<Rightarrow> on_sv_net (destroy_JmsStatusSender sdr) | _ \<Rightarrow> ret ()))"

definition destroy_StatusSenderFactoryImpl :: "(status_service, unit) prog" where
  "destroy_StatusSenderFactoryImpl = thenp (reset_sender LOG_SENDER) (reset_sender JMS_SENDER)"

subsection \<open>The connection\<close>

definition destroy_ConnectionManager :: "(manager, unit) prog" where
  "destroy_ConnectionManager =
     thenp (catchp (bindp (reads conn) (\<lambda>c. case c of None \<Rightarrow> ret () | Some p \<Rightarrow> jcall (StopConnection p)))
       is_cms (\<lambda>e. ret ()))
       (modifies (\<lambda>s. s\<lparr>errorHandlersFunctions := [], errorHandlerObjects := [], conn := None\<rparr>))"

lemma destroy_ConnectionManager_sat:
  assumes "world_ok s"
  shows "sat (\<lambda>_ t. calm s t \<and> conn t = None \<and> invoked t = invoked s) (\<lambda>_ _. False) (destroy_ConnectionManager s)"
  using assms
  by (cases "conn s") (auto simp: destroy_ConnectionManager_def wp calm_def world_ok_def alive_def intro!: sat_jcall)

lemma destroy_JmsStatusSender_sat:
  assumes "sender_ready sdr w"
  shows "sat (\<lambda>_ w'. calm w w' \<and> (\<exists>b b'. log w' = (CloseObj (s_session sdr), b) # (CloseObj (s_producer sdr), b') # log w))
    (\<lambda>_ _. False) (destroy_JmsStatusSender sdr w)"
  using assms
  by (auto simp: destroy_JmsStatusSender_def sender_ready_def wp calm_def world_ok_def alive_def intro!: sat_jcall)

lemma destroy_JmsStatusSender_unheard:
  assumes "sender_ready sdr w" and "typed_listeners (log w)"
  shows "unheard (log w) ((CloseObj (s_session sdr), b) # (CloseObj (s_producer sdr), b') # log w)"
  using assms by (intro unheard_close) (auto simp: sender_ready_def dest: obj_at_less)

text \<open>The end of the status service closes its sender, and leaves the database to its own destructor.\<close>

lemma destroy_StatusSenderFactoryImpl_sat:
  assumes "service_inv s"
  shows "sat (\<lambda>_ t. sv_senders t = (sv_senders s)(LOG_SENDER := None, JMS_SENDER := None) \<and> sv_db t = sv_db s \<and>
      calm (sv_net s) (sv_net t) \<and> unheard (log (sv_net s)) (log (sv_net t)) \<and> (\<forall>sdr. sv_senders s JMS_SENDER = Some (JmsSender sdr) \<longrightarrow>
        (\<forall>p \<in> {s_session sdr, s_producer sdr}. \<exists>b. (CloseObj p, b) \<in> set (log (sv_net t)))))
    (\<lambda>_ _. False) (destroy_StatusSenderFactoryImpl s)"
proof -
  have "world_ok (sv_net s)" using assms by (simp add: service_inv_def)
  then show ?thesis
    using assms
    by (auto simp: destroy_StatusSenderFactoryImpl_def reset_sender_def wp on_sv_net_def service_inv_def calm_refl
      split: option.split any_sender.split intro!: sat_mono [OF destroy_JmsStatusSender_sat] destroy_JmsStatusSender_unheard)
qed

subsection \<open>Nobody listens in the end\<close>

lemma clear_place_sat:
  assumes s: "served_with F (ran h \<union> O') w" and disj: "ran h \<inter> O' = {}"
  shows "sat (\<lambda>_ s. fst s = h(a := None) \<and> served_with F (ran (fst s) \<union> O') (snd s) \<and> calm w (snd s)) (\<lambda>_ _. False)
    (clear_place a (h, w))"
proof (cases "h a")
  case None
  then have "h(a := None) = h" by auto
  with None s show ?thesis by (simp add: clear_place_def wp) (simp add: served_with_def calm_refl)
next
  case (Some x)
  let ?h = "h(a := None)"
  have x: "x \<in> ran h" "x \<notin> O'" using Some disj by (auto simp: ran_def)
  have ran: "ran h = insert x (ran ?h)"
    using Some by (auto simp: ran_def split: if_splits) (metis option.inject)
  show ?thesis
  proof (cases "x \<in> ran ?h")
    case True
    with ran have "ran ?h = ran h" by auto
    with Some True s show ?thesis
      by (simp add: clear_place_def wp referenced_iff) (simp add: served_with_def calm_refl)
  next
    case False
    with x ran have R: "ran h \<union> O' - {x} = ran ?h \<union> O'" by auto
    have "x \<in> ran h \<union> O'" using x by simp
    from destroy_listener_sat [OF s this] Some False show ?thesis
      unfolding R
      by (auto simp: clear_place_def destroy_consumer_def wp referenced_iff quiet_calm elim!: sat_mono)
  qed
qed

lemma destroy_ActivityHolder_sat:
  assumes "served_with F (ran h \<union> O') w" and "ran h \<inter> O' = {}"
  shows "sat (\<lambda>_ s. fst s = h |` (- set as) \<and> served_with F (ran (fst s) \<union> O') (snd s) \<and> calm w (snd s)) (\<lambda>_ _. False)
    (destroy_ActivityHolder as (h, w))"
  using assms
proof (induction as arbitrary: h w)
  case Nil
  then show ?case by simp (simp add: served_with_def calm_refl)
next
  case (Cons a as)
  show ?case
    unfolding destroy_ActivityHolder.simps sat_thenp
  proof (rule sat_mono [OF clear_place_sat [OF Cons.prems]], goal_cases)
    case (1 u s)
    then obtain v where s: "s = (h(a := None), v)" "served_with F (ran (h(a := None)) \<union> O') v" "calm w v" by (cases s) auto
    have "ran (h(a := None)) \<subseteq> ran h" by (auto simp: ran_def)
    with Cons.prems(2) have disj: "ran (h(a := None)) \<inter> O' = {}" by auto
    have "h(a := None) |` (- set as) = h |` (- set (a # as))"
      by (auto simp: restrict_map_def fun_eq_iff)
    with Cons.IH [OF s(2) disj] s(3) show ?case
      unfolding s(1) by (auto elim!: sat_mono intro: calm_trans simp del: fun_upd_apply)
  qed simp
qed

lemma in_use_remove: "in_use (hs(t := None)) = in_use_but t hs"
  by (auto simp: in_use_def in_use_but_def split: if_splits)

lemma destroy_holders_sat:
  assumes "served_with F (in_use hs) w" and "topics_ok hs (log w)" and all: "set as = UNIV"
  shows "sat (\<lambda>_ s. served_with F (in_use (hs |` (- set ts))) (snd s) \<and> calm w (snd s)) (\<lambda>_ _. False)
    (destroy_holders as ts (hs, w))"
  using assms(1,2)
proof (induction ts arbitrary: hs w)
  case Nil
  then show ?case by simp (simp add: served_with_def calm_refl)
next
  case (Cons t ts)
  have rest: "hs(t := None) |` (- set ts) = hs |` (- set (t # ts))"
    by (auto simp: restrict_map_def fun_eq_iff)
  show ?case
  proof (cases "hs t")
    case None
    then have "hs(t := None) = hs" by auto
    with rest None Cons.IH [OF Cons.prems] show ?thesis by (simp add: wp)
  next
    case (Some h)
    have split: "in_use hs = ran h \<union> in_use_but t hs"
      using in_use_split [of hs t] Some by simp
    have "sat (\<lambda>_ s. fst s = Map.empty \<and> served_with F (in_use_but t hs) (snd s) \<and> calm w (snd s)) (\<lambda>_ _. False)
        (destroy_ActivityHolder as (h, w))"
      by (rule sat_mono [OF destroy_ActivityHolder_sat [where O' = "in_use_but t hs"]])
        (use Cons.prems(1) split topics_disjoint [OF Cons.prems(2) Some] all in auto)
    then show ?thesis
      unfolding destroy_holders.simps sat_thenp sat_bindp sat_reads fst_conv Some option.case sat_on_part snd_conv sat_modifies
    proof (rule sat_mono, goal_cases)
      case (1 u s)
      then have c: "calm w (snd s)" and v: "served_with F (in_use (hs(t := None))) (snd s)"
        by (simp_all add: in_use_remove)
      have "topics_ok hs (log (snd s))" using Cons.prems(2) c by (auto simp: calm_def intro: topics_ok_calm)
      then have "topics_ok (hs(t := None)) (log (snd s))" by (auto simp: topics_ok_def)
      from Cons.IH [OF v this] show ?case
        unfolding rest using c by (auto elim!: sat_mono intro: calm_trans simp del: fun_upd_apply)
    qed simp
  qed
qed

lemma served_empty: "served_with F ({} :: 'c listener_scheme set) w \<Longrightarrow> set (listening (log w)) = F"
  by (simp add: served_with_def)

lemma destroy_JmsCommandUtil_sat:
  assumes inv: "command_inv_with F s" and all: "set as = UNIV" "\<And>u. cs_instance s = Some u \<Longrightarrow> dom (cu_holders u) \<subseteq> set ts"
  shows "sat (\<lambda>_ t. command_inv_with F t \<and> set (listening (log (cs_net t))) = F \<and> calm (cs_net s) (cs_net t) \<and> cs_instance t = None)
    (\<lambda>_ _. False) (destroy_JmsCommandUtil as ts s)"
proof (cases "cs_instance s")
  case None
  with inv have r: "served_with F ({} :: consumer set) (cs_net s)" by (simp add: command_inv_with_def)
  then have "calm (cs_net s) (cs_net s)" by (simp add: served_with_def calm_refl)
  with None inv served_empty [OF r] show ?thesis by (simp add: destroy_JmsCommandUtil_def wp)
next
  case (Some u)
  with inv have i: "ready (cu_producer u) (Queue (key GMP_COMPLETION_INFO)) (cs_net s)"
      "served_with F (in_use (cu_holders u)) (cs_net s)" "topics_ok (cu_holders u) (log (cs_net s))"
    by (simp_all add: command_inv_with_def del: key.simps)
  have none: "cu_holders u |` (- set ts) = Map.empty"
    using all(2) [OF Some] by (auto simp: restrict_map_def fun_eq_iff dom_def)
  show ?thesis
    unfolding destroy_JmsCommandUtil_def sat_bindp sat_reads Some option.case sat_thenp sat_on_part
  proof (rule sat_mono [OF destroy_holders_sat [OF i(2,3) all(1), of ts]], goal_cases)
    case (1 x q)
    then have v: "served_with F ({} :: consumer set) (snd q)" "calm (cs_net s) (snd q)"
      unfolding none by (simp_all add: in_use_def)
    have "ready (cu_producer u) (Queue (key GMP_COMPLETION_INFO)) (snd q)"
      by (rule ready_goes_on [OF i(1) goes_on_calm [OF v(2)]])
    then have "sat (\<lambda>_ w'. calm (snd q) w' \<and> unheard (log (snd q)) (log w')) (\<lambda>_ _. False) (destroy_producer (cu_producer u) (snd q))"
      using v(1) by (intro destroy_producer_unheard) (simp_all add: served_with_def)
    then show ?case
      using v by (auto simp: destroy_CompletionInfoProducer_def on_cs_net_def wp unheard_def command_inv_with_def
        dest: served_empty intro: calm_trans served_calm [OF v(1)] elim!: sat_mono)
  qed simp
qed

lemma destroy_JmsEpicsManager_sat:
  assumes "served_with F (ran (em_consumers m)) w" and "\<And>ch x. em_consumers m ch = Some x \<Longrightarrow> ec_channel x = ch"
  shows "sat (\<lambda>_ t. served_with F (ran (em_consumers m |` (- set names))) (snd t) \<and> quiet w (snd t)) (\<lambda>_ _. False)
    (destroy_JmsEpicsManager names (m, w))"
  using assms
proof (induction names arbitrary: m w)
  case Nil
  then show ?case by simp (simp add: served_with_def quiet_refl)
next
  case (Cons name names)
  let ?m = "m\<lparr>em_consumers := (em_consumers m)(name := None)\<rparr>"
  have rest: "em_consumers ?m |` (- set names) = em_consumers m |` (- set (name # names))"
    by (auto simp: restrict_map_def fun_eq_iff)
  have "sat (\<lambda>_ t. fst t = ?m \<and> served_with F (ran (em_consumers ?m)) (snd t) \<and> quiet w (snd t)) (\<lambda>_ _. False)
      (put_consumer name None (m, w))"
    using put_consumer_sat [where c = None and m = m and w = w and name = name and F = F] Cons.prems by simp
  then show ?case
    unfolding destroy_JmsEpicsManager.simps sat_thenp
  proof (rule sat_mono, goal_cases)
    case (1 u t)
    then obtain v where t: "t = (?m, v)" "served_with F (ran (em_consumers ?m)) v" "quiet w v" by (cases t) auto
    have "ec_channel x = ch" if "em_consumers ?m ch = Some x" for ch x
      using that Cons.prems(2) by (auto split: if_splits)
    from Cons.IH [OF t(2) this] show ?case
      unfolding rest t(1) by (rule sat_mono) (use t(3) in \<open>auto intro: quiet_trans\<close>)
  qed simp
qed

text \<open>Producers that are destroyed one after the other, in a world where only others listen.\<close>

definition silent :: "ptr set \<Rightarrow> jms \<Rightarrow> jms \<Rightarrow> bool" where
  "silent F w w' \<longleftrightarrow> calm w w' \<and> typed_listeners (log w') \<and> set (listening (log w')) = F"

lemma destroy_silent:
  assumes "silent F w v" and "ready p d w"
  shows "sat (\<lambda>_ v'. silent F w v') (\<lambda>_ _. False) (destroy_producer p v)"
proof -
  have "ready p d v" using assms by (auto simp: silent_def intro: ready_goes_on goes_on_calm)
  moreover have "typed_listeners (log v)" using assms(1) by (simp add: silent_def)
  ultimately show ?thesis
    by (rule sat_mono [OF destroy_producer_unheard]) (use assms(1) in \<open>auto simp: silent_def unheard_heard intro: calm_trans typed_unheard\<close>)
qed

lemma destroy_GeminiUtilImpl_sat:
  assumes ok: "gemini_ok_with F u w" and names: "dom (em_consumers (gu_epicsMgr u)) \<subseteq> set names"
  shows "sat (\<lambda>_ t. fst t = None \<and> silent F w (snd t)) (\<lambda>_ _. False) (destroy_GeminiUtilImpl names (Some u, w))"
proof -
  have none: "em_consumers (gu_epicsMgr u) |` (- set names) = Map.empty"
    using names by (auto simp: restrict_map_def fun_eq_iff dom_def)
  have e: "served_with F (ran (em_consumers (gu_epicsMgr u))) w"
      "\<And>ch x. em_consumers (gu_epicsMgr u) ch = Some x \<Longrightarrow> ec_channel x = ch"
    using ok by (simp_all add: gemini_ok_with_def epics_inv_with_def)
  have "sat (\<lambda>_ t. silent F w (snd t)) (\<lambda>_ _. False) (destroy_JmsEpicsManager names (gu_epicsMgr u, w))"
    by (rule sat_mono [OF destroy_JmsEpicsManager_sat [OF e]])
      (auto simp: none silent_def quiet_calm dest: served_empty, simp add: served_with_def)
  then show ?thesis
    using ok unfolding destroy_GeminiUtilImpl_def on_epics_def on_world_def gemini_ok_with_def
    by (auto simp: sat_bindp sat_thenp sat_on_part simp del: key.simps elim!: sat_mono
        intro!: sat_mono [OF destroy_silent])
qed

lemma destroy_ServicesUtilImpl_sat:
  assumes "services_ok u w"
  shows "sat (\<lambda>_ t. fst t = None \<and> calm w (snd t) \<and>
      (\<forall>p \<in> {su_producer u, su_logProducer u}. \<forall>q \<in> {p_producer p, p_session p}. \<exists>b. (CloseObj q, b) \<in> set (log (snd t))))
    (\<lambda>_ _. False) (destroy_ServicesUtilImpl (Some u, w))"
proof -
  have r: "ready (su_logProducer u) (Topic (key GMP_SERVICES_LOG_DESTINATION)) w"
      "ready (su_producer u) (Queue (key GMP_UTIL_REQUEST_DESTINATION)) w"
    using assms by (simp_all add: services_ok_def)
  show ?thesis
    unfolding destroy_ServicesUtilImpl_def destroy_auto_ptr_def destroy_RequestProducer_def on_world_def
  proof (simp add: sat_bindp sat_thenp sat_on_part, rule sat_mono [OF destroy_producer_sat [OF r(1)]], goal_cases)
    case (1 x v)
    then have "ready (su_producer u) (Queue (key GMP_UTIL_REQUEST_DESTINATION)) v"
      by (intro ready_goes_on [OF r(2)] goes_on_calm) simp
    from destroy_producer_sat [OF this] show ?case
      by (rule sat_mono) (use 1 in \<open>auto intro: calm_trans\<close>)
  qed simp
qed

subsection \<open>The entries of the maps\<close>

text \<open>Programs that add entries for a set of keys at most, by their form.\<close>

definition grows :: "('s \<Rightarrow> 'k set) \<Rightarrow> 'k set \<Rightarrow> ('s, 'a) prog \<Rightarrow> bool" where
  "grows f K m \<longleftrightarrow> (\<forall>s. f (snd (m s)) \<subseteq> f s \<union> K)"

named_theorems grow_intros "programs that add entries for a set of keys at most"

lemma grows_simple [grow_intros]: "grows f K (ret x)" "grows f K (throw e)" "grows f K undef" "grows f K (reads g)"
  by (auto simp: grows_def)

lemma grows_bindp [grow_intros]: "grows f K m \<Longrightarrow> (\<And>x. grows f K (g x)) \<Longrightarrow> grows f K (bindp m g)"
  unfolding grows_def bindp_def by (auto split: prod.split res.split) (metis (no_types, lifting) Un_iff snd_conv subsetD)+

lemma grows_thenp [grow_intros]: "grows f K m \<Longrightarrow> grows f K k \<Longrightarrow> grows f K (thenp m k)"
  by (simp add: thenp_def grows_bindp)

lemma grows_throw_spec [grow_intros]: "grows f K m \<Longrightarrow> grows f K (throw_spec C m)"
  unfolding grows_def throw_spec_def by (auto split: prod.split res.split) (metis Un_iff snd_conv subsetD)+

lemma grows_run:
  assumes "\<And>c. grows f (K c) (step c)" and "run_calls step cs s = (Val rs, t)"
  shows "f t \<subseteq> f s \<union> (\<Union>c \<in> set cs. K c)"
  using assms(2)
proof (induction cs arbitrary: s rs)
  case Nil
  then show ?case by simp
next
  case (Cons c cs)
  have f: "f (snd (step c s)) \<subseteq> f s \<union> K c" using assms(1) by (simp add: grows_def)
  show ?case
  proof (cases "step c s" rule: res_cases)
    case (1 x v)
    with Cons f show ?thesis by (cases "run_calls step cs v" rule: res_cases) (fastforce simp: bindp_def)+
  next
    case (2 e v)
    with Cons f show ?thesis by (cases "run_calls step cs v" rule: res_cases) (fastforce simp: bindp_def)+
  qed (use Cons in auto)
qed

definition held_topics :: "command_service \<Rightarrow> string set" where
  "held_topics s = (case cs_instance s of None \<Rightarrow> {} | Some u \<Rightarrow> dom (cu_holders u))"

fun call_topics :: "command_call \<Rightarrow> string set" where
  "call_topics (SubscribeSequenceCommand ident activities h) = {getTopic ident}"
| "call_topics (SubscribeApply pfx activities h) = {getTopic_prefix pfx}"
| "call_topics (PostCompletionInfo ident r) = {}"

lemma grows_net [grow_intros]: "grows held_topics K (on_cs_net m)"
  by (auto simp: grows_def on_cs_net_def on_part_def held_topics_def split: prod.split)

text \<open>What a constructor returns, by its form.\<close>

definition yields :: "('a \<Rightarrow> bool) \<Rightarrow> ('s, 'a) prog \<Rightarrow> bool" where
  "yields P m \<longleftrightarrow> (\<forall>s. returns (\<lambda>x _. P x) (m s))"

named_theorems yield_intros "the values of programs"

lemma yieldsD: "yields P m \<Longrightarrow> m s = (Val x, s') \<Longrightarrow> P x"
  by (auto simp: yields_def returns_def)

lemma yields_simple [yield_intros]: "P x \<Longrightarrow> yields P (ret x)" "yields P (throw e)" "yields P undef"
  by (simp_all add: yields_def)

lemma yields_bindp [yield_intros]: "(\<And>x. yields P (f x)) \<Longrightarrow> yields P (bindp m f)"
  unfolding yields_def returns_bindp by (auto simp: returns_def)

lemma yields_thenp [yield_intros]: "yields P k \<Longrightarrow> yields P (thenp m k)"
  by (simp add: thenp_def yields_bindp)

lemma yields_catchp [yield_intros]: "yields P m \<Longrightarrow> (\<And>e. yields P (h e)) \<Longrightarrow> yields P (catchp m C h)"
  by (simp add: yields_def returns_catchp)

lemma yields_unwind [yield_intros]: "yields P m \<Longrightarrow> yields P (unwind d m)"
  unfolding unwind_def by (intro yield_intros)

lemma yields_throw_spec [yield_intros]: "yields P m \<Longrightarrow> yields P (throw_spec C m)"
  unfolding yields_def throw_spec_def returns_def by (auto split: prod.split res.split)

lemma yields_with_members [yield_intros]: "yields P m \<Longrightarrow> yields P (with_members m)"
  unfolding yields_def with_members_def returns_def by (auto split: prod.splits)

lemma new_JmsCommandUtil_empty: "yields (\<lambda>u. cu_holders u = Map.empty) new_JmsCommandUtil"
  unfolding new_JmsCommandUtil_def by (intro yield_intros) simp

lemma grows_instance [grow_intros]: "grows held_topics K JmsCommandUtil_Instance"
  by (auto simp: grows_def JmsCommandUtil_Instance_def on_cs_net_def on_part_def held_topics_def bindp_def
    thenp_def throw_spec_def dest: yieldsD [OF new_JmsCommandUtil_empty] split: prod.split option.split res.split)

lemma grows_store [grow_intros]: "grows held_topics {topic} (store_consumer topic activities c)"
  by (auto simp: grows_def store_consumer_def bindp_def on_part_def held_topics_def Let_def
      split: prod.split option.split if_splits)

lemma command_step_grows: "grows held_topics (call_topics c) (command_step c)"
  by (cases c) (auto simp: subscribeSequenceCommand_def subscribeApply_def CommandUtil_postCompletionInfo_def
    jms_subscribeSequenceCommand_def jms_subscribeApply_def jms_postCompletionInfo_def simp del: ret_run
    intro!: grow_intros split: option.split)

definition held_channels :: "gemini_util facade \<Rightarrow> string set" where
  "held_channels s = (case fst s of None \<Rightarrow> {} | Some u \<Rightarrow> dom (em_consumers (gu_epicsMgr u)))"

lemma grows_world [grow_intros]: "grows held_channels K (on_world m)"
  by (auto simp: grows_def on_world_def on_part_def held_channels_def split: prod.split)

lemma new_JmsEpicsManager_empty: "yields (\<lambda>m. em_consumers m = Map.empty) new_JmsEpicsManager"
  unfolding new_JmsEpicsManager_def by (intro yield_intros) (simp add: yield_intros split: option.split)

lemma yields_then: "yields P m \<Longrightarrow> (\<And>x. P x \<Longrightarrow> yields Q (f x)) \<Longrightarrow> yields Q (bindp m f)"
  unfolding yields_def returns_bindp by (auto simp: returns_def) blast

lemma new_GeminiUtilImpl_empty: "yields (\<lambda>u. em_consumers (gu_epicsMgr u) = Map.empty) new_GeminiUtilImpl"
  unfolding new_GeminiUtilImpl_def
  by (rule yields_throw_spec, rule yields_then [OF new_JmsEpicsManager_empty]) (intro yield_intros, simp)

lemma grows_gemini_instance [grow_intros]: "grows held_channels K GeminiUtil_Instance"
  by (auto simp: grows_def GeminiUtil_Instance_def singleton_def on_world_def on_part_def held_channels_def
    bindp_def thenp_def throw_spec_def dest: yieldsD [OF new_GeminiUtilImpl_empty] split: prod.split option.split res.split)

lemma grows_on_epics [grow_intros]:
  assumes "grows (\<lambda>s. dom (em_consumers (fst s))) K m"
  shows "grows held_channels K (on_epics m)"
  unfolding grows_def
proof
  fix s
  show "held_channels (snd (on_epics m s)) \<subseteq> held_channels s \<union> K"
  proof (cases "fst s")
    case None
    then show ?thesis by (simp add: on_epics_def held_channels_def bindp_def)
  next
    case (Some u)
    have "dom (em_consumers (fst (snd (m (gu_epicsMgr u, snd s))))) \<subseteq> dom (em_consumers (gu_epicsMgr u)) \<union> K"
      using assms unfolding grows_def by (metis fst_conv)
    with Some show ?thesis
      by (cases "m (gu_epicsMgr u, snd s)") (auto simp: on_epics_def held_channels_def bindp_def on_part_def)
  qed
qed

abbreviation channel_entries :: "epics_service \<Rightarrow> string set" where
  "channel_entries s \<equiv> dom (em_consumers (fst s))"

lemma grows_epics_net [grow_intros]: "grows channel_entries K (on_epics_net m)"
  by (auto simp: grows_def on_epics_net_def on_part_def split: prod.split)

lemma grows_modifies: "(\<And>s. h (f s) \<subseteq> h s \<union> K) \<Longrightarrow> grows h K (modifies f)"
  by (simp add: grows_def)

lemma grows_put [grow_intros]: "grows channel_entries {name} (put_consumer name c)"
  unfolding put_consumer_def drop_consumer_def
  by (intro grow_intros grows_modifies) (auto intro: grow_intros simp del: ret_run split: option.split if_splits)

lemma epics_step_grows:
  "grows channel_entries {name} (subscribeEpicsStatus name h)" "grows channel_entries {name} (unsubscribeEpicsStatus name)"
  unfolding subscribeEpicsStatus_def unsubscribeEpicsStatus_def
  by (auto intro!: grow_intros grows_modifies simp del: ret_run)

end
