(* ===== verification/Shutdown_Correct.thy ===== *)
theory Shutdown_Correct
  imports Shutdown Gemini_Histories
begin

section \<open>What is left when the program ends\<close>

text \<open>The properties of the destructors of the singletons, after whole histories of calls.\<close>

text \<open>
  C16. When the program ends after any history of calls of \<open>CommandUtil\<close>, and whatever the messaging
  library does, the destructors throw nothing and use no bad pointer, and no consumer listens any
  more: also one that is in several places is closed. This holds for every order in which the
  holders and the places in them are destroyed.
\<close>

theorem commands_shutdown:
  assumes "set as = UNIV" and "(\<Union>c \<in> set calls. call_topics c) \<subseteq> set ts"
  shows "\<exists>rs s t. run_calls command_step calls (new_command_service en) = (Val rs, s) \<and>
     destroy_JmsCommandUtil as ts s = (Val (), t) \<and> cs_instance t = None \<and> listening (log (cs_net t)) = [] \<and>
     raw_at (log (cs_net t)) = [] \<and> sent (log (cs_net t)) = sent (log (cs_net s))"
proof -
  from commands.run_value [OF command_inv_new [of en], of calls] obtain rs s where
    r: "run_calls command_step calls (new_command_service en) = (Val rs, s)" "command_inv s"
      "command_later (new_command_service en) s" by blast
  from grows_run [OF command_step_grows r(1)] assms(2) have "held_topics s \<subseteq> set ts"
    by (auto simp: held_topics_def new_command_service_def)
  then have ts: "dom (cu_holders u) \<subseteq> set ts" if "cs_instance s = Some u" for u
    using that by (simp add: held_topics_def)
  from satD [OF destroy_JmsCommandUtil_sat [OF r(2) assms(1) ts]] obtain t where
    t: "destroy_JmsCommandUtil as ts s = (Val (), t)" "listening (log (cs_net t)) = []" "calm (cs_net s) (cs_net t)"
      "cs_instance t = None" by auto
  with r show ?thesis by (auto simp: calm_def command_later_def new_command_service_def start_def)
qed

lemma commands_shutdown_witness:
  "\<exists>rs s t. run_calls command_step [SubscribeSequenceCommand PARK SET_PRESET_CANCEL (Some 1), SubscribeApply ''gpi'' SET_START (Some 2)]
       (new_command_service quiet_env) = (Val rs, s) \<and>
     destroy_JmsCommandUtil [CANCEL, PRESET, PRESET_START, START] [getTopic_prefix ''gpi'', getTopic PARK] s = (Val (), t) \<and>
     listening (log (cs_net t)) = []"
proof -
  have "set [CANCEL, PRESET, PRESET_START, START] = UNIV" by (auto simp: UNIV_activity)
  from commands_shutdown [OF this, of "[SubscribeSequenceCommand PARK SET_PRESET_CANCEL (Some 1), SubscribeApply ''gpi'' SET_START (Some 2)]"
      "[getTopic_prefix ''gpi'', getTopic PARK]" quiet_env]
  show ?thesis by auto
qed

fun call_channels :: "gemini_call \<Rightarrow> string set" where
  "call_channels (EpicsCall (Subscribe name h)) = {name}"
| "call_channels (EpicsCall (Unsubscribe name)) = {name}"
| "call_channels c = {}"

lemma grows_format: "grows h K (format_zernikes fmt zs is str)"
  by (induction zs "is" str rule: format_zernikes.induct [of _ fmt]) (auto intro: grow_intros simp del: ret_run)

lemma gemini_step_grows: "grows held_channels (call_channels c) (gemini_step fmt c)"
  by (cases "(fmt, c)" rule: gemini_step.cases)
    (auto simp: gemini_subscribeEpicsStatus_def gemini_unsubscribeEpicsStatus_def gemini_postPcsUpdate_def getTcsContext_def
      tcsApplyOffset_def tcsApplyOffset_callback_def gemini_getChannel_def simp del: ret_run
      intro!: grow_intros epics_step_grows grows_format)

text \<open>
  When the program ends after any history of calls of \<open>GeminiUtil\<close>, under the hypotheses of
  such a history, the destructors throw nothing and use no bad pointer, and no channel is
  listened to any more.
\<close>

theorem gemini_shutdown:
  assumes "gemini_env en" and "names_ok en" and "list_all (gemini_valid fmt) cs"
    and "(\<Union>c \<in> set cs. call_channels c) \<subseteq> set names"
  shows "\<exists>rs s t. run_calls (gemini_step fmt) cs (None, start en) = (Val rs, s) \<and>
     destroy_GeminiUtilImpl names s = (Val (), t) \<and> fst t = None \<and> listening (log (snd t)) = [] \<and>
     raw_at (log (snd t)) = raw_at (log (snd s)) \<and> sent (log (snd t)) = sent (log (snd s))"
proof -
  have same: "run_calls (gemini_step fmt) cs = run_calls (gemini_valid_step fmt) cs"
    by (rule run_calls_cong) (use assms(3) in \<open>auto simp: gemini_valid_step_def list_all_iff\<close>)
  have "gemini_inv (None, start en)"
    using assms by (simp add: gemini_inv_start)
  from gemini_calls.run_value [OF this, of fmt cs] obtain rs s where
    r: "run_calls (gemini_step fmt) cs (None, start en) = (Val rs, s)" "gemini_inv s"
    unfolding same by blast
  from grows_run [OF gemini_step_grows r(1)] assms(4) have names: "held_channels s \<subseteq> set names"
    by (auto simp: held_channels_def)
  show ?thesis
  proof (cases "fst s")
    case None
    then have "destroy_GeminiUtilImpl names s = (Val (), s)" "s = (None, snd s)" "listening (log (snd s)) = []"
      using r(2) by (auto simp: prod_eq_iff destroy_GeminiUtilImpl_def bindp_def gemini_inv_def gemini.facade_inv_def nobody_listens_def
        dest: served_empty)
    with r(1) None show ?thesis by blast
  next
    case (Some u)
    then have s: "s = (Some u, snd s)" by (cases s) simp
    have "gemini_ok u (snd s)" "dom (em_consumers (gu_epicsMgr u)) \<subseteq> set names"
      using r(2) names Some by (simp_all add: gemini_inv_def gemini.facade_inv_def held_channels_def)
    from satD [OF destroy_GeminiUtilImpl_sat [OF this], folded s] r(1) show ?thesis
      by (auto simp: silent_def calm_def)
  qed
qed

lemma gemini_shutdown_witness:
  "\<exists>rs s t. run_calls (gemini_step (\<lambda>z. ''0.0'')) [EpicsCall (Subscribe ''tcs:mode'' 1), ChannelValue ''tcs:mode'' 100]
       (None, start answering_env) = (Val rs, s) \<and>
     destroy_GeminiUtilImpl [''tcs:mode''] s = (Val (), t) \<and> listening (log (snd t)) = []"
proof -
  have "list_all (gemini_valid (\<lambda>z. ''0.0'')) [EpicsCall (Subscribe ''tcs:mode'' 1), ChannelValue ''tcs:mode'' 100]" by simp
  from gemini_shutdown [OF answering_env_ok this, of "[''tcs:mode'']"] show ?thesis by auto
qed

text \<open>
  The end of \<open>ServicesUtil\<close> closes its producers and their sessions. \<open>DataUtil\<close> releases its own "just
  to make sure the object is destroyed", which has the opposite effect: none is ever closed.
\<close>

definition sessions_opened :: "jms_log \<Rightarrow> nat" where
  "sessions_opened l = length (filter (\<lambda>e. case e of (Create c Session h, True) \<Rightarrow> True | _ \<Rightarrow> False) l)"

definition closings :: "jms_log \<Rightarrow> nat" where
  "closings l = length (filter (\<lambda>e. case e of (CloseObj p, b) \<Rightarrow> True | _ \<Rightarrow> False) l)"

definition after_data :: jms_log where
  "after_data = log (snd (snd (thenp (postObservationEvent OBS_PREP ''S2024'') destroy_DataUtilImpl (None, start quiet_env))))"

definition after_services :: jms_log where
  "after_services = log (snd (snd (thenp (systemLog L_INFO ''hi'') destroy_ServicesUtilImpl (None, start quiet_env))))"

lemma data_sessions_left_open:
  "sessions_opened after_data = 2 \<and> closings after_data = 0 \<and>
   sessions_opened after_services = 2 \<and> closings after_services = 4"
  unfolding after_data_def after_services_def by code_simp

end
