(* ===== verification/Service_Frames.thy ===== *)
theory Service_Frames
  imports Gemini_Histories
begin

section \<open>Calls that leave the listeners alone\<close>

text \<open>
  The producers of \<open>DataUtil\<close> and \<open>ServicesUtil\<close> work next to consumers that belong to other services:
  no call of theirs starts or silences a listener. The facts about single calls are joined here to
  facts about the facades, so that the services can be put together over one connection.
\<close>

subsection \<open>Constructors\<close>

lemma open_producer_makes:
  assumes "world_ok v" "typed_listeners (log v)" and "d = Topic n \<or> d = Queue n"
  shows "makes (\<lambda>p. p) d v (open_producer d err)"
  unfolding makes_def
  by (rule sat_mono [OF sat_conj [OF open_producer_sat open_producer_unheard]])
    (use assms in \<open>auto simp: undisturbed_def intro: goes_on_calm\<close>)

lemma two_undisturbed:
  assumes w: "world_ok w" "typed_listeners (log w)" and d: "d1 = Topic a \<or> d1 = Queue a" "d2 = Topic b \<or> d2 = Queue b"
  shows "sat (\<lambda>_ w'. undisturbed w w') (\<lambda>e w'. throws_class CommunicationException e \<and> undisturbed w w')
    (bindp (open_producer d1 e1) (\<lambda>p. unwind (destroy_producer p) (bindp (open_producer d2 e2) (\<lambda>q. ret (f p q)))) w)"
  unfolding sat_bindp [of _ _ "open_producer d1 e1"]
proof (rule sat_mono [OF open_producer_makes [OF w d(1), unfolded makes_def]], goal_cases)
  case (1 p v)
  then have v: "ready p d1 v" "undisturbed w v" "world_ok v" "typed_listeners (log v)"
    using w by (auto intro: undisturbed_facts)
  show ?case
    unfolding sat_unwind sat_bindp
  proof (rule sat_mono [OF open_producer_makes [OF v(3,4) d(2), unfolded makes_def]], goal_cases)
    case (1 q u)
    with v(2) show ?case by (auto intro: undisturbed_trans)
  next
    case (2 e u)
    then have u: "undisturbed w u" "ready p d1 u" "typed_listeners (log u)"
      using v by (auto intro: undisturbed_trans undisturbed_facts ready_goes_on)
    from destroy_producer_unheard [OF u(2,3)] 2 u(1) show ?case
      by (auto simp: undisturbed_def intro: goes_on_calm goes_on_trans unheard_trans elim!: sat_mono)
  qed
qed simp

text \<open>Whatever the outcome of a program is, the log it leaves hears what it heard before.\<close>

lemma sat_unheard:
  assumes "sat (\<lambda>_ w'. undisturbed w w') (\<lambda>e w'. E e \<and> undisturbed w w') (m w)"
  shows "unheard (log w) (log (snd (m w)))"
  using satD [OF assms] by (auto simp: undisturbed_def)

lemma new_DataUtilImpl_unheard:
  "world_ok w \<Longrightarrow> typed_listeners (log w) \<Longrightarrow> unheard (log w) (log (snd (new_DataUtilImpl w)))"
  by (rule sat_unheard [where E = "throws_class CommunicationException"])
    (auto simp: new_DataUtilImpl_def new_JmsObsEventProducer_def new_JmsFileEventsProducer_def new_JmsProducer_def
      sat_throw_spec simp del: key.simps intro: sat_mono [OF two_undisturbed])

lemma new_ServicesUtilImpl_unheard:
  "world_ok w \<Longrightarrow> typed_listeners (log w) \<Longrightarrow> unheard (log w) (log (snd (new_ServicesUtilImpl w)))"
  by (rule sat_unheard [where E = "throws_class CommunicationException"])
    (auto simp: new_ServicesUtilImpl_def new_RequestProducer_def new_JmsLogProducer_def new_JmsProducer_def
      sat_throw_spec simp del: key.simps intro: sat_mono [OF two_undisturbed])

subsection \<open>Calls through a facade\<close>

lemma throw_spec_snd [simp]: "snd (throw_spec C m s) = snd (m s)"
  by (cases "m s" rule: res_cases) (simp_all add: throw_spec_def)

lemma call_unheard:
  assumes build: "fst s = None \<Longrightarrow> unheard (log (snd s)) (log (snd (build (snd s))))"
    and m: "\<And>i. hushed (log (snd s)) (m i) (\<lambda>_. True)"
  shows "unheard (log (snd s)) (log (snd (snd (throw_spec D (bindp (throw_spec C (singleton build)) (\<lambda>i. on_world (m i))) s))))"
proof -
  have single: "unheard (log (snd s)) (log (snd (snd (singleton build s))))"
  proof (cases "fst s")
    case None
    with build show ?thesis
      by (cases "build (snd s)" rule: res_cases) (auto simp: singleton_def bindp_def on_world_def on_part_def thenp_def)
  next
    case (Some i)
    then show ?thesis by (simp add: singleton_def)
  qed
  have post: "unheard (log (snd s)) (log (snd (snd (on_world (m i) t))))" if "unheard (log (snd s)) (log (snd t))" for i t
    using m [of i] that by (cases "m i (snd t)") (auto simp: hushed_def on_world_def on_part_def dest!: spec [of _ "snd t"])
  show ?thesis
    using single post
    by (cases "singleton build s" rule: res_cases) (auto simp: bindp_def throw_spec_def [of C])
qed

lemma mutes_data_post: "mutes (data_post u c)"
proof (cases c)
  case (ObservationEvent event datalabel)
  then show ?thesis
    by (simp add: postEvent_def del: key.simps) (intro mute_intros conjI impI)
next
  case (FileEvent f)
  then show ?thesis
    by (cases f) (simp_all add: postAncillaryFileEvent_def postIntermediateFileEvent_def sendFileEventMessage_def
      del: key.simps ret_run, (intro mute_intros conjI impI; simp add: mute_intros del: ret_run)+)
qed

lemma data_step_unheard:
  assumes "data.facade_inv s" "typed_listeners (log (snd s))"
  shows "unheard (log (snd s)) (log (snd (snd (data_step c s))))"
  unfolding data_calls.step_eq
  by (rule call_unheard)
    (use assms in \<open>auto simp: data.facade_inv_def intro: new_DataUtilImpl_unheard hushed_mutes mutes_data_post\<close>)

lemma bindp_ret_snd [simp]: "snd (bindp m (\<lambda>x. ret (f x)) s) = snd (m s)"
  by (cases "m s" rule: res_cases) (simp_all add: bindp_def)

lemma mutes_postLog: "mutes (postLog p level line)"
  unfolding postLog_def by (cases "level_int level") (auto simp del: ret_run intro!: mute_intros)

lemma hushed_getProperty: "typed_listeners b \<Longrightarrow> hushed b (getProperty p k timeout) (\<lambda>_. True)"
  unfolding getProperty_def
  by (rule hushed_request) (auto split: option.split prod.split intro!: hush_intros hushed_mutes mute_intros)

lemma services_step_unheard:
  assumes inv: "services.facade_inv s" "typed_listeners (log (snd s))"
  shows "unheard (log (snd s)) (log (snd (snd (services_step c s))))"
proof -
  have call: "unheard (log (snd s)) (log (snd (snd (throw_spec D (bindp ServicesUtil_Instance (\<lambda>i. on_world (m i))) s))))"
    if "\<And>i. hushed (log (snd s)) (m i) (\<lambda>_. True)" for D and m :: "services_util \<Rightarrow> (jms, 'r) prog"
    unfolding ServicesUtil_Instance_def
    by (rule call_unheard [OF _ that]) (use inv in \<open>auto simp: services.facade_inv_def intro: new_ServicesUtilImpl_unheard\<close>)
  show ?thesis
  proof (cases c)
    case (SystemLog level line)
    show ?thesis
      unfolding SystemLog services_step.simps bindp_ret_snd systemLog_def impl_systemLog_def on_world_throw
      by (intro call hushed_throw_spec hushed_mutes mutes_postLog)
  next
    case (ObservatoryTime now)
    show ?thesis
      unfolding ObservatoryTime services_step.simps bindp_ret_snd getObservatoryTime_def
      unfolding on_world_ret [symmetric]
      by (intro call hushed_mutes mute_intros)
  next
    case (GetProperty k timeout)
    show ?thesis
      unfolding GetProperty services_step.simps bindp_ret_snd services_getProperty_def impl_getProperty_def on_world_throw
      by (intro call hushed_throw_spec hushed_getProperty inv(2))
  qed
qed

end
