(* ===== verification/System.thy ===== *)
theory System
  imports Service_Frames Shutdown
begin

section \<open>The whole library\<close>

text \<open>
  All singletons of a program at once, over the connection they share: the application calls any of
  the facades in any order, commands and updates arrive in between, and the connection may be lost
  at any time. The steps are those of the components; a step reads and writes its own part of the
  state and the world of the messaging library.
\<close>

subsection \<open>The state\<close>

text \<open>
  The state of the connection manager, which contains the world, and that of the singletons: the
  database, senders and log of \<open>StatusUtil\<close>, the instances of the other facades, and for callbacks
  the dictionary of activities and the calls of the application's handlers.
\<close>

record giapi = manager +
  g_db :: database
  g_senders :: "sender_type \<rightharpoonup> any_sender"
  g_lines :: "string list"
  g_commands :: "jms_command_util option"
  g_data :: "data_util option"
  g_services :: "services_util option"
  g_gemini :: "gemini_util option"
  g_activities :: activity_map
  g_handled :: "(nat \<times> action_id \<times> sequence_command \<times> activity \<times> configuration) list"
  g_changes :: "(nat \<times> epics_item option) list"

definition put_world :: "jms \<Rightarrow> giapi \<Rightarrow> giapi" where
  "put_world w s = s\<lparr>env := env w, log := log w, conn := conn w, msg := msg w\<rparr>"

definition new_giapi :: "environment \<Rightarrow> giapi" where
  "new_giapi en = \<lparr>env = en, log = [], conn = None, msg = None, errorHandlersFunctions = [], errorHandlerObjects = [],
     invoked = [], g_db = new_database, g_senders = Map.empty, g_lines = [], g_commands = None, g_data = None,
     g_services = None, g_gemini = None, g_activities = new_activityMap, g_handled = [], g_changes = []\<rparr>"

text \<open>The part of each component.\<close>

definition status_of :: "giapi \<Rightarrow> status_service" where
  "status_of s = \<lparr>sv_db = g_db s, sv_senders = g_senders s, sv_net = jms.truncate s, sv_lines = g_lines s\<rparr>"

definition on_status :: "(status_service, 'a) prog \<Rightarrow> (giapi, 'a) prog" where
  "on_status m = on_part status_of
     (\<lambda>p s. put_world (sv_net p) (s\<lparr>g_db := sv_db p, g_senders := sv_senders p, g_lines := sv_lines p\<rparr>)) m"

definition commands_of :: "giapi \<Rightarrow> command_service" where
  "commands_of s = \<lparr>cs_net = jms.truncate s, cs_instance = g_commands s\<rparr>"

definition on_commands :: "(command_service, 'a) prog \<Rightarrow> (giapi, 'a) prog" where
  "on_commands m = on_part commands_of (\<lambda>p s. put_world (cs_net p) (s\<lparr>g_commands := cs_instance p\<rparr>)) m"

definition data_of :: "giapi \<Rightarrow> data_util facade" where
  "data_of s = (g_data s, jms.truncate s)"

definition on_data :: "(data_util facade, 'a) prog \<Rightarrow> (giapi, 'a) prog" where
  "on_data m = on_part data_of (\<lambda>p s. put_world (snd p) (s\<lparr>g_data := fst p\<rparr>)) m"

definition services_of :: "giapi \<Rightarrow> services_util facade" where
  "services_of s = (g_services s, jms.truncate s)"

definition on_services :: "(services_util facade, 'a) prog \<Rightarrow> (giapi, 'a) prog" where
  "on_services m = on_part services_of (\<lambda>p s. put_world (snd p) (s\<lparr>g_services := fst p\<rparr>)) m"

definition gemini_of :: "giapi \<Rightarrow> gemini_util facade" where
  "gemini_of s = (g_gemini s, jms.truncate s)"

definition on_gemini :: "(gemini_util facade, 'a) prog \<Rightarrow> (giapi, 'a) prog" where
  "on_gemini m = on_part gemini_of (\<lambda>p s. put_world (snd p) (s\<lparr>g_gemini := fst p\<rparr>)) m"

definition on_manager :: "(manager, 'a) prog \<Rightarrow> (giapi, 'a) prog" where
  "on_manager m = on_part manager.truncate (\<lambda>p s. put_world (jms.truncate p)
     (s\<lparr>errorHandlersFunctions := errorHandlersFunctions p, errorHandlerObjects := errorHandlerObjects p, invoked := invoked p\<rparr>)) m"

definition client_of :: "giapi \<Rightarrow> client" where
  "client_of s = jms.extend (jms.truncate s) (client.fields (g_activities s) (g_handled s))"

definition on_client :: "(client, 'a) prog \<Rightarrow> (giapi, 'a) prog" where
  "on_client m = on_part client_of
     (\<lambda>p s. put_world (jms.truncate p) (s\<lparr>g_activities := act_map p, g_handled := handled p\<rparr>)) m"

definition epics_client_of :: "giapi \<Rightarrow> epics_client" where
  "epics_client_of s = jms.extend (jms.truncate s) (epics_client.fields (g_changes s))"

definition on_epics_client :: "(epics_client, 'a) prog \<Rightarrow> (giapi, 'a) prog" where
  "on_epics_client m = on_part epics_client_of (\<lambda>p s. put_world (jms.truncate p) (s\<lparr>g_changes := channel_changes p\<rparr>)) m"

subsection \<open>The steps\<close>

text \<open>
  A call of the application, the arrival of a message for a consumer, with the code of the
  application's handlers, or the loss of the connection, with the rounds of the loop that follows.
  The object of a message that arrives is made by the library.
\<close>

datatype giapi_event =
    StatusUtilCall service_call
  | CommandUtilCall command_call
  | DataUtilCall data_call
  | ServicesUtilCall services_call
  | GeminiUtilCall gemini_call
  | RegisterFunction nat
  | RegisterObject nat
  | CommandArrives consumer handler_code
  | UpdateArrives epics_consumer "nat \<Rightarrow> epics_item option \<Rightarrow> exn option" msg_class
  | ConnectionLost nat

datatype giapi_result =
    ACode int
  | AService services_result
  | AGemini gemini_result
  | Done
  | Recovered bool

definition hand_over :: "ptr \<Rightarrow> jms_obj \<Rightarrow> ('a jms_scheme, ptr) prog" where
  "hand_over session kind = bindp (reads (\<lambda>w. length (log w))) (\<lambda>m.
     thenp (modifies (\<lambda>w. w\<lparr>log := (Create session kind SharedPtr, True) # log w\<rparr>)) (ret m))"

fun perform :: "(f64 \<Rightarrow> string) \<Rightarrow> giapi_event \<Rightarrow> (giapi, giapi_result) prog" where
  "perform fmt (StatusUtilCall c) = bindp (on_status (service_step c)) (\<lambda>n. ret (ACode n))"
| "perform fmt (CommandUtilCall c) = bindp (on_commands (command_step c)) (\<lambda>n. ret (ACode n))"
| "perform fmt (DataUtilCall c) = bindp (on_data (data_step c)) (\<lambda>n. ret (ACode n))"
| "perform fmt (ServicesUtilCall c) = bindp (on_services (services_step c)) (\<lambda>r. ret (AService r))"
| "perform fmt (GeminiUtilCall c) = bindp (on_gemini (gemini_step fmt c)) (\<lambda>r. ret (AGemini r))"
| "perform fmt (RegisterFunction f) = bindp (on_manager (registerGmpErrorHandler_fun f)) (\<lambda>_. ret Done)"
| "perform fmt (RegisterObject h) = bindp (on_manager (registerGmpErrorHandler_obj h)) (\<lambda>_. ret Done)"
| "perform fmt (CommandArrives c code) =
     bindp (on_client (bindp (hand_over (c_session c) MapMessage) (\<lambda>m. onMessage code c m IsMap))) (\<lambda>_. ret Done)"
| "perform fmt (UpdateArrives c code cls) =
     bindp (on_epics_client (bindp (hand_over (c_session c) (if cls = IsBytes then BytesMessage else PlainMessage)) (\<lambda>m. epics_onMessage code c m cls))) (\<lambda>_. ret Done)"
| "perform fmt (ConnectionLost rounds) = bindp (on_manager (onException rounds)) (\<lambda>b. ret (Recovered b))"

text \<open>The consumers of commands and of channels that the singletons own.\<close>

definition command_consumers :: "giapi \<Rightarrow> consumer set" where
  "command_consumers s = (case g_commands s of None \<Rightarrow> {} | Some u \<Rightarrow> in_use (cu_holders u))"

definition channel_consumers :: "giapi \<Rightarrow> epics_consumer set" where
  "channel_consumers s = (case g_gemini s of None \<Rightarrow> {} | Some u \<Rightarrow> ran (em_consumers (gu_epicsMgr u)))"

text \<open>
  What may happen in a state: messages arrive for consumers that are owned, the handlers of the
  application return, and the arguments of a PCS update fit each other.
\<close>

fun enabled :: "(f64 \<Rightarrow> string) \<Rightarrow> giapi_event \<Rightarrow> giapi \<Rightarrow> bool" where
  "enabled fmt (GeminiUtilCall c) s \<longleftrightarrow> gemini_valid fmt c"
| "enabled fmt (CommandArrives c code) s \<longleftrightarrow> c \<in> command_consumers s \<and> handler_safe code"
| "enabled fmt (UpdateArrives c code cls) s \<longleftrightarrow> c \<in> channel_consumers s \<and> (\<forall>h it. code h it = None)"
| "enabled fmt e s \<longleftrightarrow> True"

inductive moves :: "(f64 \<Rightarrow> string) \<Rightarrow> giapi \<Rightarrow> giapi_event \<Rightarrow> giapi \<Rightarrow> bool" for fmt where
  returns: "enabled fmt e s \<Longrightarrow> perform fmt e s = (Val r, t) \<Longrightarrow> moves fmt s e t"
| throws: "enabled fmt e s \<Longrightarrow> perform fmt e s = (Exn x, t) \<Longrightarrow> moves fmt s e t"

inductive reachable :: "(f64 \<Rightarrow> string) \<Rightarrow> environment \<Rightarrow> giapi \<Rightarrow> bool" for fmt en where
  program_start: "reachable fmt en (new_giapi en)"
| program_step: "reachable fmt en s \<Longrightarrow> moves fmt s e t \<Longrightarrow> reachable fmt en t"

inductive_cases moves_cases: "moves fmt s e t"

subsection \<open>The invariant\<close>

text \<open>
  Every component has its own invariant in the shared world. For the two that listen, the consumers
  of the other are the foreign ones.
\<close>

definition giapi_inv :: "giapi \<Rightarrow> bool" where
  "giapi_inv s \<longleftrightarrow> service_inv (status_of s) \<and> command_inv_with (c_consumer ` channel_consumers s) (commands_of s) \<and>
     data.facade_inv (data_of s) \<and> services_inv (services_of s) \<and>
     gemini_inv_with (c_consumer ` command_consumers s) (gemini_of s) \<and> activity_map_ok (g_activities s)"

lemma truncate_sel [simp]: "log (jms.truncate s) = log s" "env (jms.truncate s) = env s" "conn (jms.truncate s) = conn s"
  by (simp_all add: jms.truncate_def)

lemma truncate_truncate [simp]: "jms.truncate (jms.truncate s) = jms.truncate s"
  by (simp add: jms.truncate_def)

lemma truncate_later [simp]: "net_later (jms.truncate s) w = net_later s w" "net_later w (jms.truncate s) = net_later w s"
    "goes_on (jms.truncate s) w = goes_on s w" "goes_on w (jms.truncate s) = goes_on w s"
    "world_ok (jms.truncate s) = world_ok s"
  by (simp_all add: net_later_def goes_on_def world_ok_def)

lemma put_world_sel [simp]: "jms.truncate (put_world w s) = w" "log (put_world w s) = log w" "env (put_world w s) = env w"
    "conn (put_world w s) = conn w"
    "g_db (put_world w s) = g_db s" "g_senders (put_world w s) = g_senders s" "g_lines (put_world w s) = g_lines s"
    "g_commands (put_world w s) = g_commands s" "g_data (put_world w s) = g_data s" "g_services (put_world w s) = g_services s"
    "g_gemini (put_world w s) = g_gemini s" "g_activities (put_world w s) = g_activities s"
  by (simp_all add: put_world_def jms.truncate_def)

lemma served_reframe:
  assumes "served_with F R w" and "goes_on w w'" and "typed_listeners (log w')"
    and "set (listening (log w')) = c_consumer ` R \<union> F'" and "c_consumer ` R \<inter> F' = {}"
  shows "served_with F' R w'"
  using assms unfolding served_with_def
  by (auto simp: goes_on_def log_later_obj_at alive_less consumer_ready_def intro: log_later_alive)

lemma served_listening:
  "served_with F R w \<Longrightarrow> set (listening (log w)) = c_consumer ` R \<union> F \<and> c_consumer ` R \<inter> F = {} \<and> typed_listeners (log w) \<and> world_ok w"
  by (simp add: served_with_def)

lemma command_served: "command_inv_with F (commands_of s) \<Longrightarrow> served_with F (command_consumers s) (jms.truncate s)"
  by (auto simp: command_inv_with_def commands_of_def command_consumers_def split: option.splits)

lemma channel_served: "gemini_inv_with F (gemini_of s) \<Longrightarrow> served_with F (channel_consumers s) (jms.truncate s)"
  by (auto simp: gemini_inv_with_def gemini_of_def channel_consumers_def gemini.facade_inv_def nobody_with_def
    gemini_ok_with_def epics_inv_with_def split: option.splits)

text \<open>Who listens.\<close>

lemma inv_listening:
  assumes "giapi_inv s"
  shows "world_ok s" "typed_listeners (log s)"
    "set (listening (log s)) = c_consumer ` command_consumers s \<union> c_consumer ` channel_consumers s"
    "c_consumer ` command_consumers s \<inter> c_consumer ` channel_consumers s = {}"
  using served_listening [OF command_served] assms by (auto simp: giapi_inv_def)

text \<open>Each part in a later world that hears its consumers.\<close>

lemma status_kept:
  "giapi_inv s \<Longrightarrow> goes_on s w \<Longrightarrow> typed_listeners (log w) \<Longrightarrow> service_inv ((status_of s)\<lparr>sv_net := w\<rparr>)"
  by (fastforce simp: giapi_inv_def service_inv_def status_of_def goes_on_def intro: sender_ready_later)

lemma commands_kept:
  assumes "giapi_inv s" "goes_on s w" "typed_listeners (log w)"
    and "set (listening (log w)) = c_consumer ` command_consumers s \<union> F" "c_consumer ` command_consumers s \<inter> F = {}"
  shows "command_inv_with F ((commands_of s)\<lparr>cs_net := w\<rparr>)"
proof -
  have c: "command_inv_with (c_consumer ` channel_consumers s) (commands_of s)" using assms(1) by (simp add: giapi_inv_def)
  have "served_with F (command_consumers s) w"
    by (rule served_reframe [OF command_served [OF c]]) (use assms in simp_all)
  with c assms(2) show ?thesis
    by (auto simp: command_inv_with_def commands_of_def command_consumers_def goes_on_def simp del: key.simps
      split: option.splits intro: ready_later topics_ok_calm)
qed

lemma data_kept: "giapi_inv s \<Longrightarrow> goes_on s w \<Longrightarrow> data.facade_inv (g_data s, w)"
  by (auto simp: giapi_inv_def data_of_def data.facade_inv_def data_ok_def goes_on_def simp del: key.simps
    split: option.splits intro: ready_later)

lemma services_kept: "giapi_inv s \<Longrightarrow> goes_on s w \<Longrightarrow> services_inv (g_services s, w)"
  by (auto simp: giapi_inv_def services_inv_def services_of_def services.facade_inv_def services_ok_def goes_on_def
    simp del: key.simps split: option.splits intro: ready_later)

lemma gemini_kept:
  assumes "giapi_inv s" "goes_on s w" "typed_listeners (log w)"
    and "set (listening (log w)) = c_consumer ` channel_consumers s \<union> F" "c_consumer ` channel_consumers s \<inter> F = {}"
  shows "gemini_inv_with F (g_gemini s, w)"
proof -
  have c: "gemini_inv_with (c_consumer ` command_consumers s) (gemini_of s)" using assms(1) by (simp add: giapi_inv_def)
  have "served_with F (channel_consumers s) w"
    by (rule served_reframe [OF channel_served [OF c]]) (use assms in simp_all)
  with c assms(2) show ?thesis
    by (auto simp: gemini_inv_with_def gemini_of_def channel_consumers_def gemini.facade_inv_def nobody_with_def
      gemini_ok_with_def epics_inv_with_def goes_on_def simp del: key.simps split: option.splits
      intro: ready_later log_later_alive hears_later)
qed

subsection \<open>Every step keeps it\<close>

lemma part_updates [simp]:
  "jms.truncate (s\<lparr>g_db := a\<rparr>) = jms.truncate s" "jms.truncate (s\<lparr>g_senders := b\<rparr>) = jms.truncate s"
  "jms.truncate (s\<lparr>g_lines := c\<rparr>) = jms.truncate s" "jms.truncate (s\<lparr>g_commands := d\<rparr>) = jms.truncate s"
  "jms.truncate (s\<lparr>g_data := e\<rparr>) = jms.truncate s" "jms.truncate (s\<lparr>g_services := f\<rparr>) = jms.truncate s"
  "jms.truncate (s\<lparr>g_gemini := g\<rparr>) = jms.truncate s" "jms.truncate (s\<lparr>g_activities := h\<rparr>) = jms.truncate s"
  "jms.truncate (s\<lparr>g_handled := i\<rparr>) = jms.truncate s" "jms.truncate (s\<lparr>g_changes := j\<rparr>) = jms.truncate s"
  "jms.truncate (s\<lparr>errorHandlersFunctions := k\<rparr>) = jms.truncate s"
  "jms.truncate (s\<lparr>errorHandlerObjects := l\<rparr>) = jms.truncate s" "jms.truncate (s\<lparr>invoked := m\<rparr>) = jms.truncate s"
  by (simp_all add: jms.truncate_def)

lemmas parts = status_of_def commands_of_def data_of_def services_of_def gemini_of_def command_consumers_def channel_consumers_def

text \<open>A step that leaves the listeners alone: all other parts are as before in the new world.\<close>

lemma others_kept:
  assumes inv: "giapi_inv s" and w: "world_ok w" "net_later s w"
  shows "service_inv ((status_of s)\<lparr>sv_net := w\<rparr>)"
    "command_inv_with (c_consumer ` channel_consumers s) ((commands_of s)\<lparr>cs_net := w\<rparr>)"
    "data.facade_inv (g_data s, w)" "services_inv (g_services s, w)"
    "gemini_inv_with (c_consumer ` command_consumers s) (g_gemini s, w)" "activity_map_ok (g_activities s)"
proof -
  have g: "goes_on s w" "typed_listeners (log w)" "listening (log w) = listening (log s)"
    using w inv_listening(2) [OF inv] by (auto simp: goes_on_def net_later_def unheard_def intro: typed_unheard [unfolded unheard_def])
  note l = inv_listening [OF inv]
  show "service_inv ((status_of s)\<lparr>sv_net := w\<rparr>)" by (rule status_kept [OF inv g(1,2)])
  show "command_inv_with (c_consumer ` channel_consumers s) ((commands_of s)\<lparr>cs_net := w\<rparr>)"
    by (rule commands_kept [OF inv g(1,2)]) (use l g in auto)
  show "data.facade_inv (g_data s, w)" by (rule data_kept [OF inv g(1)])
  show "services_inv (g_services s, w)" by (rule services_kept [OF inv g(1)])
  show "gemini_inv_with (c_consumer ` command_consumers s) (g_gemini s, w)"
    by (rule gemini_kept [OF inv g(1,2)]) (use l g in auto)
  show "activity_map_ok (g_activities s)" using inv by (simp add: giapi_inv_def)
qed

lemma status_step_keeps:
  assumes inv: "giapi_inv s"
  shows "sat (\<lambda>_ t. giapi_inv t) (\<lambda>x t. throws_class GiapiException x \<and> giapi_inv t) (on_status (service_step c) s)"
proof -
  have "giapi_inv (put_world (sv_net p) (s\<lparr>g_db := sv_db p, g_senders := sv_senders p, g_lines := sv_lines p\<rparr>))"
    if p: "service_inv p" "service_later (status_of s) p" for p
  proof -
    have "world_ok (sv_net p)" "net_later s (sv_net p)"
      using p by (simp_all add: service_inv_def service_later_def status_of_def)
    note o = others_kept [OF inv this]
    have "service_inv \<lparr>sv_db = sv_db p, sv_senders = sv_senders p, sv_net = sv_net p, sv_lines = sv_lines p\<rparr>"
      using p(1) by (cases p) simp
    with o(2-) show ?thesis by (simp add: giapi_inv_def parts)
  qed
  moreover have "service_inv (status_of s)" using inv by (simp add: giapi_inv_def)
  ultimately show ?thesis
    unfolding on_status_def sat_on_part by (intro sat_mono [OF service_step_sat]) auto
qed

lemma data_step_keeps:
  assumes inv: "giapi_inv s"
  shows "sat (\<lambda>_ t. giapi_inv t) (\<lambda>x t. throws_class GiapiException x \<and> giapi_inv t) (on_data (data_step c) s)"
proof -
  have d: "data.facade_inv (data_of s)" using inv by (simp add: giapi_inv_def)
  have heard: "unheard (log s) (log (snd (snd (data_step c (data_of s)))))"
    using data_step_unheard [OF d, of c] inv_listening(2) [OF inv] by (simp add: data_of_def)
  have "giapi_inv (put_world (snd p) (s\<lparr>g_data := fst p\<rparr>))"
    if p: "data.facade_inv p" "goes_on s (snd p)" "unheard (log s) (log (snd p))" for p
  proof -
    have "world_ok (snd p)" "net_later s (snd p)" using p by (simp_all add: goes_on_def net_later_def)
    note o = others_kept [OF inv this]
    from o p(1) show ?thesis by (simp add: giapi_inv_def parts)
  qed
  then show ?thesis
    using data_calls.step_sat [OF d, of c] heard unfolding on_data_def sat_on_part
    by (cases "data_step c (data_of s)" rule: res_cases) (auto simp: data_of_def dest: routed_goes_on goes_on_calm)
qed

lemma services_step_keeps:
  assumes inv: "giapi_inv s"
  shows "sat (\<lambda>_ t. giapi_inv t) (\<lambda>x t. throws_class GiapiException x \<and> giapi_inv t) (on_services (services_step c) s)"
proof -
  have d: "services_inv (services_of s)" using inv by (simp add: giapi_inv_def)
  have heard: "unheard (log s) (log (snd (snd (services_step c (services_of s)))))"
    using services_step_unheard [of "services_of s" c] d inv_listening(2) [OF inv] by (simp add: services_of_def services_inv_def)
  have "giapi_inv (put_world (snd p) (s\<lparr>g_services := fst p\<rparr>))"
    if p: "services_inv p" "goes_on s (snd p)" "unheard (log s) (log (snd p))" for p
  proof -
    have "world_ok (snd p)" "net_later s (snd p)" using p by (simp_all add: goes_on_def net_later_def)
    note o = others_kept [OF inv this]
    from o p(1) show ?thesis by (simp add: giapi_inv_def parts)
  qed
  then show ?thesis
    using services_step_sat [OF d, of c] heard unfolding on_services_def sat_on_part
    by (cases "services_step c (services_of s)" rule: res_cases) (auto simp: services_of_def)
qed

text \<open>The two that listen: their own consumers may change, those of the other may not.\<close>

lemma command_step_keeps:
  assumes inv: "giapi_inv s"
  shows "sat (\<lambda>_ t. giapi_inv t) (\<lambda>x t. throws_class GiapiException x \<and> giapi_inv t) (on_commands (command_step c) s)"
proof -
  have "giapi_inv (put_world (cs_net p) (s\<lparr>g_commands := cs_instance p\<rparr>))"
    if p: "command_inv_with (c_consumer ` channel_consumers s) p" "command_later (commands_of s) p" for p
  proof -
    let ?R = "case cs_instance p of None \<Rightarrow> {} | Some u \<Rightarrow> in_use (cu_holders u)"
    have "served_with (c_consumer ` channel_consumers s) ?R (cs_net p)"
      using p(1) by (auto simp: command_inv_with_def split: option.splits)
    note l = served_listening [OF this]
    have g: "goes_on s (cs_net p)" using p(2) l by (simp add: goes_on_def command_later_def commands_of_def)
    have "gemini_inv_with (c_consumer ` ?R) (g_gemini s, cs_net p)"
      by (rule gemini_kept [OF inv g]) (use l in auto)
    moreover have "command_inv_with (c_consumer ` channel_consumers s) \<lparr>cs_net = cs_net p, cs_instance = cs_instance p\<rparr>"
      using p(1) by (cases p) simp
    ultimately show ?thesis
      using status_kept [OF inv g] data_kept [OF inv g] services_kept [OF inv g] l inv by (simp add: giapi_inv_def parts)
  qed
  moreover have "command_inv_with (c_consumer ` channel_consumers s) (commands_of s)" using inv by (simp add: giapi_inv_def)
  ultimately show ?thesis
    unfolding on_commands_def sat_on_part by (intro sat_mono [OF command_step_sat]) auto
qed

lemma gemini_step_keeps:
  assumes inv: "giapi_inv s" and valid: "gemini_valid fmt c"
  shows "sat (\<lambda>_ t. giapi_inv t) (\<lambda>x t. throws_class GiapiException x \<and> giapi_inv t) (on_gemini (gemini_step fmt c) s)"
proof -
  have "giapi_inv (put_world (snd p) (s\<lparr>g_gemini := fst p\<rparr>))"
    if p: "gemini_inv_with (c_consumer ` command_consumers s) p" "goes_on (snd (gemini_of s)) (snd p)" for p
  proof -
    let ?R = "case fst p of None \<Rightarrow> {} | Some u \<Rightarrow> ran (em_consumers (gu_epicsMgr u))"
    have "served_with (c_consumer ` command_consumers s) ?R (snd p)"
      using p(1) by (cases p) (auto simp: gemini_inv_with_def gemini.facade_inv_def nobody_with_def
        gemini_ok_with_def epics_inv_with_def split: option.splits)
    note l = served_listening [OF this]
    have g: "goes_on s (snd p)" using p(2) by (simp add: gemini_of_def)
    have "command_inv_with (c_consumer ` ?R) ((commands_of s)\<lparr>cs_net := snd p\<rparr>)"
      by (rule commands_kept [OF inv g]) (use l in auto)
    then show ?thesis
      using status_kept [OF inv g] data_kept [OF inv g] services_kept [OF inv g] l p(1) inv by (simp add: giapi_inv_def parts)
  qed
  moreover have "gemini_inv_with (c_consumer ` command_consumers s) (gemini_of s)" using inv by (simp add: giapi_inv_def)
  ultimately show ?thesis
    unfolding on_gemini_def sat_on_part by (intro sat_mono [OF gemini_step_sat [OF _ valid]]) auto
qed

text \<open>The connection manager.\<close>

lemma manager_keeps:
  assumes inv: "giapi_inv s"
    and m: "sat (\<lambda>_ t. world_ok t \<and> net_later s t) (\<lambda>x t. E x \<and> world_ok t \<and> net_later s t) (m (manager.truncate s))"
  shows "sat (\<lambda>_ t. giapi_inv t) (\<lambda>x t. E x \<and> giapi_inv t) (on_manager m s)"
proof -
  have "giapi_inv (put_world (jms.truncate p) (s\<lparr>errorHandlersFunctions := a, errorHandlerObjects := b, invoked := c\<rparr>))"
    if "world_ok p" "net_later s p" for p :: manager and a b c
    using others_kept [OF inv, of "jms.truncate p"] that by (simp add: giapi_inv_def parts)
  then show ?thesis
    unfolding on_manager_def sat_on_part by (intro sat_mono [OF m]) auto
qed

lemma manager_truncate_sel [simp]: "log (manager.truncate s) = log s" "env (manager.truncate s) = env s"
    "conn (manager.truncate s) = conn s"
  by (simp_all add: manager.truncate_def)

lemma manager_truncate_later [simp]: "world_ok (manager.truncate s) = world_ok s" "net_later (manager.truncate s) = net_later s"
  by (simp_all add: world_ok_def net_later_def fun_eq_iff)

lemma net_later_quiet: "quiet w v \<Longrightarrow> unheard (log w) (log v) \<Longrightarrow> world_ok v \<and> net_later w v"
  by (auto simp: quiet_def calm_ok intro: net_later_calm)

lemma startup_later:
  assumes "world_ok w"
  shows "sat (\<lambda>_ v. world_ok v \<and> net_later w v) (\<lambda>e v. throws_class GmpException e \<and> world_ok v \<and> net_later w v) (startup w)"
  by (rule sat_mono [OF sat_conj [OF startup_sat [OF assms] startup_unheard [OF assms]]]) (auto dest: net_later_quiet)

lemma Instance_later:
  assumes "world_ok w"
  shows "sat (\<lambda>_ v. world_ok v \<and> net_later w v) (\<lambda>e v. throws_class GmpException e \<and> world_ok v \<and> net_later w v) (Instance w)"
  by (rule sat_mono [OF sat_conj [OF Instance_sat [OF assms] Instance_unheard [OF assms]]]) (auto dest: net_later_quiet)

lemma reconnect_later:
  assumes "world_ok w"
  shows "sat (\<lambda>_ v. world_ok v \<and> net_later w v) (\<lambda>_ _. False) (reconnect n w)"
  using assms
proof (induction n arbitrary: w)
  case (Suc n)
  have again: "sat (\<lambda>_ v'. world_ok v' \<and> net_later w v') (\<lambda>_ _. False) (reconnect n v)" if "world_ok v" "net_later w v" for v
    by (rule sat_mono [OF Suc.IH [OF that(1)]]) (use that(2) in \<open>auto intro: net_later_trans\<close>)
  show ?case
    by (auto simp: wp again elim!: sat_mono intro!: sat_mono [OF startup_later [OF Suc.prems]])
qed simp

lemma registration_keeps:
  assumes inv: "giapi_inv s"
  shows "sat (\<lambda>_ t. giapi_inv t) (\<lambda>x t. throws_class GiapiException x \<and> giapi_inv t) (on_manager (registerGmpErrorHandler_fun f) s)"
    "sat (\<lambda>_ t. giapi_inv t) (\<lambda>x t. throws_class GiapiException x \<and> giapi_inv t) (on_manager (registerGmpErrorHandler_obj h) s)"
proof -
  let ?w = "manager.truncate s"
  have w: "world_ok ?w" using inv_listening(1) [OF inv] by simp
  have E: "throws_class GmpException e \<Longrightarrow> throws_class CommunicationException e \<and> throws_class GiapiException e \<and> \<not> is_cms e" for e
    by (cases e) (auto intro: exn_is_a_trans exn_is_a_simps)
  have set: "world_ok (v\<lparr>errorHandlersFunctions := a\<rparr>) = world_ok v" "net_later u (v\<lparr>errorHandlersFunctions := a\<rparr>) = net_later u v"
      "world_ok (v\<lparr>errorHandlerObjects := b\<rparr>) = world_ok v" "net_later u (v\<lparr>errorHandlerObjects := b\<rparr>) = net_later u v"
    for u :: giapi and v :: manager and a b by (simp_all add: world_ok_def net_later_def)
  note later = Instance_later [OF w, simplified]
  show "sat (\<lambda>_ t. giapi_inv t) (\<lambda>x t. throws_class GiapiException x \<and> giapi_inv t) (on_manager (registerGmpErrorHandler_fun f) s)"
    by (rule manager_keeps [OF inv])
      (auto simp: registerGmpErrorHandler_fun_def registerOperation_def wp set E intro!: sat_mono [OF later])
  show "sat (\<lambda>_ t. giapi_inv t) (\<lambda>x t. throws_class GiapiException x \<and> giapi_inv t) (on_manager (registerGmpErrorHandler_obj h) s)"
    by (rule manager_keeps [OF inv])
      (auto simp: registerGmpErrorHandler_obj_def registerHandler_def wp set E intro!: sat_mono [OF later])
qed

lemma onException_later:
  assumes w: "world_ok w"
  shows "sat (\<lambda>_ v. world_ok v \<and> net_later w v) (\<lambda>e v. is_cms e \<and> world_ok v \<and> net_later w v) (onException n w)"
proof -
  have after: "sat (\<lambda>_ v. world_ok v \<and> net_later w v) (\<lambda>e v. is_cms e \<and> world_ok v \<and> net_later w v)
      (bindp (reconnect n) (\<lambda>connected. if \<not> connected then ret False else
       bindp (reads errorHandlersFunctions) (\<lambda>fs. thenp (run_functions fs)
      (bindp (reads errorHandlerObjects) (\<lambda>hs. thenp (run_objects hs) (ret True))))) u)"
    if u: "world_ok u" "net_later w u" for u
    unfolding sat_bindp
    by (rule sat_mono [OF reconnect_later [OF u(1)]])
      (use net_later_trans [OF u(2)] in \<open>auto simp: wp run_functions_run run_objects_run world_ok_def net_later_def\<close>)
  show ?thesis
  proof (cases "conn w")
    case None
    then have "world_ok (w\<lparr>conn := None\<rparr>)" "net_later w (w\<lparr>conn := None\<rparr>)"
      using w by (simp_all add: world_ok_def net_later_def)
    from after [OF this] None show ?thesis by (simp add: onException_def thenp_def bindp_def)
  next
    case (Some c)
    let ?v = "\<lambda>b. w\<lparr>log := (StopConnection c, b) # log w\<rparr>"
    have c: "alive (log w) c" using w Some by (simp add: world_ok_def)
    then have v: "world_ok (?v b)" "net_later w (?v b)" for b
      using w by (auto simp: world_ok_def net_later_def alive_def unheard_call)
    have "world_ok ((?v True)\<lparr>conn := None\<rparr>)" "net_later w ((?v True)\<lparr>conn := None\<rparr>)"
      using v [of True] by (simp_all add: world_ok_def net_later_def)
    note rest = after [OF this]
    show ?thesis
      unfolding onException_def sat_thenp sat_modifies sat_bindp [of _ _ "reads conn"] sat_reads Some option.case
      by (rule sat_jcall) (use c v rest in auto)
  qed
qed

lemma recovery_keeps:
  assumes inv: "giapi_inv s"
  shows "sat (\<lambda>_ t. giapi_inv t) (\<lambda>x t. is_cms x \<and> giapi_inv t) (on_manager (onException n) s)"
  using inv_listening(1) [OF inv] onException_later [of "manager.truncate s" n]
  by (intro manager_keeps [OF inv]) simp

text \<open>The callbacks.\<close>

lemma hand_over_run:
  "bindp (hand_over p kind) k w = k (length (log w)) (w\<lparr>log := (Create p kind SharedPtr, True) # log w\<rparr>)"
  by (simp add: hand_over_def bindp_def)

lemma hushed_modifies: "(\<And>w. log (f w) = log w) \<Longrightarrow> hushed b (modifies f) (\<lambda>_. True)"
  by (simp add: hushed_def)

lemma mutes_read_config: "mutes (read_config m ns cfg)"
  by (induction ns arbitrary: cfg) (auto simp del: ret_run intro!: mute_intros)

lemma hushed_Send: "hushed b (jcall (Send p d m)) (\<lambda>_. True)"
  by (auto intro!: hushed_mutes mutes_jcall)

lemma hushed_send_reply:
  assumes "typed_listeners b"
  shows "hushed b (send_reply c d r) (\<lambda>_. True)"
  unfolding send_reply_def makeHandlerResponseMsg_puts
  by (cases r) (rule hush_intros hushed_Send hushed_close [OF assms] TrueI | assumption | simp only: option.case)+

lemma hushed_client [hush_intros]: "hushed b (on_part act_map (\<lambda>am w. w\<lparr>act_map := am\<rparr>) m) (\<lambda>_. True)"
  by (auto simp: hushed_def on_part_def split: prod.split)

lemma hushed_onMessage:
  assumes "typed_listeners b"
  shows "hushed b (onMessage code c m cls) (\<lambda>_. True)"
proof -
  have call: "hushed b (call_handler code h a cmd act cfg) (\<lambda>_. True)" for h a cmd act cfg
    unfolding call_handler_def
    by (cases "code h a cmd act cfg") (auto simp del: ret_run throw_run intro!: hush_intros hushed_modifies)
  have read: "hushed b (jread f x) (\<lambda>_. True)" if "read_call x" for f :: "environment \<Rightarrow> jms_call list \<Rightarrow> 'r" and x
    using that by (cases x) (auto intro!: hushed_mutes mute_intros)
  show ?thesis
    unfolding onMessage_def
    by (auto simp del: ret_run undef_run intro!: hush_intros read call hushed_send_reply [OF assms] hushed_mutes [OF mutes_read_config])
qed

lemma hand_over_later:
  assumes "world_ok w" and "alive (log w) p" and "pointers (Create p kind SharedPtr) = [p]"
  defines "v \<equiv> w\<lparr>log := (Create p kind SharedPtr, True) # log w\<rparr>"
  shows "world_ok v" "net_later w v" "alive (log v) (length (log w))" "alive (log v) p"
  using assms alive_fresh [of "log w"]
  by (auto simp: world_ok_def net_later_def alive_def unheard_call intro: unheard_call)

lemma client_of_sel [simp]: "log (client_of s) = log s" "env (client_of s) = env s" "conn (client_of s) = conn s"
    "act_map (client_of s) = g_activities s" "handled (client_of s) = g_handled s"
  by (simp_all add: client_of_def jms.extend_def client.fields_def jms.truncate_def)

lemma epics_client_of_sel [simp]: "log (epics_client_of s) = log s" "env (epics_client_of s) = env s"
    "conn (epics_client_of s) = conn s"
  by (simp_all add: epics_client_of_def jms.extend_def epics_client.fields_def jms.truncate_def)

lemma client_of_later [simp]: "net_later (client_of s) = net_later s" "world_ok (client_of s) = world_ok s"
    "net_later (epics_client_of s) = net_later s" "world_ok (epics_client_of s) = world_ok s"
  by (simp_all add: net_later_def world_ok_def fun_eq_iff)

lemma command_arrives_keeps:
  assumes inv: "giapi_inv s" and c: "c \<in> command_consumers s" and code: "handler_safe code"
  shows "sat (\<lambda>_ t. giapi_inv t) (\<lambda>_ _. False)
    (on_client (bindp (hand_over (c_session c) MapMessage) (\<lambda>m. onMessage code c m IsMap)) s)"
proof -
  let ?w = "client_of s" and ?m = "length (log s)"
  let ?v = "?w\<lparr>log := (Create (c_session c) MapMessage SharedPtr, True) # log ?w\<rparr>"
  note l = inv_listening [OF inv]
  have "consumer_ready c (jms.truncate s)"
    using command_served [of "c_consumer ` channel_consumers s" s] inv c by (auto simp: giapi_inv_def served_with_def)
  then have "alive (log ?w) (c_session c)" "world_ok ?w" by (simp_all add: consumer_ready_def)
  from hand_over_later [OF this(2,1), of MapMessage]
  have v: "world_ok ?v" "net_later s ?v" "alive (log ?v) ?m" "alive (log ?v) (c_session c)" by simp_all
  have ok: "client_ok ?v" using v(1) inv by (simp add: client_ok_def giapi_inv_def)
  have base: "unheard (log s) (log ?v)" using v(2) by (simp add: net_later_def)
  have "sat (\<lambda>_ t. client_ok t \<and> log_later (log ?v) (log t) \<and> callback_effect code c ?m ?v t) (\<lambda>_ _. False) (onMessage code c ?m IsMap ?v)"
    by (rule sat_mono [OF onMessage_sat [OF ok _ _ code]]) (use v(3,4) in \<open>simp_all add: answered_def\<close>)
  moreover have "unheard (log s) (log (snd (onMessage code c ?m IsMap ?v)))"
    using hushed_onMessage [OF l(2)] base unfolding hushed_def by blast
  ultimately have run: "sat (\<lambda>_ t. client_ok t \<and> log_later (log ?v) (log t) \<and> callback_effect code c ?m ?v t \<and> unheard (log s) (log t))
      (\<lambda>_ _. False) (onMessage code c ?m IsMap ?v)"
    by (cases "onMessage code c ?m IsMap ?v" rule: res_cases) auto
  have "giapi_inv (put_world (jms.truncate t) (s\<lparr>g_activities := act_map t, g_handled := handled t\<rparr>))"
    if t: "client_ok t" "log_later (log ?v) (log t)" "callback_effect code c ?m ?v t" "unheard (log s) (log t)" for t
  proof -
    have later: "log_later (log s) (log t)" by (rule log_later_trans [OF _ t(2)]) simp
    have e: "env t = env s" "suffix (sent (log s)) (sent (log t))"
      using t(3) by (auto simp: callback_effect_def Let_def suffix_Cons)
    have "net_later s (jms.truncate t)" "world_ok (jms.truncate t)"
      using later e t(1,4) by (simp_all add: net_later_def client_ok_def)
    from others_kept [OF inv this(2,1)] t(1) show ?thesis by (simp add: giapi_inv_def parts client_ok_def)
  qed
  with run show ?thesis
    by (auto simp: on_client_def sat_on_part hand_over_run elim!: sat_mono)
qed

lemma update_arrives_keeps:
  assumes inv: "giapi_inv s" and c: "c \<in> channel_consumers s" and code: "\<And>h it. code h it = None"
  shows "sat (\<lambda>_ t. giapi_inv t) (\<lambda>_ _. False) (on_epics_client
    (bindp (hand_over (c_session c) (if cls = IsBytes then BytesMessage else PlainMessage)) (\<lambda>m. epics_onMessage code c m cls)) s)"
proof -
  let ?w = "epics_client_of s" and ?m = "length (log s)" and ?kind = "if cls = IsBytes then BytesMessage else PlainMessage"
  let ?v = "?w\<lparr>log := (Create (c_session c) ?kind SharedPtr, True) # log ?w\<rparr>"
  note l = inv_listening [OF inv]
  have "consumer_ready c (jms.truncate s)"
    using channel_served [of "c_consumer ` command_consumers s" s] inv c by (auto simp: giapi_inv_def served_with_def)
  then have "alive (log ?w) (c_session c)" "world_ok ?w" by (simp_all add: consumer_ready_def)
  from hand_over_later [OF this(2,1), of ?kind]
  have v: "world_ok ?v" "net_later s ?v" "alive (log ?v) ?m" "alive (log ?v) (c_session c)" by simp_all
  have en: "gemini_env (env s)" using inv by (simp add: giapi_inv_def gemini_inv_with_def gemini_of_def)
  have "sat (\<lambda>_ t. world_ok t \<and> net_later s t) (\<lambda>_ _. False) (epics_onMessage code c ?m cls ?v)"
  proof (cases "cls = IsBytes")
    case False
    with v show ?thesis by (simp add: epics_onMessage_def wp)
  next
    case True
    have r: "received (map fst (log ?v)) ?m" using True by (simp add: received_def nth_append)
    have "sat (\<lambda>_ t. calm ?v t \<and> unheard (log ?v) (log t)) (\<lambda>_ t. False \<and> unheard (log ?v) (log t)) (buildEpicsStatusItem ?m ?v)"
      by (rule sat_mutes [OF buildEpicsStatusItem_sat mutes_buildEpicsStatusItem])
        (use v r True en in \<open>auto simp: gemini_env_def\<close>)
    moreover have "world_ok t \<and> net_later s t" if "calm ?v t" "unheard (log ?v) (log t)" for t :: epics_client
      using net_later_trans [OF v(2) net_later_calm [OF that]] that(1) by (simp add: calm_ok)
    ultimately show ?thesis
      using True code by (auto simp: epics_onMessage_def channelChanged_def wp world_ok_def net_later_def elim!: sat_mono)
  qed
  moreover have "giapi_inv (put_world (jms.truncate t) (s\<lparr>g_changes := channel_changes t\<rparr>))"
    if "world_ok t" "net_later s t" for t
    using others_kept [OF inv, of "jms.truncate t"] that by (simp add: giapi_inv_def parts)
  ultimately show ?thesis
    by (auto simp: on_epics_client_def sat_on_part hand_over_run elim!: sat_mono)
qed

end
