(* ===== verification/System_End.thy ===== *)
theory System_End
  imports System
begin

section \<open>The life of the program\<close>

text \<open>
  What all steps of the whole library have in common, the end of the program by the destructors of
  the singletons, and the sessions that the singletons hold on to.
\<close>

subsection \<open>Every step and every reachable state\<close>

text \<open>The exceptions a step may let out: the callbacks of the listeners throw nothing.\<close>

fun surfaces :: "giapi_event \<Rightarrow> exn \<Rightarrow> bool" where
  "surfaces (CommandArrives c code) x = False"
| "surfaces (UpdateArrives c code cls) x = False"
| "surfaces (ConnectionLost n) x = is_cms x"
| "surfaces e x = throws_class GiapiException x"

lemma perform_keeps:
  assumes inv: "giapi_inv s" and e: "enabled fmt e s"
  shows "sat (\<lambda>_ t. giapi_inv t) (\<lambda>x t. surfaces e x \<and> giapi_inv t) (perform fmt e s)"
proof (cases "(fmt, e)" rule: perform.cases)
  case (5 f c)
  with e gemini_step_keeps [OF inv, of fmt c] show ?thesis by (simp add: sat_bindp)
next
  case (8 f c code)
  with e command_arrives_keeps [OF inv, of c code] show ?thesis by (auto simp: sat_bindp elim!: sat_mono)
next
  case (9 f c code cls)
  with e update_arrives_keeps [OF inv, of c code cls] show ?thesis by (auto simp: sat_bindp elim!: sat_mono)
qed (use status_step_keeps [OF inv] command_step_keeps [OF inv] data_step_keeps [OF inv] services_step_keeps [OF inv]
    registration_keeps [OF inv] recovery_keeps [OF inv] in \<open>simp_all add: sat_bindp\<close>)

text \<open>
  The answers the components rely on, together: nothing is asked of the calls that come before a
  request is sent, and of the status and the command service nothing at all.
\<close>

definition system_env :: "environment \<Rightarrow> bool" where
  "system_env en \<longleftrightarrow> gemini_env en \<and> names_ok en \<and> replies_ok en"

lemma new_giapi_inv: "system_env en \<Longrightarrow> giapi_inv (new_giapi en)"
  using service_inv_new [of en] command_inv_new [of en] gemini_inv_start [of en]
  by (auto simp: giapi_inv_def system_env_def parts new_giapi_def jms.truncate_def new_service_def new_command_service_def
    start_def data.facade_inv_def services_inv_def services.facade_inv_def world_ok_def activity_map_ok_new)

lemma reachable_inv:
  assumes "reachable fmt en s" and "system_env en"
  shows "giapi_inv s"
  using assms(1)
proof (induction rule: reachable.induct)
  case program_start
  show ?case by (rule new_giapi_inv [OF assms(2)])
next
  case (program_step s e t)
  from program_step(2) show ?case
  proof (cases rule: moves.cases)
    case (returns r)
    with perform_keeps [OF program_step(3) returns(1)] show ?thesis by simp
  next
    case (throws x)
    with perform_keeps [OF program_step(3) throws(1)] show ?thesis by simp
  qed
qed

text \<open>Who listens to what, in the whole program.\<close>

definition tuned :: "giapi \<Rightarrow> bool" where
  "tuned s \<longleftrightarrow> set (listening (log s)) = c_consumer ` command_consumers s \<union> c_consumer ` channel_consumers s \<and>
     c_consumer ` command_consumers s \<inter> c_consumer ` channel_consumers s = {} \<and>
     (\<forall>u topic h c. g_commands s = Some u \<longrightarrow> cu_holders u topic = Some h \<longrightarrow> c \<in> ran h \<longrightarrow>
        (\<exists>activities. consumes c topic activities (log s))) \<and>
     (\<forall>c \<in> channel_consumers s. hears c (getEpicsChannelTopic (ec_channel c)) None (log s))"

lemma inv_tuned:
  assumes "giapi_inv s"
  shows "tuned s"
proof -
  have "topics_ok (cu_holders u) (log s)" if "g_commands s = Some u" for u
    using assms that by (simp add: giapi_inv_def command_inv_with_def commands_of_def)
  then have commands: "\<exists>activities. consumes c topic activities (log s)"
    if "g_commands s = Some u" "cu_holders u topic = Some h" "c \<in> ran h" for u topic h c
    using that unfolding topics_ok_def by blast
  have "epics_inv_with (c_consumer ` command_consumers s) (gu_epicsMgr u, jms.truncate s)" if "g_gemini s = Some u" for u
    using assms that by (simp add: giapi_inv_def gemini_inv_with_def gemini_of_def gemini.facade_inv_def gemini_ok_with_def)
  then have "hears c (getEpicsChannelTopic (ec_channel c)) None (log s)" if "c \<in> channel_consumers s" for c
    using that by (fastforce simp: channel_consumers_def epics_inv_with_def ran_def split: option.splits)
  then show ?thesis
    using inv_listening [OF assms] commands by (auto simp: tuned_def)
qed

subsection \<open>Sessions\<close>

text \<open>The sessions on which the singletons send, wait and listen.\<close>

definition sessions :: "giapi \<Rightarrow> ptr set" where
  "sessions s =
     (case g_senders s JMS_SENDER of Some (JmsSender sdr) \<Rightarrow> {s_session sdr} | _ \<Rightarrow> {}) \<union>
     (case g_commands s of None \<Rightarrow> {} | Some u \<Rightarrow> {p_session (cu_producer u)}) \<union> c_session ` command_consumers s \<union>
     (case g_data s of None \<Rightarrow> {} | Some u \<Rightarrow> {p_session (du_obsEventProducer u), p_session (du_fileEventsProducer u)}) \<union>
     (case g_services s of None \<Rightarrow> {} | Some u \<Rightarrow> {p_session (su_producer u), p_session (su_logProducer u)}) \<union>
     (case g_gemini s of None \<Rightarrow> {} | Some u \<Rightarrow> {em_session (gu_epicsMgr u), p_session (gu_pcsUpdater u),
        p_session (gu_tcsFetcher u), p_session (gu_tcsApplyOffset u), p_session (gu_epicsFetcher u)}) \<union>
     c_session ` channel_consumers s"

text \<open>The object that a pointer was made from.\<close>

fun maker :: "ptr \<Rightarrow> jms_log \<Rightarrow> ptr option" where
  "maker p [] = None"
| "maker p (e # l) = (if p = length l then (case e of (Create s ob h, True) \<Rightarrow> Some s | _ \<Rightarrow> None) else maker p l)"

definition session_of :: "ptr \<Rightarrow> ptr \<Rightarrow> jms_log \<Rightarrow> bool" where
  "session_of c x l \<longleftrightarrow> obj_at x l = Some Session \<and> maker x l = Some c"

lemma maker_less: "log_wf l \<Longrightarrow> maker p l = Some q \<Longrightarrow> q < p"
proof (induction l)
  case (Cons e l)
  obtain c b where e: "e = (c, b)" by force
  have "s \<in> set (pointers (Create s ob h))" for s ob h
    by (cases "Create s ob h" rule: pointers.cases) auto
  with Cons e show ?case by (auto split: if_splits jms_call.splits bool.splits)
qed simp

lemma sessions_old:
  assumes inv: "giapi_inv s" and x: "x \<in> sessions s"
  shows "x < length (log s)"
proof -
  have ready: "p_session p < length (log s)" if "ready p d (jms.truncate s)" for p d
    using that by (simp add: ready_def alive_def)
  have status: "s_session sdr < length (log s)" if "g_senders s JMS_SENDER = Some (JmsSender sdr)" for sdr
    using inv that by (auto simp: giapi_inv_def service_inv_def status_of_def sender_ready_def alive_def)
  have commands: "p_session (cu_producer u) < length (log s)" if "g_commands s = Some u" for u
    using inv that ready by (auto simp: giapi_inv_def command_inv_with_def commands_of_def simp del: key.simps)
  have data: "p_session (du_obsEventProducer u) < length (log s)" "p_session (du_fileEventsProducer u) < length (log s)"
    if "g_data s = Some u" for u
    using inv that ready by (auto simp: giapi_inv_def data.facade_inv_def data_of_def data_ok_def simp del: key.simps)
  have services: "p_session (su_producer u) < length (log s)" "p_session (su_logProducer u) < length (log s)"
    if "g_services s = Some u" for u
    using inv that ready
    by (auto simp: giapi_inv_def services_inv_def services.facade_inv_def services_of_def services_ok_def simp del: key.simps)
  have gemini: "em_session (gu_epicsMgr u) < length (log s)" "p_session (gu_pcsUpdater u) < length (log s)"
      "p_session (gu_tcsFetcher u) < length (log s)" "p_session (gu_tcsApplyOffset u) < length (log s)"
      "p_session (gu_epicsFetcher u) < length (log s)" if "g_gemini s = Some u" for u
  proof -
    have ok: "gemini_ok_with (c_consumer ` command_consumers s) u (jms.truncate s)"
      using inv that by (simp add: giapi_inv_def gemini_inv_with_def gemini.facade_inv_def gemini_of_def)
    then have "ready (producer.truncate (gu_tcsApplyOffset u)) (Topic (key GMP_TCS_OFFSET_DESTINATION)) (jms.truncate s)"
      by (simp only: gemini_ok_with_def)
    from ready [OF this] show "p_session (gu_tcsApplyOffset u) < length (log s)"
      by (simp add: producer.truncate_def)
    show "em_session (gu_epicsMgr u) < length (log s)"
      using ok by (simp add: gemini_ok_with_def epics_inv_with_def alive_def)
    show "p_session (gu_pcsUpdater u) < length (log s)" "p_session (gu_tcsFetcher u) < length (log s)"
        "p_session (gu_epicsFetcher u) < length (log s)"
      using ok ready by (auto simp: gemini_ok_with_def simp del: key.simps)
  qed
  have listeners: "c_session c < length (log s)" if "c \<in> command_consumers s" for c
    using command_served [of "c_consumer ` channel_consumers s" s] inv that
    by (auto simp: giapi_inv_def served_with_def consumer_ready_def alive_def)
  have channels: "c_session c < length (log s)" if "c \<in> channel_consumers s" for c
    using channel_served [of "c_consumer ` command_consumers s" s] inv that
    by (auto simp: giapi_inv_def served_with_def consumer_ready_def alive_def)
  show ?thesis
    using x status commands data services gemini listeners channels
    by (auto simp: sessions_def split: option.splits any_sender.splits)
qed

text \<open>The connection that a recovery ends with is a new one.\<close>

lemma startup_new:
  assumes "world_ok w"
  shows "sat (\<lambda>_ v. \<exists>c. conn v = Some c \<and> length (log w) \<le> c \<and> obj_at c (log v) = Some Connection) (\<lambda>_ _. True) (startup w)"
  using assms alive_fresh [of "log w"]
  unfolding startup_def jfactory_def wp
  by (intro sat_jcall sat_jnew conjI)
    (auto simp: wp world_ok_def alive_def less_Suc_eq intro!: sat_jcall sat_jnew dest: log_wf_deleted)

lemma reconnect_new:
  assumes "world_ok w" "b \<le> length (log w)"
  shows "sat (\<lambda>done v. done \<longrightarrow> (\<exists>c. conn v = Some c \<and> b \<le> c \<and> obj_at c (log v) = Some Connection)) (\<lambda>_ _. False) (reconnect n w)"
  using assms
proof (induction n arbitrary: w)
  case (Suc n)
  have again: "sat (\<lambda>done v'. done \<longrightarrow> (\<exists>c. conn v' = Some c \<and> b \<le> c \<and> obj_at c (log v') = Some Connection)) (\<lambda>_ _. False) (reconnect n v)"
    if "world_ok v" "net_later w v" for v
    by (rule Suc.IH [OF that(1)]) (use that(2) Suc.prems(2) in \<open>auto simp: net_later_def log_later_def dest: suffix_length_le\<close>)
  show ?case
    by (auto simp: wp again elim!: sat_mono intro!: sat_mono [OF sat_conj [OF startup_later [OF Suc.prems(1)] startup_new [OF Suc.prems(1)]]])
      (use Suc.prems(2) in \<open>blast intro: order_trans\<close>)
qed simp

lemma onException_new:
  assumes w: "world_ok w"
  shows "sat (\<lambda>done v. done \<longrightarrow> (\<exists>c. conn v = Some c \<and> length (log w) \<le> c \<and> obj_at c (log v) = Some Connection)) (\<lambda>_ _. True)
    (onException n w)"
proof -
  have after: "sat (\<lambda>done v. done \<longrightarrow> (\<exists>c. conn v = Some c \<and> length (log w) \<le> c \<and> obj_at c (log v) = Some Connection)) (\<lambda>_ _. True)
      (bindp (reconnect n) (\<lambda>connected. if \<not> connected then ret False else
       bindp (reads errorHandlersFunctions) (\<lambda>fs. thenp (run_functions fs)
      (bindp (reads errorHandlerObjects) (\<lambda>hs. thenp (run_objects hs) (ret True))))) u)"
    if "world_ok u" "length (log w) \<le> length (log u)" for u
    unfolding sat_bindp
    by (rule sat_mono [OF reconnect_new [OF that]]) (auto simp: wp run_functions_run run_objects_run)
  show ?thesis
  proof (cases "conn w")
    case None
    have "world_ok (w\<lparr>conn := None\<rparr>)" using w by (simp add: world_ok_def)
    from after [OF this] None show ?thesis by (simp add: onException_def thenp_def bindp_def)
  next
    case (Some c)
    let ?v = "w\<lparr>log := (StopConnection c, True) # log w, conn := None\<rparr>"
    have c: "alive (log w) c" "world_ok ?v" using w Some by (auto simp: world_ok_def alive_def)
    note rest = after [OF c(2)]
    show ?thesis
      unfolding onException_def sat_thenp sat_modifies sat_bindp [of _ _ "reads conn"] sat_reads Some option.case
      by (rule sat_jcall) (use c rest in auto)
  qed
qed

lemma recovery_strands:
  assumes inv: "giapi_inv s" and run: "perform fmt (ConnectionLost n) s = (Val (Recovered True), t)"
  shows "\<exists>c. conn t = Some c \<and> obj_at c (log t) = Some Connection \<and> sessions t = sessions s \<and>
     (\<forall>x \<in> sessions t. \<not> session_of c x (log t)) \<and> listening (log t) = listening (log s)"
proof -
  have w: "world_ok (manager.truncate s)" using inv_listening(1) [OF inv] by simp
  obtain p where p: "onException n (manager.truncate s) = (Val True, p)" and
    t: "t = put_world (jms.truncate p) (s\<lparr>errorHandlersFunctions := errorHandlersFunctions p,
      errorHandlerObjects := errorHandlerObjects p, invoked := invoked p\<rparr>)"
    using run by (cases "onException n (manager.truncate s)" rule: res_cases) (auto simp: on_manager_def on_part_def bindp_def)
  obtain c where c: "conn p = Some c" "length (log s) \<le> c" "obj_at c (log p) = Some Connection"
    using onException_new [OF w, of n] by (auto simp: p)
  have later: "world_ok p" "net_later s p" using onException_later [OF w, of n] by (simp_all add: p)
  have same: "sessions t = sessions s"
    by (simp add: t sessions_def command_consumers_def channel_consumers_def)
  have "\<not> session_of c x (log t)" if "x \<in> sessions t" for x
  proof
    assume "session_of c x (log t)"
    then have "maker x (log p) = Some c" by (simp add: session_of_def t)
    moreover have "log_wf (log p)" using later(1) by (simp add: world_ok_def)
    ultimately have "c < x" by (rule maker_less [rotated])
    with sessions_old [OF inv, of x] that same c(2) show False by simp
  qed
  with c later same show ?thesis by (simp add: t net_later_def unheard_def)
qed

subsection \<open>The end of the program\<close>

text \<open>
  The singletons are destroyed one after the other. The maps are hash tables: the lists say in which
  order their entries go.
\<close>

datatype ending =
    EndStatus
  | EndCommands "activity list" "string list"
  | EndData
  | EndServices
  | EndGemini "string list"
  | EndConnection

fun end_singleton :: "ending \<Rightarrow> (giapi, unit) prog" where
  "end_singleton EndStatus = on_status destroy_StatusSenderFactoryImpl"
| "end_singleton (EndCommands as ts) = on_commands (destroy_JmsCommandUtil as ts)"
| "end_singleton EndData = on_data destroy_DataUtilImpl"
| "end_singleton EndServices = on_services destroy_ServicesUtilImpl"
| "end_singleton (EndGemini names) = on_gemini (destroy_GeminiUtilImpl names)"
| "end_singleton EndConnection = on_manager destroy_ConnectionManager"

fun end_program :: "ending list \<Rightarrow> (giapi, unit) prog" where
  "end_program [] = ret ()"
| "end_program (d # ds) = thenp (end_singleton d) (end_program ds)"

text \<open>The lists name all entries.\<close>

fun covers :: "ending \<Rightarrow> giapi \<Rightarrow> bool" where
  "covers (EndCommands as ts) s \<longleftrightarrow> set as = UNIV \<and> (\<forall>u. g_commands s = Some u \<longrightarrow> dom (cu_holders u) \<subseteq> set ts)"
| "covers (EndGemini names) s \<longleftrightarrow> (\<forall>u. g_gemini s = Some u \<longrightarrow> dom (em_consumers (gu_epicsMgr u)) \<subseteq> set names)"
| "covers _ s \<longleftrightarrow> True"

definition shrinks :: "giapi \<Rightarrow> giapi \<Rightarrow> bool" where
  "shrinks s t \<longleftrightarrow> g_commands t \<in> {g_commands s, None} \<and> g_gemini t \<in> {g_gemini s, None} \<and>
     sent (log t) = sent (log s) \<and> raw_at (log t) = raw_at (log s)"

fun gone :: "ending \<Rightarrow> giapi \<Rightarrow> bool" where
  "gone (EndCommands as ts) t \<longleftrightarrow> g_commands t = None"
| "gone (EndGemini names) t \<longleftrightarrow> g_gemini t = None"
| "gone _ t \<longleftrightarrow> True"

lemma end_status:
  assumes inv: "giapi_inv s"
  shows "sat (\<lambda>_ t. giapi_inv t \<and> shrinks s t) (\<lambda>_ _. False) (on_status destroy_StatusSenderFactoryImpl s)"
proof -
  have i: "service_inv (status_of s)" using inv by (simp add: giapi_inv_def)
  have "giapi_inv (put_world (sv_net p) (s\<lparr>g_db := sv_db p, g_senders := sv_senders p, g_lines := sv_lines p\<rparr>)) \<and>
      shrinks s (put_world (sv_net p) (s\<lparr>g_db := sv_db p, g_senders := sv_senders p, g_lines := sv_lines p\<rparr>))"
    if p: "sv_senders p = (sv_senders (status_of s))(LOG_SENDER := None, JMS_SENDER := None)" "sv_db p = sv_db (status_of s)"
      "calm (sv_net (status_of s)) (sv_net p)" "unheard (log (sv_net (status_of s))) (log (sv_net p))" for p
  proof -
    have w: "world_ok (sv_net p)" "net_later s (sv_net p)"
      using p(3,4) net_later_calm [OF p(3,4)] by (simp_all add: calm_ok status_of_def)
    note o = others_kept [OF inv this]
    have "service_inv \<lparr>sv_db = sv_db p, sv_senders = sv_senders p, sv_net = sv_net p, sv_lines = sv_lines p\<rparr>"
      using o(1) p(1,2) by (simp add: service_inv_def status_of_def)
    with o(2-) p(3) show ?thesis by (simp add: giapi_inv_def shrinks_def calm_def parts)
  qed
  note kept = this
  show ?thesis
    unfolding on_status_def sat_on_part
  proof (rule sat_mono [OF destroy_StatusSenderFactoryImpl_sat [OF i]], goal_cases)
    case (1 u p)
    then show ?case by (intro kept) simp_all
  qed simp
qed

lemma end_commands:
  assumes inv: "giapi_inv s" and all: "covers (EndCommands as ts) s"
  shows "sat (\<lambda>_ t. giapi_inv t \<and> shrinks s t \<and> g_commands t = None) (\<lambda>_ _. False) (on_commands (destroy_JmsCommandUtil as ts) s)"
proof -
  have i: "command_inv_with (c_consumer ` channel_consumers s) (commands_of s)" using inv by (simp add: giapi_inv_def)
  have "giapi_inv (put_world (cs_net p) (s\<lparr>g_commands := cs_instance p\<rparr>)) \<and>
      shrinks s (put_world (cs_net p) (s\<lparr>g_commands := cs_instance p\<rparr>))"
    if p: "command_inv_with (c_consumer ` channel_consumers s) p" "calm (cs_net (commands_of s)) (cs_net p)" "cs_instance p = None" for p
  proof -
    have "served_with (c_consumer ` channel_consumers s) ({} :: consumer set) (cs_net p)"
      using p(1,3) by (simp add: command_inv_with_def)
    note l = served_listening [OF this]
    have g: "goes_on s (cs_net p)" using goes_on_calm [OF p(2)] by (simp add: commands_of_def)
    have "gemini_inv_with (c_consumer ` ({} :: consumer set)) (g_gemini s, cs_net p)"
      by (rule gemini_kept [OF inv g]) (use l in auto)
    moreover have "command_inv_with (c_consumer ` channel_consumers s) \<lparr>cs_net = cs_net p, cs_instance = None\<rparr>"
      using p(1,3) by (cases p) simp
    ultimately show ?thesis
      using status_kept [OF inv g] data_kept [OF inv g] services_kept [OF inv g] l inv p(2,3)
      by (simp add: giapi_inv_def shrinks_def calm_def parts)
  qed
  with all show ?thesis
    unfolding on_commands_def sat_on_part
    by (intro sat_mono [OF destroy_JmsCommandUtil_sat [OF i]]) (auto simp: commands_of_def)
qed

lemma end_gemini:
  assumes inv: "giapi_inv s" and all: "covers (EndGemini names) s"
  shows "sat (\<lambda>_ t. giapi_inv t \<and> shrinks s t \<and> g_gemini t = None) (\<lambda>_ _. False) (on_gemini (destroy_GeminiUtilImpl names) s)"
proof (cases "g_gemini s")
  case None
  then have "put_world (jms.truncate s) (s\<lparr>g_gemini := None\<rparr>) = s"
    by (cases s) (simp add: put_world_def jms.truncate_def)
  with None inv show ?thesis
    by (simp add: on_gemini_def sat_on_part gemini_of_def destroy_GeminiUtilImpl_def shrinks_def)
next
  case (Some u)
  let ?F = "c_consumer ` command_consumers s"
  have ok: "gemini_ok_with ?F u (jms.truncate s)" "gemini_env (env s)" "names_ok (env s)"
    using inv Some by (simp_all add: giapi_inv_def gemini_inv_with_def gemini.facade_inv_def gemini_of_def gemini_ok_with_def
      epics_inv_with_def)
  have "giapi_inv (put_world w (s\<lparr>g_gemini := None\<rparr>)) \<and> shrinks s (put_world w (s\<lparr>g_gemini := None\<rparr>))"
    if w: "silent ?F (jms.truncate s) w" for w
  proof -
    have c: "calm s w" "typed_listeners (log w)" "set (listening (log w)) = ?F"
      using w by (simp_all add: silent_def calm_def)
    have g: "goes_on s w" using goes_on_calm [OF c(1)] .
    have "command_inv_with (c_consumer ` ({} :: epics_consumer set)) ((commands_of s)\<lparr>cs_net := w\<rparr>)"
      by (rule commands_kept [OF inv g c(2)]) (use c in auto)
    moreover have "gemini_inv_with ?F (None, w)"
      using c ok(2,3) by (simp add: gemini_inv_with_def gemini.facade_inv_def nobody_with_def served_with_def calm_def)
    ultimately show ?thesis
      using status_kept [OF inv g c(2)] data_kept [OF inv g] services_kept [OF inv g] inv c(1)
      by (simp add: giapi_inv_def shrinks_def calm_def parts)
  qed
  with all Some show ?thesis
    unfolding on_gemini_def sat_on_part gemini_of_def
    by (simp, intro sat_mono [OF destroy_GeminiUtilImpl_sat [OF ok(1)]]) auto
qed

text \<open>\<open>ServicesUtil\<close> closes its producers, \<open>DataUtil\<close> releases them and closes nothing.\<close>

lemma destroy_producers_unheard:
  assumes "ready p d w" and "ready q d' w" and "typed_listeners (log w)"
  shows "sat (\<lambda>_ v. calm w v \<and> unheard (log w) (log v)) (\<lambda>_ _. False) (thenp (destroy_producer p) (destroy_producer q) w)"
  unfolding sat_thenp
proof (rule sat_mono [OF destroy_producer_unheard [OF assms(1,3)]], goal_cases)
  case (1 u v)
  then have v: "ready q d' v" "typed_listeners (log v)"
    using assms by (auto intro: ready_goes_on goes_on_calm typed_unheard)
  from destroy_producer_unheard [OF v] 1 show ?case
    by (auto intro: calm_trans unheard_trans elim!: sat_mono)
qed simp

lemma end_services:
  assumes inv: "giapi_inv s"
  shows "sat (\<lambda>_ t. giapi_inv t \<and> shrinks s t) (\<lambda>_ _. False) (on_services destroy_ServicesUtilImpl s)"
proof (cases "g_services s")
  case None
  then have "put_world (jms.truncate s) (s\<lparr>g_services := None\<rparr>) = s"
    by (cases s) (simp add: put_world_def jms.truncate_def)
  with None inv show ?thesis
    by (simp add: on_services_def sat_on_part services_of_def destroy_ServicesUtilImpl_def shrinks_def)
next
  case (Some u)
  have r: "ready (su_logProducer u) (Topic (key GMP_SERVICES_LOG_DESTINATION)) (jms.truncate s)"
      "ready (su_producer u) (Queue (key GMP_UTIL_REQUEST_DESTINATION)) (jms.truncate s)" and en: "replies_ok (env s)"
    using inv Some by (simp_all add: giapi_inv_def services_inv_def services.facade_inv_def services_of_def services_ok_def
      del: key.simps)
  have "giapi_inv (put_world w (s\<lparr>g_services := None\<rparr>)) \<and> shrinks s (put_world w (s\<lparr>g_services := None\<rparr>))"
    if w: "calm (jms.truncate s) w" "unheard (log s) (log w)" for w
  proof -
    have "world_ok w" "net_later s w" using net_later_calm [OF w(1)] w by (simp_all add: calm_ok)
    note o = others_kept [OF inv this]
    have "services_inv (None, w)" using en w(1) by (simp add: services_inv_def services.facade_inv_def calm_def)
    with o w(1) show ?thesis by (simp add: giapi_inv_def shrinks_def calm_def parts)
  qed
  moreover have "sat (\<lambda>_ v. calm (jms.truncate s) v \<and> unheard (log s) (log v)) (\<lambda>_ _. False)
      (thenp (destroy_producer (su_logProducer u)) (destroy_producer (su_producer u)) (jms.truncate s))"
    using destroy_producers_unheard [OF r] inv_listening(2) [OF inv] by simp
  ultimately show ?thesis
    using Some unfolding on_services_def sat_on_part services_of_def destroy_ServicesUtilImpl_def
    by (auto simp: sat_bindp sat_thenp on_world_def sat_on_part destroy_auto_ptr_def destroy_RequestProducer_def elim!: sat_mono)
qed

lemma end_data:
  assumes inv: "giapi_inv s"
  shows "sat (\<lambda>_ t. giapi_inv t \<and> shrinks s t) (\<lambda>_ _. False) (on_data destroy_DataUtilImpl s)"
proof -
  have w: "world_ok (jms.truncate s)" "net_later s (jms.truncate s)" using inv_listening(1) [OF inv] by simp_all
  note o = others_kept [OF inv w]
  have "giapi_inv (put_world (jms.truncate s) (s\<lparr>g_data := x\<rparr>)) \<and> shrinks s (put_world (jms.truncate s) (s\<lparr>g_data := x\<rparr>))"
    if "x = None \<or> x = g_data s" for x
    using o that w(1) by (auto simp: giapi_inv_def shrinks_def parts data.facade_inv_def)
  then show ?thesis
    by (cases "g_data s") (simp_all add: on_data_def sat_on_part data_of_def destroy_DataUtilImpl_def wp on_world_def
      auto_ptr_release_def destroy_auto_ptr_def)
qed

lemma end_connection:
  assumes inv: "giapi_inv s"
  shows "sat (\<lambda>_ t. giapi_inv t \<and> shrinks s t) (\<lambda>_ _. False) (on_manager destroy_ConnectionManager s)"
proof -
  let ?w = "manager.truncate s"
  have w: "world_ok ?w" using inv_listening(1) [OF inv] by simp
  have mute: "unheard (log v) (log (snd (destroy_ConnectionManager v)))" for v
    by (auto simp: destroy_ConnectionManager_def thenp_def bindp_def catchp_def jcall_def unheard_call
      split: option.split prod.split res.split)
  have "giapi_inv (put_world (jms.truncate p) (s\<lparr>errorHandlersFunctions := a, errorHandlerObjects := b, invoked := c\<rparr>)) \<and>
      shrinks s (put_world (jms.truncate p) (s\<lparr>errorHandlersFunctions := a, errorHandlerObjects := b, invoked := c\<rparr>))"
    if p: "calm ?w p" "unheard (log s) (log p)" for p :: manager and a b c
  proof -
    have "world_ok (jms.truncate p)" "net_later s (jms.truncate p)"
      using net_later_calm [OF p(1)] p by (simp_all add: calm_ok)
    from others_kept [OF inv this] p(1) show ?thesis by (simp add: giapi_inv_def shrinks_def calm_def parts)
  qed
  with destroy_ConnectionManager_sat [OF w] mute [of ?w] show ?thesis
    unfolding on_manager_def sat_on_part
    by (cases "destroy_ConnectionManager ?w" rule: res_cases) auto
qed

lemma end_singleton_keeps:
  assumes "giapi_inv s" and "covers d s"
  shows "sat (\<lambda>_ t. giapi_inv t \<and> shrinks s t \<and> gone d t) (\<lambda>_ _. False) (end_singleton d s)"
  using assms end_status end_commands end_data end_services end_gemini end_connection
  by (cases d) simp_all

lemma covers_shrinks: "covers d s \<Longrightarrow> shrinks s t \<Longrightarrow> covers d t"
  by (cases d) (auto simp: shrinks_def simp del: subset_eq del: subsetI)

lemma shrinks_trans: "shrinks a b \<Longrightarrow> shrinks b c \<Longrightarrow> shrinks a c"
  by (auto simp: shrinks_def)

lemma gone_shrinks: "gone d s \<Longrightarrow> shrinks s t \<Longrightarrow> gone d t"
  by (cases d) (auto simp: shrinks_def)

lemma end_program_keeps:
  assumes "giapi_inv s" and "\<And>d. d \<in> set ds \<Longrightarrow> covers d s"
  shows "sat (\<lambda>_ t. giapi_inv t \<and> shrinks s t \<and> (\<forall>d \<in> set ds. gone d t)) (\<lambda>_ _. False) (end_program ds s)"
  using assms
proof (induction ds arbitrary: s)
  case (Cons d ds)
  show ?case
    unfolding end_program.simps sat_thenp
  proof (rule sat_mono [OF end_singleton_keeps [OF Cons.prems(1)]], goal_cases)
    case (2 u t)
    then have "sat (\<lambda>_ t'. giapi_inv t' \<and> shrinks t t' \<and> (\<forall>d \<in> set ds. gone d t')) (\<lambda>_ _. False) (end_program ds t)"
      using Cons.prems(2) by (intro Cons.IH) (auto intro: covers_shrinks)
    with 2 show ?case by (auto elim!: sat_mono intro: shrinks_trans gone_shrinks)
  qed (use Cons.prems in auto)
qed (simp add: shrinks_def)

end
