(* ===== verification/System_Correct.thy ===== *)
theory System_Correct
  imports System_End Shutdown_Correct
begin

section \<open>The components together\<close>



text \<open>A program that has registered a handler for a command, and then listens to a channel as well.\<close>

definition park_registered :: giapi where
  "park_registered = snd (perform (\<lambda>z. ''0.0'') (CommandUtilCall (SubscribeSequenceCommand PARK SET_PRESET (Some 1)))
     (new_giapi answering_env))"

definition listening_to_both :: giapi where
  "listening_to_both = snd (perform (\<lambda>z. ''0.0'') (GeminiUtilCall (EpicsCall (Subscribe ''tcs:mode'' 3))) park_registered)"




text \<open>There two consumers listen, one of each kind.\<close>

lemma listening_to_both_run: "length (listening (log listening_to_both)) = 2"
  unfolding listening_to_both_def park_registered_def by code_simp









end
