(* ===== verification/Spec2Isabelle.thy ===== *)
theory Spec2Isabelle
  imports Status_Correct Messaging_Correct Command_Correct Util_Correct Gemini_Correct Facade_Correct Shutdown_Correct
    System_Correct
begin

text \<open>
  A model of giapi-glue, the C++ library by which an instrument talks to the Gemini Master
  Process (GMP) over a message broker, and the theorems that make it correct. Paths below
  are under \<open>src/\<close>.

  The program. An application calls static functions of \<open>StatusUtil\<close>, \<open>CommandUtil\<close>,
  \<open>DataUtil\<close>, \<open>ServicesUtil\<close>, \<open>GeminiUtil\<close> and \<open>GiapiUtil\<close> (\<open>giapi/*.h\<close>). Each forwards to a
  singleton that holds state: the status database, the consumers of sequence commands, the
  producers of messages. They share one connection to the broker, kept by
  \<open>gmp/ConnectionManager\<close>, and talk to it through the CMS interface.

  How the code is modelled. A piece of code is a \<open>prog\<close> (theory Giapi_Prog): a function of the
  state to an outcome and a new state. The outcome is a value, an exception, the end of the
  process (an exception leaves a function whose exception specification forbids it) or
  undefined behaviour. Classes are records that extend the record of the base class, methods
  are programs over them, enumerations are datatypes, an \<open>int\<close>, \<open>float\<close> or \<open>double\<close> is the word
  of its bits. The clock and the messaging library are parameters: theory Jms_World keeps the
  log of all calls to the library, and a record of functions of this history decides which
  call throws and what a call delivers. Nothing is assumed about it unless a theorem says so.
  A pointer to an object of the library is the position of the call that created it, so that
  a use after deletion or a second deletion is undefined behaviour in the model as well.

  The theories.
  Giapi_Prelude, Giapi_Types, Giapi_Except, Giapi_Prog: words and floating point comparison, the
  public enumerations and structures, the exception classes, programs with their weakest
  precondition rules, and the locale \<open>safe_machine\<close> of components whose calls are safe.
  Giapi_Util: \<open>StringUtil\<close> and \<open>TimeUtil\<close>.
  Status_Item, Status_Database, Status_Serializer, Status_Sender, Status_Service:
  \<open>src/status\<close>. The database refines a map from names to items; the locale \<open>status_transport\<close> is
  the contract between the general sender and its two transports; the serialized form of an
  item is read back by a reader of the format. Status_Transports adds \<open>reliable_transport\<close>, a transport
  that always returns, and what the getters of a well typed item deliver.
  Jms_World, Gmp_Protocol, Connection_Manager: the messaging library as seen by the code,
  \<open>src/gmp\<close> and \<open>GiapiUtil\<close>. The reconnection loop has fuel; it is enough as soon as it is larger
  than the number of failing attempts.
  Jms_Producer, Message_Posts, Jms_Request: the classes that send one message per call, with
  the locale \<open>message_post\<close> as their common contract, and those that wait for a reply.
  Listeners: what \<open>SequenceCommandConsumer\<close> and \<open>EpicsConsumer\<close> share: a session with a consumer that
  is registered as the listener of its topic, opened and destroyed by the same calls.
  Command_Consumer, Command_Util: \<open>src/commands\<close>: configurations, selectors, the callback that
  answers a command, the holders of consumers and the public functions. The consumers that others
  keep over the same connection are a parameter, the foreign ones; the theorems about one service
  alone take the empty set.
  Epics_Item, Epics_Builder, Epics_Manager: \<open>src/gemini/epics\<close>. An item is the block of bytes its
  builder filled; the accessors read the block, and a read outside it is undefined behaviour. The
  manager keeps one consumer per channel and the request for the value of a channel. The names
  of the channels come with the answer to a request; what the library delivers is the environment.
  Apply_Offset: \<open>JmsApplyOffset\<close>, with the conversion of the answer by \<open>std::stoi\<close> and the thread that
  waits for it as a second program.
  Facades: \<open>ServicesUtil\<close>, \<open>DataUtil\<close> and \<open>GeminiUtil\<close>, singletons of producers that are made at the
  first use, with the locale \<open>facade\<close> as their common contract.
  Facade_Histories, Gemini_Histories: sequences of calls through these facades; the locale
  \<open>posting_facade\<close> extends \<open>facade\<close> by the contract of a message per call. Gemini_Histories holds the
  hypotheses on the answers that \<open>GeminiUtil\<close> relies on.
  Properties_Parser, Properties_File: the parser of the properties file, which log4cxx contains, and
  \<open>PropertiesUtil\<close>, over a parameter that delivers the text in a file. The other theories use its
  results as a function of the environment.
  Shutdown: the destructors of the singletons and their members, for every order of the hash tables.
  A member is also destroyed when the rest of its owner's constructor throws (Jms_Producer).
  Service_Frames, System, System_End: the components together. \<open>giapi\<close> is the state of all singletons
  over the one connection of the connection manager; \<open>perform\<close> is one step: a call of any facade, a
  message that arrives for a consumer of a command or a channel, or a loss of the connection with
  the rounds of the recovery. \<open>reachable\<close> closes the start of the program under these steps, in any
  order and whether they return or throw. The invariant \<open>giapi_inv\<close> puts those of the components
  together: for the two that listen, the consumers of the other are the foreign ones, and each
  component keeps what a step of another does to the world. \<open>end_program\<close> destroys the singletons.
  Status_Correct, Messaging_Correct, Command_Correct, Util_Correct, Gemini_Correct, Facade_Correct,
  Shutdown_Correct, System_Correct: the properties.

  What is shown. For the library as a whole: from every reachable state, every step keeps to the
  exceptions its interface allows, no bad pointer is used, and exactly the consumers of the registered
  commands and the subscribed channels listen, each to its topic; after a recovery every session is
  one of a connection that was given up; the singletons can be destroyed in any order. The environment
  must satisfy \<open>system_env\<close>: nothing fails between a request and its answer, and the answers have
  the documented form. For the status service: a refinement of all histories of database calls to an
  abstract map, what posting sends and clears on success and on failure, that the two senders
  agree, the round trip of the serialized form, the contracts of setters and alarms, that every
  item keeps a value of its type, and that the whole interface is safe.
  For the producers: from construction on, the messages sent are those of the calls that
  returned, and no message object is leaked or deleted twice. For requests: their contract
  when nothing fails after the send. For the connection: when the recovery ends, what it
  does then and in which order.
  For commands: the meaning of selectors, at most one reply per command, the consumers that
  listen are those the holders refer to, the effect of a subscription, the filter of
  completion information. For EPICS: what the builders write is what the accessors of the item
  read, for one value of every kind and for any list of strings; for all histories of
  subscriptions, the consumers that listen are those of the manager, one per channel, and only
  GIAPI exceptions are thrown. For offsets: the outcome for every answer of the server and the contract of
  the thread. For the facades: all histories of calls of \<open>ServicesUtil\<close>, \<open>DataUtil\<close> and \<open>GeminiUtil\<close>
  from the start of the program; \<open>DataUtil\<close> without any hypothesis, the other two as long as nothing
  fails between a request and its answer. For \<open>GeminiUtil\<close> the answers must have the documented form:
  the names of the channels are a map, a text with a bar has a number in front of it, and the value
  of a channel has strings or bytes, because an array of numbers overruns the buffer of its builder.
  For the end of the program, after calls of one facade as well as of all: the destructors throw
  nothing, and no consumer of a command or of a channel listens afterwards. For the properties file: what every history of lookups delivers,
  and that what is written as settings is read back. For
  the timer: what it measures.

  Behaviour that is probably not intended is stated as theorems too: an update is lost when a
  post fails, three types of items are posted without their header, a request is deleted
  twice when its reply fails, a connection whose start failed is never started, a registration
  for \<open>SET_START\<close> receives nothing, two registrations may both handle a command, the errors of
  the timer end the process, an update of several numbers is written past the end of its
  buffer, a malformed answer to an offset ends the process, an offset that was not applied is
  reported by the number of \<open>status::OK\<close>, the sessions of \<open>DataUtil\<close> are never closed, and
  a recovery of the connection leaves all producers and consumers on the one that was given up.

  Not modelled. The text written to the log of the program, the pauses between attempts to
  reconnect, threads (a call, a callback and a recovery are one step each, so that they follow one another), the vendored libraries under
  \<open>external/\<close>, the examples and the tests, except for the
  parser of the properties file in log4cxx; how its text is read and decoded is a parameter. What the destructors of the library's own objects do
  is the library's matter.
\<close>

end
